(* ===== verification/Gate_Base.thy ===== *)
theory Gate_Base
  imports Main "HOL-Library.AList" "HOL-Library.Multiset" "HOL-Library.Sublist"
    "HOL-Library.Word" "HOL-Library.List_Lexorder" "HOL-Library.Char_ord"
begin

text \<open>
  The prelude of the development: error values, the result type of a Go function that
  returns \<open>(T, error)\<close>, Go maps, the dynamic values that travel through the gateway
  (\<open>any\<close>), and the string and integer routines of the Go standard library that the
  sources call. Strings are byte strings, as in Go.

  \<^item> A Go \<open>map[string]T\<close> that the code iterates over is an association list with
    distinct keys (\<open>gmap\<close>), in the order in which one particular run visits it; theorems
    about such code state when the order does not matter. A map that is only looked up is a
    HOL map.
  \<^item> \<open>int\<close> stands for Go's 64-bit \<open>int\<close>; sums that could leave the range are
    wrapped with \<open>wrap64\<close>.
\<close>

named_theorems res_simps \<open>equations of the result monad\<close>
named_theorems lex_intros \<open>lexically closed SQL fragments\<close>

lemmas res_splits = sum.splits option.splits prod.splits

section \<open>Errors\<close>

text \<open>
  One constructor for each \<open>fmt.Errorf\<close> site of the modelled code, with the values it
  formats, grouped by the package that reports it. \<open>Ext_Error\<close> is an error produced by code
  outside the repository (the database driver, a lifecycle hook, the token parser); \<open>Go_Panic\<close>
  is a run-time panic of the code itself.
\<close>

datatype rbac_err =
    Preset_Claim_Missing string string
  | Preset_Claim_Not_Scalar string
  | Grant_On_Unknown_Table string string string
  | Unknown_Column string string string string
  | Unknown_Preset_Column string string string string
  | Bad_Preset_Path string string string string
  | Filter_Is_Empty
  | Filter_Claim_Missing string
  | Filter_Claim_Not_Scalar string
  | Filter_Claim_Bad_Element string

datatype gen_err =
    Dup_Table_Name string string string
  | Dup_Column_Name string string string string
  | Name_Collision string string string string
  | Bad_Custom_Field string
  | Custom_Field_Taken string string string

datatype where_err =
    Must_Be_List string
  | Entries_Must_Be_Objects string
  | Not_Must_Be_Object
  | Unknown_Filter_Column string
  | Filter_Not_Operators string
  | Null_Comparison string string
  | Expects_List string string
  | Is_Null_Expects_Bool string
  | Has_Key_Expects_String string
  | Unsupported_Operator string string

datatype query_err =
    Order_Entry_Not_Object
  | Unknown_Order_Column string
  | Bad_Order_Direction string
  | Limit_Negative
  | Offset_Negative
  | First_Negative
  | Unknown_Metric string
  | Missing_PK_Argument string
  | Cannot_Encode_JSON string
  | Bad_Column_Value string
  | Invalid_Cursor
  | Cursor_Shape_Mismatch
  | Unauthenticated

datatype write_err =
    Not_Permitted string string string
  | Objects_Empty
  | Insert_Not_Object
  | Insert_No_Columns string
  | Not_Writable string
  | Set_Empty

datatype auth_err =
    Missing_Authorization
  | Not_Bearer
  | Role_Not_Configured string
  | No_Role_Claim string
  | Role_Claim_Not_String string
  | No_Id_Claim string
  | Id_Claim_Empty string
  | Id_Claim_Bad_Type string
  | No_Identity string string
  | No_Role_Assigned string
  | Key_Algorithm_Mismatch string string
  | Unsupported_Key
  | Cannot_Sign string

datatype server_err =
    Depth_Exceeded int int
  | No_Schema_For_Role string
  | No_Query
  | Method_Not_Allowed

datatype config_err =
    Schema_Required
  | No_Tables string
  | Bad_Algorithm string
  | Secret_Required string
  | Secret_Too_Short string int
  | Key_File_Required string
  | No_Roles
  | Unknown_Anonymous_Role string
  | Page_Size_Order int int
  | Bad_Cache_Seconds
  | Env_Missing "string list"
  | Reload_Database_Changed
  | Reload_Server_Changed
  | Reload_No_Path
  | Role_Table_Missing string string
  | Role_Column_Missing string string string string

datatype hook_err =
    Unknown_Hook string string string
  | Bad_Custom_Operation string string
  | Custom_Unknown_Role string string

datatype account_err =
    Credentials_Too_Short
  | Gateway_Unavailable
  | Account_Not_Created
  | Invalid_Credentials
  | Account_Disabled
  | Role_Not_Defined string

datatype gerr =
    Ext_Error string
  | DB_Masked
  | Go_Panic string
  | Rbac_Err rbac_err
  | Gen_Err gen_err
  | Where_Err where_err
  | Query_Err query_err
  | Write_Err write_err
  | Auth_Err auth_err
  | Server_Err server_err
  | Config_Err config_err
  | Hook_Err hook_err
  | Bad_Filter string string string gerr
  | Invalid_Token gerr
  | Role_Lookup_Failed gerr
  | Key_File gerr
  | Reload_Failed gerr
  | Invalid_Body gerr
  | Open_Database gerr
  | Account_Err account_err
  | Bad_Claims_JSON gerr
  | Bad_Op_Perm gerr
  | Cannot_Reach_Database string int gerr

section \<open>Results\<close>

type_synonym 'a res = "gerr + 'a"

definition rbind :: "'a res \<Rightarrow> ('a \<Rightarrow> 'b res) \<Rightarrow> 'b res" where
  "rbind m f = (case m of Inl e \<Rightarrow> Inl e | Inr x \<Rightarrow> f x)"

lemma rbind_simps [simp, res_simps]:
  "rbind (Inl e) f = Inl e"
  "rbind (Inr x) f = f x"
  by (simp_all add: rbind_def)

lemma rbind_Inr_iff [simp]: "rbind m f = Inr y \<longleftrightarrow> (\<exists>x. m = Inr x \<and> f x = Inr y)"
  by (cases m) auto

lemma rbind_Inl_iff: "rbind m f = Inl e \<longleftrightarrow> m = Inl e \<or> (\<exists>x. m = Inr x \<and> f x = Inl e)"
  by (cases m) auto

lemma rbind_cong [fundef_cong]:
  "m = m' \<Longrightarrow> (\<And>x. m' = Inr x \<Longrightarrow> f x = f' x) \<Longrightarrow> rbind m f = rbind m' f'"
  by (cases m') auto

lemma rbind_assoc: "rbind (rbind m f) g = rbind m (\<lambda>x. rbind (f x) g)"
  by (cases m) auto

definition is_ok :: "'a res \<Rightarrow> bool" where
  "is_ok m = (case m of Inl _ \<Rightarrow> False | Inr _ \<Rightarrow> True)"

lemma is_ok_simps [simp]: "is_ok (Inl e) = False" "is_ok (Inr x) = True"
  by (simp_all add: is_ok_def)

lemma is_ok_iff: "is_ok m \<longleftrightarrow> (\<exists>x. m = Inr x)"
  by (cases m) auto

text \<open>A loop whose body can return early with an error: the first error wins.\<close>

fun mapr :: "('a \<Rightarrow> 'b res) \<Rightarrow> 'a list \<Rightarrow> 'b list res" where
  "mapr f [] = Inr []"
| "mapr f (x # xs) = rbind (f x) (\<lambda>y. rbind (mapr f xs) (\<lambda>ys. Inr (y # ys)))"

lemma mapr_cong [fundef_cong]:
  "xs = ys \<Longrightarrow> (\<And>x. x \<in> set ys \<Longrightarrow> f x = g x) \<Longrightarrow> mapr f xs = mapr g ys"
  by (induction xs arbitrary: ys) auto

lemma mapr_Inr_iff: "mapr f xs = Inr ys \<longleftrightarrow> list_all2 (\<lambda>x y. f x = Inr y) xs ys"
  by (induction xs arbitrary: ys) (auto simp: list_all2_Cons1)

lemma mapr_length: "mapr f xs = Inr ys \<Longrightarrow> length ys = length xs"
  by (auto simp: mapr_Inr_iff dest: list_all2_lengthD)

lemma mapr_pure [simp]: "mapr (\<lambda>x. Inr (f x)) xs = Inr (map f xs)"
  by (induction xs) auto

lemma is_ok_mapr: "is_ok (mapr f xs) \<longleftrightarrow> (\<forall>x\<in>set xs. is_ok (f x))"
  by (induction xs) (auto simp: is_ok_iff)

section \<open>Strings\<close>

text \<open>\<open>strings.Join\<close>.\<close>

fun join :: "string \<Rightarrow> string list \<Rightarrow> string" where
  "join sep [] = []"
| "join sep [x] = x"
| "join sep (x # y # ys) = x @ sep @ join sep (y # ys)"

lemma join_Cons: "ys \<noteq> [] \<Longrightarrow> join sep (x # ys) = x @ sep @ join sep ys"
  by (cases ys) auto

lemma join_snoc: "xs \<noteq> [] \<Longrightarrow> join sep (xs @ [x]) = join sep xs @ sep @ x"
  by (induction sep xs rule: join.induct) auto

text \<open>\<open>strings.CutPrefix\<close> and \<open>strings.HasPrefix\<close>.\<close>

fun cut_prefix :: "string \<Rightarrow> string \<Rightarrow> string option" where
  "cut_prefix [] s = Some s"
| "cut_prefix (p # ps) [] = None"
| "cut_prefix (p # ps) (c # cs) = (if p = c then cut_prefix ps cs else None)"

lemma cut_prefix_iff: "cut_prefix p s = Some r \<longleftrightarrow> s = p @ r"
  by (induction p s rule: cut_prefix.induct) auto

definition has_prefix :: "string \<Rightarrow> string \<Rightarrow> bool" where
  "has_prefix s p = (take (length p) s = p)"

lemma has_prefix_iff: "has_prefix s p \<longleftrightarrow> (\<exists>r. s = p @ r)"
  by (metis append_eq_conv_conj append_take_drop_id has_prefix_def)

definition has_suffix :: "string \<Rightarrow> string \<Rightarrow> bool" where
  "has_suffix s p = (length p \<le> length s \<and> drop (length s - length p) s = p)"

definition trim_suffix :: "string \<Rightarrow> string \<Rightarrow> string" where
  "trim_suffix s p = (if has_suffix s p then take (length s - length p) s else s)"

text \<open>\<open>strings.Contains\<close>.\<close>

fun str_contains :: "string \<Rightarrow> string \<Rightarrow> bool" where
  "str_contains [] p = (p = [])"
| "str_contains (c # cs) p = (has_prefix (c # cs) p \<or> str_contains cs p)"

text \<open>ASCII letter case, for \<open>strings.ToLower\<close> and \<open>strings.EqualFold\<close> on ASCII data.\<close>

definition is_lower :: "char \<Rightarrow> bool" where
  "is_lower c = (97 \<le> (of_char c :: nat) \<and> (of_char c :: nat) \<le> 122)"

definition is_upper :: "char \<Rightarrow> bool" where
  "is_upper c = (65 \<le> (of_char c :: nat) \<and> (of_char c :: nat) \<le> 90)"

definition is_digit :: "char \<Rightarrow> bool" where
  "is_digit c = (48 \<le> (of_char c :: nat) \<and> (of_char c :: nat) \<le> 57)"

text \<open>The class \<open>[A-Za-z0-9_]\<close> of the regular expressions.\<close>

definition is_word :: "char \<Rightarrow> bool" where
  "is_word c = (is_lower c \<or> is_upper c \<or> is_digit c \<or> c = CHR ''_'')"

definition to_lower_char :: "char \<Rightarrow> char" where
  "to_lower_char c = (if is_upper c then char_of ((of_char c :: nat) + 32) else c)"

definition to_lower :: "string \<Rightarrow> string" where
  "to_lower s = map to_lower_char s"

section \<open>References in text\<close>

text \<open>
  The loop behind \<open>ReplaceAllFunc\<close> and \<open>FindAllStringSubmatchIndex\<close>: the text is cut into
  literal bytes (\<open>Inl\<close>) and references (\<open>Inr\<close>), leftmost match first, and the search goes on
  behind each match. \<open>ref s\<close> is the reference that starts at the head of \<open>s\<close>, with the rest
  of the text.
\<close>

function scan_refs :: "(string \<Rightarrow> (string \<times> string) option) \<Rightarrow> string \<Rightarrow> (char + string) list" where
  "scan_refs ref [] = []"
| "scan_refs ref (c # cs) =
     (case ref (c # cs) of
        Some (name, rest) \<Rightarrow>
          if length rest < length (c # cs) then Inr name # scan_refs ref rest
          else Inl c # scan_refs ref cs
      | None \<Rightarrow> Inl c # scan_refs ref cs)"
  by pat_completeness auto
termination
  by (relation "measure (\<lambda>(r, s). length s)") auto

fun print_refs :: "(string \<Rightarrow> string) \<Rightarrow> (char + string) list \<Rightarrow> string" where
  "print_refs shw [] = []"
| "print_refs shw (Inl c # ts) = c # print_refs shw ts"
| "print_refs shw (Inr n # ts) = shw n @ print_refs shw ts"

text \<open>The contract of a reference syntax, and what the loop then guarantees.\<close>

locale ref_syntax =
  fixes ref :: "string \<Rightarrow> (string \<times> string) option"
    and shw :: "string \<Rightarrow> string"
    and good :: "string \<Rightarrow> bool"
  assumes ref_split: "ref s = Some (n, rest) \<Longrightarrow> s = shw n @ rest"
    and ref_good: "ref s = Some (n, rest) \<Longrightarrow> good n"
    and shw_nonempty: "shw n \<noteq> []"
begin

lemma ref_shorter: "ref s = Some (n, rest) \<Longrightarrow> length rest < length s"
  using ref_split [of s n rest] shw_nonempty [of n] by simp

lemma scan_cases:
  obtains "s = []"
  | c cs where "s = c # cs" "scan_refs ref s = Inl c # scan_refs ref cs"
  | n rest where "ref s = Some (n, rest)" "s = shw n @ rest" "length rest < length s"
      "scan_refs ref s = Inr n # scan_refs ref rest"
proof (cases s)
  case (Cons c cs)
  show ?thesis
  proof (cases "ref s")
    case None
    with Cons that(2) show ?thesis by simp
  next
    case (Some p)
    obtain n rest where p: "ref s = Some (n, rest)" using Some by (cases p) auto
    have "scan_refs ref s = Inr n # scan_refs ref rest"
      using p ref_shorter [OF p] Cons by simp
    with that(3) p ref_split ref_shorter show ?thesis by blast
  qed
qed (use that(1) in simp)

lemma print_scan: "print_refs shw (scan_refs ref s) = s"
proof (induction s rule: measure_induct_rule [of length])
  case (less s)
  show ?case
    by (cases s rule: scan_cases) (simp_all add: less del: scan_refs.simps(2))
qed

lemma scan_good: "Inr n \<in> set (scan_refs ref s) \<Longrightarrow> good n"
proof (induction s rule: measure_induct_rule [of length])
  case (less s)
  show ?case
  proof (cases s rule: scan_cases)
    case 1
    with less.prems show ?thesis by simp
  next
    case (2 c cs)
    with less.prems have "Inr n \<in> set (scan_refs ref cs)" by simp
    with less.IH [of cs] 2 show ?thesis by simp
  next
    case (3 m rest)
    with less.prems have "n = m \<or> Inr n \<in> set (scan_refs ref rest)" by auto
    with less.IH [of rest] 3 ref_good show ?thesis by blast
  qed
qed

end

section \<open>Interfaces\<close>

text \<open>A step relation that keeps an invariant.\<close>

locale preserved =
  fixes step :: "'s \<Rightarrow> 's \<Rightarrow> bool" and inv :: "'s \<Rightarrow> bool"
  assumes step_keeps: "step s s' \<Longrightarrow> inv s \<Longrightarrow> inv s'"
begin

lemma steps_keep: "step\<^sup>*\<^sup>* s s' \<Longrightarrow> inv s \<Longrightarrow> inv s'"
  by (induction rule: rtranclp_induct) (auto intro: step_keeps)

end

text \<open>An operation that leaves the state alone when it fails.\<close>

locale all_or_nothing =
  fixes op :: "'s \<Rightarrow> 's \<times> 'a res"
  assumes error_keeps: "op s = (s', Inl e) \<Longrightarrow> s' = s"
begin

lemma kept: "snd (op s) = Inl e \<Longrightarrow> fst (op s) = s"
  by (cases "op s") (auto dest: error_keeps)

lemma changed: "fst (op s) \<noteq> s \<Longrightarrow> \<exists>x. snd (op s) = Inr x"
  using kept by (cases "snd (op s)") auto

end

text \<open>One that needs a grant.\<close>

locale granted_op = all_or_nothing op for op :: "'s \<Rightarrow> 's \<times> 'a res" +
  fixes granted :: bool
  assumes denied: "\<not> granted \<Longrightarrow> \<exists>e. snd (op s) = Inl e"
begin

lemma effect_granted: "fst (op s) \<noteq> s \<Longrightarrow> granted"
  using denied kept by blast

end

text \<open>An encoding with its decoder.\<close>

locale codec =
  fixes enc :: "'a \<Rightarrow> 'b" and dec :: "'b \<Rightarrow> 'a option"
  assumes dec_of_enc: "dec (enc x) = Some x"
begin

lemma enc_eq: "enc x = enc y \<longleftrightarrow> x = y"
  by (metis dec_of_enc option.inject)

end

text \<open>A cache of answers that may be used for a time \<open>ttl\<close>.\<close>

locale ttl_cache =
  fixes get :: "int \<Rightarrow> 'k \<Rightarrow> 'c \<Rightarrow> 'v option" and put :: "int \<Rightarrow> 'k \<Rightarrow> 'v \<Rightarrow> 'c \<Rightarrow> 'c" and none :: 'c and ttl :: int
  assumes get_none: "get now k none = None"
    and get_put: "get now k (put t k' v c) = Some x \<Longrightarrow> get now k c = Some x \<or> k' = k \<and> v = x \<and> now < t + ttl"
begin

text \<open>What the cache serves from \<open>t\<close> on was known, at some time before it was stored.\<close>

definition backed :: "('k \<Rightarrow> 'v \<Rightarrow> int \<Rightarrow> bool) \<Rightarrow> int \<Rightarrow> 'c \<Rightarrow> bool" where
  "backed known t c \<longleftrightarrow>
     (\<forall>now k x. get now k c = Some x \<longrightarrow>
        (\<exists>t0 stored. known k x t0 \<and> t0 \<le> stored \<and> stored \<le> t \<and> now < stored + ttl))"

lemma backed_none: "backed known t none"
  by (simp add: backed_def get_none)

lemma backed_tick: "backed known t c \<Longrightarrow> t \<le> t' \<Longrightarrow> backed known t' c"
  unfolding backed_def by (meson order.trans)

lemma backed_put: "backed known t c \<Longrightarrow> known k v t0 \<Longrightarrow> t0 \<le> t \<Longrightarrow> backed known t (put t k v c)"
  unfolding backed_def using get_put by (metis order_refl)

lemma backed_get: "backed known t c \<Longrightarrow> get now k c = Some x \<Longrightarrow>
    \<exists>t0 stored. known k x t0 \<and> t0 \<le> stored \<and> stored \<le> t \<and> now < stored + ttl"
  unfolding backed_def by blast

end

end
