(* ===== verification/Gate_Values.thy ===== *)
theory Gate_Values
  imports Gate_Base
begin

text \<open>
  The dynamic values (\<open>any\<close> in the sources) and the Go library routines over integers and
  floats that the sources call. A \<open>float64\<close> is its IEEE 754 bit pattern.
\<close>

section \<open>Dynamic values\<close>

type_synonym f64 = "64 word"

text \<open>A \<open>time.Time\<close>: its calendar fields, nanoseconds and zone offset in seconds.\<close>

datatype gtime = GTime int nat nat nat nat nat nat int

text \<open>
  The types that occur under an \<open>any\<close>: GraphQL input values, JWT claims, driver values and
  resolver results. \<open>VMap\<close> lists the entries of a \<open>map[string]any\<close>.
\<close>

datatype gval =
    VNil
  | VBool bool
  | VInt int
  | VInt64 int
  | VUint64 int
  | VFloat f64
  | VStr string
  | VBytes string
  | VTime gtime
  | VList "gval list"
  | VMap "(string \<times> gval) list"

type_synonym 'a gmap = "(string \<times> 'a) list"

abbreviation gget :: "'a gmap \<Rightarrow> string \<Rightarrow> 'a option" where
  "gget m k \<equiv> map_of m k"

abbreviation gput :: "string \<Rightarrow> 'a \<Rightarrow> 'a gmap \<Rightarrow> 'a gmap" where
  "gput k v m \<equiv> AList.update k v m"

text \<open>A well-formed Go map has each key once.\<close>

definition gmap_ok :: "'a gmap \<Rightarrow> bool" where
  "gmap_ok m = distinct (map fst m)"

text \<open>\<open>m[k]\<close> for a \<open>map[string]any\<close>: a missing key reads as nil.\<close>

definition gidx :: "gval gmap \<Rightarrow> string \<Rightarrow> gval" where
  "gidx m k = (case gget m k of None \<Rightarrow> VNil | Some v \<Rightarrow> v)"

lemma gget_gput [simp]: "gget (gput k v m) x = (if x = k then Some v else gget m x)"
  by (auto simp: AList.update_conv')

lemma dom_gput [simp]: "dom (gget (gput k v m)) = insert k (dom (gget m))"
  by (auto simp: dom_def)

lemma dom_if_upd [simp]: "dom (\<lambda>x. if x = k then Some v else f x) = insert k (dom f)"
  by (auto simp: dom_def)

lemma foldl_gput_gget: "gget (foldl (\<lambda>m (k, v). gput k v m) m0 kvs) = gget m0 ++ map_of (rev kvs)"
  by (induction kvs arbitrary: m0) (auto simp: fun_eq_iff map_add_def split: option.splits)

lemma map_of_rev_distinct: "gmap_ok m \<Longrightarrow> map_of (rev m) = map_of m"
  unfolding gmap_ok_def by (rule map_of_inject_set [THEN iffD2]) (simp_all add: rev_map [symmetric])

lemma gget_None_dom: "gget m k = None \<longleftrightarrow> k \<notin> dom (gget m)"
  by auto

lemma gmap_ok_gput: "gmap_ok m \<Longrightarrow> gmap_ok (gput k v m)"
  unfolding gmap_ok_def by (rule distinct_update)

lemma gget_perm:
  assumes "mset m = mset m'" and "gmap_ok m"
  shows "gget m = gget m'"
proof -
  have "mset (map fst m) = mset (map fst m')"
    using assms(1) by (metis mset_map)
  then have "distinct (map fst m')"
    using assms(2) by (metis gmap_ok_def mset_eq_imp_distinct_iff)
  then show ?thesis
    using assms by (metis gmap_ok_def map_of_inject_set set_mset_mset)
qed

text \<open>Induction over values follows the nesting of lists and maps.\<close>

fun vdepth :: "gval \<Rightarrow> nat" where
  "vdepth (VList vs) = Suc (fold max (map vdepth vs) 0)"
| "vdepth (VMap kvs) = Suc (fold max (map (\<lambda>kv. vdepth (snd kv)) kvs) 0)"
| "vdepth _ = 0"

section \<open>Integers\<close>

definition wrap64 :: "int \<Rightarrow> int" where
  "wrap64 n = (n + 2 ^ 63) mod 2 ^ 64 - 2 ^ 63"

definition in_int64 :: "int \<Rightarrow> bool" where
  "in_int64 n = (- (2 ^ 63) \<le> n \<and> n < 2 ^ 63)"

definition in_int32 :: "int \<Rightarrow> bool" where
  "in_int32 n = (- (2 ^ 31) \<le> n \<and> n < 2 ^ 31)"

lemma wrap64_in [simp]: "in_int64 n \<Longrightarrow> wrap64 n = n"
  by (simp add: wrap64_def in_int64_def)

lemma in_int64_wrap64: "in_int64 (wrap64 n)"
proof -
  have "(n + 2 ^ 63) mod 2 ^ 64 < 2 ^ 64" "0 \<le> (n + 2 ^ 63) mod (2 ^ 64 :: int)"
    by simp_all
  then show ?thesis by (simp add: wrap64_def in_int64_def)
qed

text \<open>Decimal output: \<open>strconv.Itoa\<close>, \<open>strconv.FormatInt(n, 10)\<close>.\<close>

definition digit_char :: "nat \<Rightarrow> char" where
  "digit_char d = char_of (48 + d)"

fun show_nat :: "nat \<Rightarrow> string" where
  "show_nat n = (if n < 10 then [digit_char n] else show_nat (n div 10) @ [digit_char (n mod 10)])"

declare show_nat.simps [simp del]

definition show_int :: "int \<Rightarrow> string" where
  "show_int n = (if n < 0 then CHR ''-'' # show_nat (nat (- n)) else show_nat (nat n))"

text \<open>Decimal input: \<open>strconv.ParseInt(s, 10, 64)\<close> and \<open>strconv.Atoi\<close>.\<close>

definition digit_val :: "char \<Rightarrow> nat" where
  "digit_val c = of_char c - 48"

definition dec_val :: "string \<Rightarrow> nat" where
  "dec_val s = foldl (\<lambda>n c. 10 * n + digit_val c) 0 s"

definition parse_digits :: "string \<Rightarrow> nat option" where
  "parse_digits s = (if s \<noteq> [] \<and> list_all is_digit s then Some (dec_val s) else None)"

definition parse_int64 :: "string \<Rightarrow> int option" where
  "parse_int64 s =
     (let (neg, ds) = (case s of
          c # cs \<Rightarrow> if c = CHR ''-'' then (True, cs) else if c = CHR ''+'' then (False, cs)
                     else (False, s)
        | [] \<Rightarrow> (False, []))
      in case parse_digits ds of
           None \<Rightarrow> None
         | Some n \<Rightarrow> let v = (if neg then - int n else int n)
                      in if in_int64 v then Some v else None)"

lemma of_char_digit: "d < 10 \<Longrightarrow> (of_char (digit_char d) :: nat) = 48 + d"
  by (simp add: digit_char_def)

lemma is_digit_digit_char: "d < 10 \<Longrightarrow> is_digit (digit_char d)"
  by (simp add: is_digit_def of_char_digit)

lemma digit_val_digit_char: "d < 10 \<Longrightarrow> digit_val (digit_char d) = d"
  by (simp add: digit_val_def of_char_digit)

lemma show_nat_nonempty: "show_nat n \<noteq> []"
  by (subst show_nat.simps) simp

lemma show_nat_digits: "list_all is_digit (show_nat n)"
proof (induction n rule: show_nat.induct)
  case (1 n)
  then show ?case by (subst show_nat.simps) (simp add: is_digit_digit_char)
qed

lemma dec_val_snoc: "dec_val (s @ [c]) = 10 * dec_val s + digit_val c"
  by (simp add: dec_val_def)

lemma dec_val_show_nat: "dec_val (show_nat n) = n"
proof (induction n rule: show_nat.induct)
  case (1 n)
  show ?case
  proof (cases "n < 10")
    case True
    then show ?thesis
      by (subst show_nat.simps) (simp add: dec_val_def digit_val_digit_char)
  next
    case False
    with 1 show ?thesis
      by (subst show_nat.simps) (simp add: dec_val_snoc digit_val_digit_char)
  qed
qed

lemma parse_digits_show_nat [simp]: "parse_digits (show_nat n) = Some n"
  by (simp add: parse_digits_def show_nat_nonempty show_nat_digits dec_val_show_nat)

lemma hd_show_nat: "show_nat n = c # cs \<Longrightarrow> is_digit c"
  using show_nat_digits [of n] by simp

lemma parse_show_int: "in_int64 n \<Longrightarrow> parse_int64 (show_int n) = Some n"
proof (cases "n < 0")
  case True
  moreover assume "in_int64 n"
  ultimately show ?thesis by (simp add: parse_int64_def show_int_def)
next
  case False
  moreover assume "in_int64 n"
  moreover obtain c cs where c: "show_nat (nat n) = c # cs"
    using show_nat_nonempty by (cases "show_nat (nat n)") auto
  moreover have "c \<noteq> CHR ''-''" "c \<noteq> CHR ''+''"
    using hd_show_nat [OF c] by (auto simp: is_digit_def)
  moreover have "parse_digits (c # cs) = Some (nat n)"
    using c by (metis parse_digits_show_nat)
  ultimately show ?thesis by (simp add: parse_int64_def show_int_def)
qed

section \<open>Floats\<close>

text \<open>
  A finite float is \<open>(-1)^s * mant * 2^ex\<close>. \<open>float_int\<close> is the integer a float stands for,
  when it stands for one in the range of \<open>int64\<close>: exactly the floats \<open>v\<close> with
  \<open>v == float64(int64(v))\<close> (the conversion of an out-of-range float is the amd64 one, which
  yields \<open>- 2^63\<close>).
\<close>

definition f64_neg :: "f64 \<Rightarrow> bool" where
  "f64_neg w = (2 ^ 63 \<le> unat w)"

definition f64_exp :: "f64 \<Rightarrow> nat" where
  "f64_exp w = (unat w div 2 ^ 52) mod 2 ^ 11"

definition f64_frac :: "f64 \<Rightarrow> nat" where
  "f64_frac w = unat w mod 2 ^ 52"

definition f64_finite :: "f64 \<Rightarrow> bool" where
  "f64_finite w = (f64_exp w < 2047)"

definition f64_parts :: "f64 \<Rightarrow> nat \<times> int" where
  "f64_parts w = (if f64_exp w = 0 then (f64_frac w, -1074)
                  else (f64_frac w + 2 ^ 52, int (f64_exp w) - 1075))"

definition float_int :: "f64 \<Rightarrow> int option" where
  "float_int w =
     (if \<not> f64_finite w then None
      else let (m, e) = f64_parts w;
               mag = (if 0 \<le> e then Some (int m * 2 ^ nat e)
                      else if m mod 2 ^ nat (- e) = 0 then Some (int m div 2 ^ nat (- e))
                      else None)
           in case mag of None \<Rightarrow> None
              | Some k \<Rightarrow> let v = (if f64_neg w then - k else k)
                           in if in_int64 v then Some v else None)"

lemma float_int_range: "float_int w = Some v \<Longrightarrow> in_int64 v"
  by (auto simp: float_int_def Let_def split: if_splits option.splits prod.splits)

section \<open>The rest of the standard library\<close>

text \<open>
  Number formatting, parsing of floats and times, the JSON decoder and the \<open>%#v\<close> format are passed to the
  definitions that use them, as one record of functions.
\<close>

record stdlib =
  sl_float_json :: "f64 \<Rightarrow> string"
  sl_float_g :: "f64 \<Rightarrow> string"
  sl_float_f :: "f64 \<Rightarrow> string"
  sl_parse_float :: "string \<Rightarrow> f64 option"
  sl_time_json :: "gtime \<Rightarrow> string"
  sl_time_v :: "gtime \<Rightarrow> string"
  sl_time_rfc3339 :: "gtime \<Rightarrow> string"
  sl_time_date :: "gtime \<Rightarrow> string"
  sl_parse_time :: "string \<Rightarrow> string \<Rightarrow> gtime option"
  sl_json_decode :: "string \<Rightarrow> gval option"
  sl_go_syntax :: "gval \<Rightarrow> string"

end
