(* ===== verification/Introspect.thy ===== *)
theory Introspect
  imports Gate_Values
begin

text \<open>
  The introspected catalog (\<open>introspect/introspect.go\<close>): the data types and the three loading
  passes. The result sets of the \<open>information_schema\<close> queries are the parameters
  (\<open>is_db\<close>); a query, scan or iteration error is the \<open>Inl\<close> of the result set.
\<close>

section \<open>Data\<close>

record column =
  col_name :: string
  col_ordinal :: nat
  col_data_type :: string
  col_column_type :: string
  col_nullable :: bool
  col_is_primary :: bool
  col_auto_inc :: bool
  col_has_default :: bool
  col_generated :: bool

record foreign_key =
  fk_name :: string
  fk_table :: string
  fk_columns :: "string list"
  fk_ref_table :: string
  fk_ref_columns :: "string list"

record table =
  tbl_name :: string
  tbl_columns :: "column list"
  tbl_colmap :: "string \<rightharpoonup> column"
  tbl_pk :: "string list"
  tbl_fks :: "foreign_key list"
  tbl_incoming :: "foreign_key list"

record catalog =
  cat_schema :: string
  cat_tables :: "table gmap"
  cat_order :: "string list"

definition has_column :: "table \<Rightarrow> string \<Rightarrow> bool" where
  "has_column t c = (tbl_colmap t c \<noteq> None)"

section \<open>Loading\<close>

text \<open>One row of \<open>information_schema.columns\<close> and of \<open>key_column_usage\<close>, as scanned.\<close>

record crow =
  cr_name :: string
  cr_data_type :: string
  cr_column_type :: string
  cr_nullable :: string
  cr_key :: string
  cr_extra :: string
  cr_has_default :: bool

record krow =
  kr_constraint :: string
  kr_table :: string
  kr_column :: string
  kr_ref_table :: string
  kr_ref_column :: string

record is_db =
  is_tables :: "string \<Rightarrow> string list res"
  is_columns :: "string \<Rightarrow> string \<Rightarrow> crow list res"
  is_keys :: "string \<Rightarrow> krow list res"
  is_column_names :: "string \<Rightarrow> string \<Rightarrow> string list res"

definition equal_fold :: "string \<Rightarrow> string \<Rightarrow> bool" where
  "equal_fold a b = (to_lower a = to_lower b)"

definition table_columns :: "is_db \<Rightarrow> string \<Rightarrow> string \<Rightarrow> string set res" where
  "table_columns db schema t =
     rbind (is_column_names db schema t) (\<lambda>names. Inr (set names))"

definition scan_column :: "nat \<Rightarrow> crow \<Rightarrow> column" where
  "scan_column n r =
     (let extra = to_lower (cr_extra r);
          auto = str_contains extra ''auto_increment'';
          gen = str_contains extra ''stored generated'' \<or> str_contains extra ''virtual generated''
      in \<lparr>col_name = cr_name r, col_ordinal = n,
          col_data_type = to_lower (cr_data_type r),
          col_column_type = to_lower (cr_column_type r),
          col_nullable = equal_fold (cr_nullable r) ''YES'',
          col_is_primary = equal_fold (cr_key r) ''PRI'',
          col_auto_inc = auto,
          col_has_default = cr_has_default r \<or> auto \<or> gen \<or> str_contains extra ''default_generated'',
          col_generated = gen\<rparr>)"

definition add_column :: "table \<Rightarrow> crow \<Rightarrow> table" where
  "add_column t r =
     (let c = scan_column (length (tbl_columns t)) r
      in t\<lparr>tbl_columns := tbl_columns t @ [c],
           tbl_colmap := (tbl_colmap t)(col_name c \<mapsto> c),
           tbl_pk := (if col_is_primary c then tbl_pk t @ [col_name c] else tbl_pk t)\<rparr>)"

definition load_columns :: "is_db \<Rightarrow> string \<Rightarrow> table \<Rightarrow> table res" where
  "load_columns db schema t =
     rbind (is_columns db schema (tbl_name t)) (\<lambda>rows. Inr (foldl add_column t rows))"

definition empty_table :: "string \<Rightarrow> table" where
  "empty_table n = \<lparr>tbl_name = n, tbl_columns = [], tbl_colmap = Map.empty, tbl_pk = [],
                    tbl_fks = [], tbl_incoming = []\<rparr>"

text \<open>The pass over the key rows groups them by table and constraint.\<close>

definition fk_key :: "string \<Rightarrow> string \<Rightarrow> string" where
  "fk_key table constraint = table @ [CHR 0x00] @ constraint"

definition add_key_row :: "table gmap \<Rightarrow> foreign_key gmap \<times> string list \<Rightarrow> krow
    \<Rightarrow> foreign_key gmap \<times> string list" where
  "add_key_row tables st r =
     (case st of (byc, order) \<Rightarrow>
        if gget tables (kr_table r) = None \<or> gget tables (kr_ref_table r) = None then (byc, order)
        else
          let key = fk_key (kr_table r) (kr_constraint r);
              (fk, order') =
                (case gget byc key of
                   Some fk \<Rightarrow> (fk, order)
                 | None \<Rightarrow> (\<lparr>fk_name = kr_constraint r, fk_table = kr_table r, fk_columns = [],
                             fk_ref_table = kr_ref_table r, fk_ref_columns = []\<rparr>, order @ [key]));
              fk' = fk\<lparr>fk_columns := fk_columns fk @ [kr_column r],
                       fk_ref_columns := fk_ref_columns fk @ [kr_ref_column r]\<rparr>
          in (gput key fk' byc, order'))"

definition upd_table :: "string \<Rightarrow> (table \<Rightarrow> table) \<Rightarrow> table gmap \<Rightarrow> table gmap" where
  "upd_table n f ts = (case gget ts n of None \<Rightarrow> ts | Some t \<Rightarrow> gput n (f t) ts)"

definition attach_fk :: "table gmap \<Rightarrow> foreign_key \<Rightarrow> table gmap" where
  "attach_fk ts fk =
     upd_table (fk_ref_table fk) (\<lambda>t. t\<lparr>tbl_incoming := tbl_incoming t @ [fk]\<rparr>)
       (upd_table (fk_table fk) (\<lambda>t. t\<lparr>tbl_fks := tbl_fks t @ [fk]\<rparr>) ts)"

definition load_foreign_keys :: "is_db \<Rightarrow> string \<Rightarrow> catalog \<Rightarrow> catalog res" where
  "load_foreign_keys db schema cat =
     rbind (is_keys db schema) (\<lambda>rows.
       let (byc, order) = foldl (add_key_row (cat_tables cat)) ([], []) rows;
           fks = List.map_filter (gget byc) (sort order)
       in Inr (cat\<lparr>cat_tables := foldl attach_fk (cat_tables cat) fks\<rparr>))"

definition table_exposed :: "string list \<Rightarrow> string list \<Rightarrow> string \<Rightarrow> bool" where
  "table_exposed incl excl n = (n \<notin> set excl \<and> (incl = [] \<or> n \<in> set incl))"

definition add_table :: "string list \<Rightarrow> string list \<Rightarrow> catalog \<Rightarrow> string \<Rightarrow> catalog" where
  "add_table incl excl cat n =
     (if table_exposed incl excl n
      then cat\<lparr>cat_tables := gput n (empty_table n) (cat_tables cat),
               cat_order := cat_order cat @ [n]\<rparr>
      else cat)"

fun load_all_columns :: "is_db \<Rightarrow> string \<Rightarrow> string list \<Rightarrow> table gmap \<Rightarrow> table gmap res" where
  "load_all_columns db schema [] ts = Inr ts"
| "load_all_columns db schema (n # ns) ts =
     rbind (load_columns db schema (case gget ts n of Some t \<Rightarrow> t | None \<Rightarrow> empty_table n))
       (\<lambda>t. load_all_columns db schema ns (gput n t ts))"

definition load :: "is_db \<Rightarrow> string \<Rightarrow> string list \<Rightarrow> string list \<Rightarrow> catalog res" where
  "load db schema incl excl =
     rbind (is_tables db schema) (\<lambda>names.
       let cat = foldl (add_table incl excl)
                   \<lparr>cat_schema = schema, cat_tables = [], cat_order = []\<rparr> names
       in if cat_tables cat = [] then Inl (Config_Err (No_Tables schema))
          else rbind (load_all_columns db schema (cat_order cat) (cat_tables cat)) (\<lambda>ts.
                 load_foreign_keys db schema (cat\<lparr>cat_tables := ts\<rparr>)))"

section \<open>Well-formed catalogs\<close>

text \<open>
  What the rest of the gateway relies on: the column map and the ordinals agree with the column
  list, the primary key names columns, and every foreign key joins two exposed tables.
\<close>

definition table_ok :: "table \<Rightarrow> bool" where
  "table_ok t \<longleftrightarrow>
     distinct (map col_name (tbl_columns t)) \<and>
     tbl_colmap t = map_of (map (\<lambda>c. (col_name c, c)) (tbl_columns t)) \<and>
     map col_ordinal (tbl_columns t) = [0..<length (tbl_columns t)] \<and>
     tbl_pk t = map col_name (filter col_is_primary (tbl_columns t))"

definition fk_ok :: "table gmap \<Rightarrow> foreign_key \<Rightarrow> bool" where
  "fk_ok ts fk \<longleftrightarrow> fk_columns fk \<noteq> [] \<and> length (fk_columns fk) = length (fk_ref_columns fk) \<and>
     fk_table fk \<in> fst ` set ts \<and> fk_ref_table fk \<in> fst ` set ts"

definition tables_ok :: "table gmap \<Rightarrow> bool" where
  "tables_ok ts \<longleftrightarrow>
     (\<forall>n t. gget ts n = Some t \<longrightarrow> tbl_name t = n \<and> table_ok t \<and>
        (\<forall>fk\<in>set (tbl_fks t). fk_table fk = n \<and> fk_ok ts fk) \<and>
        (\<forall>fk\<in>set (tbl_incoming t). fk_ref_table fk = n \<and> fk_ok ts fk))"

definition catalog_ok :: "catalog \<Rightarrow> bool" where
  "catalog_ok cat \<longleftrightarrow>
     map fst (cat_tables cat) = cat_order cat \<and> distinct (cat_order cat) \<and>
     tables_ok (cat_tables cat)"

section \<open>The loaded catalog is well-formed\<close>

definition cols_of :: "crow list \<Rightarrow> column list" where
  "cols_of rows = map (\<lambda>(i, r). scan_column i r) (enumerate 0 rows)"

lemma cols_of_snoc: "cols_of (rows @ [r]) = cols_of rows @ [scan_column (length rows) r]"
  by (simp add: cols_of_def enumerate_append_eq)

lemma length_cols_of [simp]: "length (cols_of rows) = length rows"
  by (simp add: cols_of_def)

lemma scan_column_sel [simp]:
  "col_name (scan_column i r) = cr_name r" "col_ordinal (scan_column i r) = i"
  by (simp_all add: scan_column_def Let_def)

lemma map_cols_of [simp]:
  "map col_name (cols_of rows) = map cr_name rows"
  "map col_ordinal (cols_of rows) = [0..<length rows]"
  by (induction rows rule: rev_induct) (simp_all add: cols_of_def[of "[]"] cols_of_snoc)

lemma map_add_single_left: "k \<notin> dom m \<Longrightarrow> [k \<mapsto> v] ++ m = m(k \<mapsto> v)"
  by (auto simp: map_add_def fun_eq_iff split: option.splits)

lemma dom_colmap: "dom (map_of (map (\<lambda>c. (col_name c, c)) cs)) = col_name ` set cs"
  by (simp add: dom_map_of_conv_image_fst image_image)

lemma col_names_cols_of: "col_name ` set (cols_of rows) = cr_name ` set rows"
  by (metis image_set map_cols_of(1))

lemma foldl_add_column:
  assumes "distinct (map cr_name rows)"
  shows "foldl add_column (empty_table n) rows =
    (empty_table n)\<lparr>tbl_columns := cols_of rows,
       tbl_colmap := map_of (map (\<lambda>c. (col_name c, c)) (cols_of rows)),
       tbl_pk := map col_name (filter col_is_primary (cols_of rows))\<rparr>"
  using assms
proof (induction rows rule: rev_induct)
  case Nil
  then show ?case by (simp add: empty_table_def cols_of_def)
next
  case (snoc r rows)
  then have "cr_name r \<notin> dom (map_of (map (\<lambda>c. (col_name c, c)) (cols_of rows)))"
    by (simp add: dom_colmap col_names_cols_of)
  with snoc show ?case
    by (simp add: add_column_def Let_def cols_of_snoc empty_table_def map_add_single_left fun_eq_iff)
qed

lemma table_ok_loaded:
  assumes "distinct (map cr_name rows)"
  shows "table_ok (foldl add_column (empty_table n) rows)"
  unfolding foldl_add_column [OF assms] using assms by (simp add: table_ok_def)

lemma gput_new: "k \<notin> fst ` set m \<Longrightarrow> gput k v m = m @ [(k, v)]"
  by (induction m) auto

lemma keys_gput_old: "k \<in> fst ` set m \<Longrightarrow> map fst (gput k v m) = map fst m"
  by (simp add: update_keys)

lemma gget_None_iff: "gget m k = None \<longleftrightarrow> k \<notin> fst ` set m"
  by (rule map_of_eq_None_iff)

lemma foldl_add_table:
  assumes "distinct names"
  shows "foldl (add_table incl excl) \<lparr>cat_schema = s, cat_tables = [], cat_order = []\<rparr> names =
    \<lparr>cat_schema = s,
     cat_tables = map (\<lambda>n. (n, empty_table n)) (filter (table_exposed incl excl) names),
     cat_order = filter (table_exposed incl excl) names\<rparr>"
  using assms
proof (induction names rule: rev_induct)
  case Nil
  then show ?case by simp
next
  case (snoc n names)
  then have "n \<notin> fst ` set (map (\<lambda>n. (n, empty_table n)) (filter (table_exposed incl excl) names))"
    by auto
  with snoc show ?case by (simp add: add_table_def gput_new)
qed

definition fresh_table :: "string \<Rightarrow> table \<Rightarrow> bool" where
  "fresh_table n t \<longleftrightarrow> tbl_name t = n \<and> table_ok t \<and> tbl_fks t = [] \<and> tbl_incoming t = []"

definition rows_distinct :: "is_db \<Rightarrow> string \<Rightarrow> bool" where
  "rows_distinct db s \<longleftrightarrow>
     (\<forall>names. is_tables db s = Inr names \<longrightarrow> distinct names) \<and>
     (\<forall>n rows. is_columns db s n = Inr rows \<longrightarrow> distinct (map cr_name rows))"

lemma load_columns_fresh:
  assumes "load_columns db s (empty_table n) = Inr t" and "rows_distinct db s"
  shows "fresh_table n t"
proof -
  from assms obtain rows where "t = foldl add_column (empty_table n) rows" "distinct (map cr_name rows)"
    by (auto simp: load_columns_def rows_distinct_def empty_table_def)
  then show ?thesis
    unfolding fresh_table_def using table_ok_loaded [of rows n]
    by (simp add: foldl_add_column) (simp add: empty_table_def)
qed

lemma load_all_columns_fresh:
  assumes "load_all_columns db s ns ts = Inr ts'" "rows_distinct db s" "distinct ns"
    and "\<forall>n\<in>set ns. gget ts n = Some (empty_table n)"
  shows "map fst ts' = map fst ts \<and>
     (\<forall>n. n \<notin> set ns \<longrightarrow> gget ts' n = gget ts n) \<and>
     (\<forall>n\<in>set ns. \<exists>t. gget ts' n = Some t \<and> fresh_table n t)"
  using assms
proof (induction ns arbitrary: ts)
  case Nil
  then show ?case by simp
next
  case (Cons n ns)
  from Cons.prems obtain t where t: "load_columns db s (empty_table n) = Inr t"
    and rest: "load_all_columns db s ns (gput n t ts) = Inr ts'"
    by auto
  have "n \<in> fst ` set ts"
    using Cons.prems(4) by (metis gget_None_iff list.set_intros(1) option.distinct(1))
  moreover have "\<forall>m\<in>set ns. gget (gput n t ts) m = Some (empty_table m)"
    using Cons.prems by auto
  ultimately show ?case
    using Cons.IH [OF rest] Cons.prems load_columns_fresh [OF t]
    by (auto simp: keys_gput_old)
qed

lemma add_key_row_ok:
  assumes "\<forall>k fk. gget (fst st) k = Some fk \<longrightarrow> fk_ok ts fk"
  shows "\<forall>k fk. gget (fst (add_key_row ts st r)) k = Some fk \<longrightarrow> fk_ok ts fk"
proof -
  obtain byc order where st: "st = (byc, order)" by (cases st)
  show ?thesis
    using assms unfolding st add_key_row_def
    by (auto simp: Let_def fk_ok_def gget_None_iff split: option.splits if_splits prod.splits)
qed

lemma foldl_add_key_row_ok:
  assumes "\<forall>k fk. gget (fst st) k = Some fk \<longrightarrow> fk_ok ts fk"
  shows "\<forall>k fk. gget (fst (foldl (add_key_row ts) st rows)) k = Some fk \<longrightarrow> fk_ok ts fk"
  using assms
proof (induction rows arbitrary: st)
  case (Cons r rows)
  show ?case
    using Cons.IH [OF add_key_row_ok [OF Cons.prems, of r]] by simp
qed simp

lemma gget_upd_table: "gget (upd_table n f ts) k = (if k = n then map_option f (gget ts n) else gget ts k)"
  by (auto simp: upd_table_def split: option.splits)

lemma keys_upd_table [simp]: "map fst (upd_table n f ts) = map fst ts"
  by (auto simp: upd_table_def gget_None_iff keys_gput_old split: option.splits)
     (metis gget_None_iff keys_gput_old option.distinct(1))

lemma keys_attach_fk [simp]: "map fst (attach_fk ts fk) = map fst ts"
  by (simp add: attach_fk_def)

lemma fk_ok_keys: "map fst ts = map fst ts' \<Longrightarrow> fk_ok ts fk = fk_ok ts' fk"
  unfolding fk_ok_def by (metis image_set)

lemma attach_fk_ok:
  assumes "tables_ok ts" "fk_ok ts fk"
  shows "tables_ok (attach_fk ts fk)"
proof -
  have eq: "fk_ok (attach_fk ts fk) = fk_ok ts"
    using fk_ok_keys keys_attach_fk by blast
  show ?thesis
    using assms unfolding tables_ok_def eq
    by (auto simp: attach_fk_def gget_upd_table table_ok_def split: if_splits)
qed

lemma foldl_attach_fk_ok:
  assumes "tables_ok ts" "\<forall>fk\<in>set fks. fk_ok ts fk"
  shows "tables_ok (foldl attach_fk ts fks) \<and> map fst (foldl attach_fk ts fks) = map fst ts"
  using assms
proof (induction fks arbitrary: ts)
  case (Cons fk fks)
  have "\<forall>f\<in>set fks. fk_ok (attach_fk ts fk) f"
    using Cons.prems(2) fk_ok_keys [OF keys_attach_fk] by auto
  with Cons show ?case by (simp add: attach_fk_ok)
qed simp

lemma tables_ok_fresh:
  assumes "\<forall>n t. gget ts n = Some t \<longrightarrow> fresh_table n t"
  shows "tables_ok ts"
  using assms by (auto simp: tables_ok_def fresh_table_def)

lemma load_foreign_keys_ok:
  assumes "load_foreign_keys db s cat = Inr cat'" "tables_ok (cat_tables cat)"
  shows "tables_ok (cat_tables cat') \<and> map fst (cat_tables cat') = map fst (cat_tables cat) \<and>
    cat_order cat' = cat_order cat"
proof -
  from assms(1) obtain rows where rows: "is_keys db s = Inr rows"
    unfolding load_foreign_keys_def by auto
  obtain byc order where bo: "foldl (add_key_row (cat_tables cat)) ([], []) rows = (byc, order)"
    by fastforce
  have cat': "cat' = cat\<lparr>cat_tables :=
      foldl attach_fk (cat_tables cat) (List.map_filter (gget byc) (sort order))\<rparr>"
    using assms(1) by (simp add: load_foreign_keys_def rows bo)
  have "\<forall>k fk. gget byc k = Some fk \<longrightarrow> fk_ok (cat_tables cat) fk"
    using foldl_add_key_row_ok [of "([], [])" "cat_tables cat" rows] by (simp add: bo)
  then have "\<forall>fk\<in>set (List.map_filter (gget byc) (sort order)). fk_ok (cat_tables cat) fk"
    by (auto simp: List.map_filter_def)
  with foldl_attach_fk_ok [OF assms(2)] show ?thesis by (simp add: cat')
qed

text \<open>C12: a catalog that \<open>Load\<close> returns is well-formed: it holds exactly exposed tables (the
  include list, minus the exclude list), each once; each table's column map, ordinals and primary
  key agree with its columns; and every outgoing or incoming foreign key of a table is filed under
  that table and joins two exposed tables with as many columns on both sides. The hypothesis is
  that \<open>information_schema\<close> lists a table, and a column of a table, once.\<close>

theorem load_catalog_ok:
  assumes "rows_distinct db s" "load db s incl excl = Inr cat"
  shows "catalog_ok cat \<and> (\<forall>n. n \<in> set (cat_order cat) \<longrightarrow> table_exposed incl excl n)"
proof -
  from assms(2) obtain names where names: "is_tables db s = Inr names"
    by (auto simp: load_def)
  then have dn: "distinct names" using assms(1) by (simp add: rows_distinct_def)
  define E where "E = filter (table_exposed incl excl) names"
  define ts0 where "ts0 = map (\<lambda>n. (n, empty_table n)) E"
  from assms(2) obtain ts where ts: "load_all_columns db s E ts0 = Inr ts"
    and fin: "load_foreign_keys db s \<lparr>cat_schema = s, cat_tables = ts, cat_order = E\<rparr> = Inr cat"
    by (auto simp: load_def names foldl_add_table [OF dn] E_def ts0_def Let_def split: if_splits)
  have init: "\<forall>n\<in>set E. gget ts0 n = Some (empty_table n)"
    by (simp add: ts0_def map_of_map_restrict)
  have keys0: "map fst ts0 = E" by (simp add: ts0_def comp_def)
  have dE: "distinct E" using dn by (simp add: E_def)
  note lf = load_all_columns_fresh [OF ts assms(1) dE init]
  have fresh: "fresh_table n t" if "gget ts n = Some t" for n t
  proof -
    have "n \<in> set E"
      using that lf keys0 by (metis gget_None_iff image_set option.distinct(1))
    with lf that show ?thesis by force
  qed
  with load_foreign_keys_ok [OF fin] lf keys0 dE show ?thesis
    by (auto simp: catalog_ok_def tables_ok_fresh E_def)
qed

definition demo_is_db :: is_db where
  "demo_is_db = \<lparr>is_tables = (\<lambda>_. Inr [''posts'', ''users'']),
     is_columns = (\<lambda>_ t. Inr
       [\<lparr>cr_name = ''id'', cr_data_type = ''bigint'', cr_column_type = ''bigint'',
         cr_nullable = ''NO'', cr_key = ''PRI'', cr_extra = ''auto_increment'',
         cr_has_default = False\<rparr>,
        \<lparr>cr_name = ''author_id'', cr_data_type = ''bigint'', cr_column_type = ''bigint'',
         cr_nullable = ''YES'', cr_key = [], cr_extra = [], cr_has_default = False\<rparr>]),
     is_keys = (\<lambda>_. Inr
       [\<lparr>kr_constraint = ''fk_1'', kr_table = ''posts'', kr_column = ''author_id'',
         kr_ref_table = ''users'', kr_ref_column = ''id''\<rparr>]),
     is_column_names = (\<lambda>_ _. Inr [''id'', ''author_id''])\<rparr>"

lemma demo_rows_distinct: "rows_distinct demo_is_db s"
  by (auto simp: rows_distinct_def demo_is_db_def)

lemma demo_load_ok: "is_ok (load demo_is_db ''app'' [] [''logs''])"
  by code_simp

theorem load_catalog_ok_witness:
  "\<exists>cat. load demo_is_db ''app'' [] [''logs''] = Inr cat \<and> catalog_ok cat"
proof -
  from demo_load_ok obtain cat where "load demo_is_db ''app'' [] [''logs''] = Inr cat"
    unfolding is_ok_iff by blast
  with load_catalog_ok [OF demo_rows_distinct this] show ?thesis by blast
qed

end
