(* ===== verification/Naming.thy ===== *)
theory Naming
  imports Introspect
begin

text \<open>
  GraphQL names (\<open>schema/naming.go\<close>, \<open>checkNameCollisions\<close> and \<open>relFieldName\<close> of
  \<open>schema/builder.go\<close>): sanitising SQL identifiers, the start-up check that no two generated
  names clash, and the choice of a free name for a relationship field.
\<close>

section \<open>UTF-8 runes\<close>

text \<open>
  How Go's regular expressions and \<open>range\<close> loops cut a byte string into runes; a byte that
  starts no valid encoding is a rune of its own.
\<close>

definition rune_width :: "string \<Rightarrow> nat" where
  "rune_width s =
     (case map of_char s :: nat list of
        b0 # b1 # bs \<Rightarrow>
          if b0 < 194 \<or> 244 < b0 then 1
          else if b0 \<le> 223 then (if 128 \<le> b1 \<and> b1 \<le> 191 then 2 else 1)
          else
            let lo = (if b0 = 224 then 160 else if b0 = 240 then 144 else 128);
                hi = (if b0 = 237 then 159 else if b0 = 244 then 143 else 191)
            in if \<not> (lo \<le> b1 \<and> b1 \<le> hi) then 1
               else (case bs of
                       [] \<Rightarrow> 1
                     | b2 # bs' \<Rightarrow>
                         if \<not> (128 \<le> b2 \<and> b2 \<le> 191) then 1
                         else if b0 \<le> 239 then 3
                         else (case bs' of [] \<Rightarrow> 1
                               | b3 # _ \<Rightarrow> if 128 \<le> b3 \<and> b3 \<le> 191 then 4 else 1))
      | _ \<Rightarrow> 1)"

lemma rune_width_pos: "0 < rune_width s"
  by (auto simp: rune_width_def Let_def split: list.splits)

function runes :: "string \<Rightarrow> string list" where
  "runes [] = []"
| "runes (c # cs) = take (rune_width (c # cs)) (c # cs) # runes (drop (rune_width (c # cs)) (c # cs))"
  by pat_completeness auto
termination
  by (relation "measure length") (auto simp: rune_width_pos)

lemma concat_runes: "concat (runes s) = s"
  by (induction s rule: runes.induct) simp_all

lemma runes_nonempty: "r \<in> set (runes s) \<Longrightarrow> r \<noteq> []"
proof (induction s rule: runes.induct)
  case (2 c cs)
  then show ?case
    using rune_width_pos [of "c # cs"] by auto
qed simp

lemma word_ascii: "is_word c \<Longrightarrow> (of_char c :: nat) < 128"
  by (auto simp: is_word_def is_lower_def is_upper_def is_digit_def)

lemma rune_width_ascii: "(of_char c :: nat) < 128 \<Longrightarrow> rune_width (c # cs) = 1"
  by (cases cs) (auto simp: rune_width_def)

lemma runes_ascii: "list_all (\<lambda>c. (of_char c :: nat) < 128) s \<Longrightarrow> runes s = map (\<lambda>c. [c]) s"
  by (induction s) (simp_all add: rune_width_ascii)

section \<open>Sanitised names\<close>

definition clean_rune :: "string \<Rightarrow> string" where
  "clean_rune r = (case r of [c] \<Rightarrow> if is_word c then [c] else ''_'' | _ \<Rightarrow> ''_'')"

fun strip_underscores :: "string \<Rightarrow> string" where
  "strip_underscores (c # d # cs) =
     (if c = CHR ''_'' \<and> d = CHR ''_'' then strip_underscores (d # cs) else c # d # cs)"
| "strip_underscores s = s"

definition graphql_name :: "string \<Rightarrow> string" where
  "graphql_name raw =
     (let n = concat (map clean_rune (runes raw));
          n = (if n = [] then ''_'' else n);
          n = (if is_digit (hd n) then CHR ''_'' # n else n)
      in strip_underscores n)"

text \<open>A GraphQL name that is not reserved: \<open>[_A-Za-z][_0-9A-Za-z]*\<close>, without leading \<open>__\<close>.\<close>

definition valid_name :: "string \<Rightarrow> bool" where
  "valid_name n \<longleftrightarrow> n \<noteq> [] \<and> list_all is_word n \<and> \<not> is_digit (hd n) \<and> \<not> has_prefix n ''__''"

lemma clean_rune_word: "list_all is_word (clean_rune r)"
  by (auto simp: clean_rune_def is_word_def split: list.splits)

lemma clean_runes_word: "list_all is_word (concat (map clean_rune rs))"
  using clean_rune_word by (auto simp: list_all_iff)

lemma underscore_char: "is_word CHR ''_''" "\<not> is_digit CHR ''_''"
  by (simp_all add: is_word_def is_digit_def)

lemma strip_underscores_valid:
  assumes "n \<noteq> []" "list_all is_word n" "\<not> is_digit (hd n)"
  shows "valid_name (strip_underscores n)"
  using assms by (induction n rule: strip_underscores.induct)
    (auto simp: valid_name_def has_prefix_def underscore_char)

lemma strip_underscores_id: "valid_name n \<Longrightarrow> strip_underscores n = n"
  by (cases n rule: strip_underscores.cases) (auto simp: valid_name_def has_prefix_def)

text \<open>Every SQL identifier, whatever bytes it holds, is sanitised into a valid GraphQL name
  that is not in the reserved \<open>__\<close> namespace.\<close>

lemma graphql_name_valid: "valid_name (graphql_name raw)"
proof -
  define n where "n = concat (map clean_rune (runes raw))"
  define n1 where "n1 = (if n = [] then ''_'' else n)"
  define n2 where "n2 = (if is_digit (hd n1) then CHR ''_'' # n1 else n1)"
  have "list_all is_word n1" "n1 \<noteq> []"
    using clean_runes_word [of "runes raw"] by (auto simp: n1_def n_def underscore_char)
  then have "n2 \<noteq> []" "list_all is_word n2" "\<not> is_digit (hd n2)"
    by (auto simp: n2_def underscore_char)
  then show ?thesis
    unfolding graphql_name_def n_def [symmetric] Let_def n1_def [symmetric] n2_def [symmetric]
    by (rule strip_underscores_valid)
qed

lemma clean_map_word: "list_all is_word n \<Longrightarrow> concat (map clean_rune (map (\<lambda>c. [c]) n)) = n"
  by (induction n) (auto simp: clean_rune_def)

text \<open>A name that is already valid is kept as it is, so sanitising twice changes nothing and
  ordinary table and column names appear unchanged in the API.\<close>

lemma graphql_name_id: "valid_name n \<Longrightarrow> graphql_name n = n"
proof -
  assume v: "valid_name n"
  then have "list_all (\<lambda>c. (of_char c :: nat) < 128) n"
    by (auto simp: valid_name_def list_all_iff word_ascii)
  then have "concat (map clean_rune (runes n)) = n"
    using v by (simp add: runes_ascii clean_map_word valid_name_def del: map_map)
  with v show ?thesis
    by (simp add: graphql_name_def strip_underscores_id) (simp add: valid_name_def)
qed

section \<open>Name collisions\<close>

definition scalar_type_names :: "string list" where
  "scalar_type_names = [''String'', ''Int'', ''Float'', ''Boolean'', ''ID'', ''BigInt'', ''Decimal'',
     ''DateTime'', ''Date'', ''JSON'', ''Bytes'', ''Vector'']"

definition cat_columns :: "catalog \<Rightarrow> string \<Rightarrow> column list" where
  "cat_columns cat tn = (case gget (cat_tables cat) tn of Some t \<Rightarrow> tbl_columns t | None \<Rightarrow> [])"

fun check_columns :: "string \<Rightarrow> string gmap \<Rightarrow> column list \<Rightarrow> unit res" where
  "check_columns tn seen [] = Inr ()"
| "check_columns tn seen (c # cs) =
     (let cn = graphql_name (col_name c)
      in case gget seen cn of
           Some other \<Rightarrow> Inl (Gen_Err (Dup_Column_Name tn other (col_name c) cn))
         | None \<Rightarrow> check_columns tn (gput cn (col_name c) seen) cs)"

fun check_tables :: "catalog \<Rightarrow> string gmap \<Rightarrow> string list \<Rightarrow> unit res" where
  "check_tables cat seen [] = Inr ()"
| "check_tables cat seen (tn # tns) =
     (let n = graphql_name tn
      in case gget seen n of
           Some other \<Rightarrow> Inl (Gen_Err (Dup_Table_Name other tn n))
         | None \<Rightarrow> rbind (check_columns tn [] (cat_columns cat tn)) (\<lambda>_.
                    check_tables cat (gput n tn seen) tns))"

definition builtin_types :: "string gmap" where
  "builtin_types =
     [(''Query'', ''(built-in)''), (''Mutation'', ''(built-in)''), (''order_by'', ''(built-in)''),
      (''mutation_response'', ''(built-in)''), (''page_info'', ''(built-in)''),
      (''vector_metric'', ''(built-in)'')] @
     concat (map (\<lambda>s. [(s, ''(built-in scalar)''), (s @ ''_comparison_exp'', ''(built-in)'')])
       scalar_type_names)"

definition claim :: "string \<Rightarrow> string \<Rightarrow> string gmap \<Rightarrow> string \<Rightarrow> string gmap res" where
  "claim kind owner ns name =
     (case gget ns name of
        Some other \<Rightarrow> Inl (Gen_Err (Name_Collision kind name owner other))
      | None \<Rightarrow> Inr (gput name (''table '' @ owner) ns))"

fun claim_all :: "string \<Rightarrow> string \<Rightarrow> string gmap \<Rightarrow> string list \<Rightarrow> string gmap res" where
  "claim_all kind owner ns [] = Inr ns"
| "claim_all kind owner ns (n # ns') = rbind (claim kind owner ns n) (\<lambda>m. claim_all kind owner m ns')"

definition query_names :: "catalog \<Rightarrow> string \<Rightarrow> string list" where
  "query_names cat tn =
     (let n = graphql_name tn
      in [n @ ''_by_pk'', n @ ''_connection'', n @ ''_aggregate''] @
         map (\<lambda>c. n @ ''_nearest_by_'' @ graphql_name (col_name c))
           (filter (\<lambda>c. col_data_type c = ''vector'') (cat_columns cat tn)))"

definition mutation_names :: "string \<Rightarrow> string list" where
  "mutation_names tn =
     (let n = graphql_name tn
      in [''insert_'' @ n, ''insert_'' @ n @ ''_one'', ''update_'' @ n, ''update_'' @ n @ ''_by_pk'',
          ''delete_'' @ n, ''delete_'' @ n @ ''_by_pk''])"

definition type_names :: "string \<Rightarrow> string list" where
  "type_names tn =
     (let n = graphql_name tn
      in n # map (\<lambda>s. n @ s)
        [''_bool_exp'', ''_order_by'', ''_insert_input'', ''_set_input'', ''_connection'',
         ''_aggregate_result'', ''_sum_fields'', ''_avg_fields'', ''_min_fields'', ''_max_fields'',
         ''_neighbor''])"

fun claim_tables :: "catalog \<Rightarrow> string gmap \<times> string gmap \<times> string gmap \<Rightarrow> string list \<Rightarrow> unit res" where
  "claim_tables cat st [] = Inr ()"
| "claim_tables cat (qs, ms, ts) (tn # tns) =
     rbind (claim_all ''query field'' tn qs (query_names cat tn)) (\<lambda>qs'.
     rbind (claim_all ''mutation field'' tn ms (mutation_names tn)) (\<lambda>ms'.
     rbind (claim_all ''type'' tn ts (type_names tn)) (\<lambda>ts'.
       claim_tables cat (qs', ms', ts') tns)))"

definition check_name_collisions :: "catalog \<Rightarrow> unit res" where
  "check_name_collisions cat =
     rbind (check_tables cat [] (cat_order cat)) (\<lambda>_.
       claim_tables cat ([(''_role'', ''(built-in)'')], [], builtin_types) (cat_order cat))"

text \<open>What the check promises: one namespace each for query fields, mutation fields and types, and
  no name in any of them twice.\<close>

definition names_unique :: "catalog \<Rightarrow> bool" where
  "names_unique cat \<longleftrightarrow>
     distinct (map graphql_name (cat_order cat)) \<and>
     (\<forall>tn\<in>set (cat_order cat). distinct (map (\<lambda>c. graphql_name (col_name c)) (cat_columns cat tn))) \<and>
     distinct (''_role'' # concat (map (query_names cat) (cat_order cat))) \<and>
     distinct (concat (map mutation_names (cat_order cat))) \<and>
     distinct (map fst builtin_types @ concat (map type_names (cat_order cat)))"


lemma check_columns_iff:
  "check_columns tn seen cs = Inr () \<longleftrightarrow>
     distinct (map (\<lambda>c. graphql_name (col_name c)) cs) \<and>
     dom (gget seen) \<inter> set (map (\<lambda>c. graphql_name (col_name c)) cs) = {}"
proof (induction cs arbitrary: seen)
  case (Cons c cs)
  show ?case
  proof (cases "gget seen (graphql_name (col_name c))")
    case None
    then show ?thesis using Cons by (auto simp: Let_def domIff)
  next
    case (Some other)
    then show ?thesis by (auto simp: Let_def)
  qed
qed simp

lemma check_tables_iff:
  "check_tables cat seen tns = Inr () \<longleftrightarrow>
     distinct (map graphql_name tns) \<and> dom (gget seen) \<inter> set (map graphql_name tns) = {} \<and>
     (\<forall>tn\<in>set tns. distinct (map (\<lambda>c. graphql_name (col_name c)) (cat_columns cat tn)))"
proof (induction tns arbitrary: seen)
  case (Cons tn tns)
  show ?case
  proof (cases "gget seen (graphql_name tn)")
    case None
    then show ?thesis using Cons by (auto simp: Let_def domIff check_columns_iff)
  next
    case (Some other)
    then show ?thesis by (auto simp: Let_def)
  qed
qed simp

lemma claim_all_iff:
  "claim_all kind owner ns names = Inr ns' \<longleftrightarrow>
     distinct names \<and> dom (gget ns) \<inter> set names = {} \<and>
     ns' = foldl (\<lambda>m n. gput n (''table '' @ owner) m) ns names"
proof (induction names arbitrary: ns)
  case (Cons n names)
  show ?case
  proof (cases "gget ns n")
    case None
    then show ?thesis using Cons by (auto simp: claim_def domIff)
  next
    case (Some other)
    then show ?thesis by (auto simp: claim_def)
  qed
qed auto

lemma dom_foldl_gput_const: "dom (gget (foldl (\<lambda>m n. gput n v m) ns names)) = dom (gget ns) \<union> set names"
  by (induction names arbitrary: ns) auto

lemma claim_tables_iff:
  "claim_tables cat (qs, ms, ts) tns = Inr () \<longleftrightarrow>
     (distinct (concat (map (query_names cat) tns)) \<and>
      dom (gget qs) \<inter> set (concat (map (query_names cat) tns)) = {}) \<and>
     (distinct (concat (map mutation_names tns)) \<and>
      dom (gget ms) \<inter> set (concat (map mutation_names tns)) = {}) \<and>
     (distinct (concat (map type_names tns)) \<and>
      dom (gget ts) \<inter> set (concat (map type_names tns)) = {})"
proof (induction tns arbitrary: qs ms ts)
  case (Cons tn tns)
  show ?case
    by (simp add: claim_all_iff Cons.IH dom_foldl_gput_const del: dom_eq_empty_conv)
      (auto simp del: dom_eq_empty_conv)
qed simp

lemma builtin_types_distinct: "distinct (map fst builtin_types)"
  by code_simp

lemma dom_gget: "dom (gget m) = set (map fst m)"
  by (simp add: dom_map_of_conv_image_fst)

text \<open>C13: the start-up check accepts a catalog exactly when every name it will generate is free:
  table and column names stay distinct after sanitising, and the derived query fields, mutation
  fields and type names are distinct among themselves and from the built-in ones. It neither lets
  a clash through nor rejects a clash-free catalog.\<close>

theorem check_name_collisions_iff:
  "check_name_collisions cat = Inr () \<longleftrightarrow> names_unique cat"
  by (auto simp: check_name_collisions_def check_tables_iff claim_tables_iff names_unique_def
      builtin_types_distinct dom_gget)

section \<open>Relationship field names\<close>

text \<open>
  \<open>relFieldName\<close>: the loop over numeric suffixes has no bound of its own, so it is a partial
  function; \<open>taken\<close> lists the keys of the field map.
\<close>

definition suffix_name :: "string \<Rightarrow> nat \<Rightarrow> string" where
  "suffix_name cand i = (if i > 0 then cand @ ''_'' @ show_nat i else cand)"

partial_function (option) free_suffix :: "string list \<Rightarrow> string \<Rightarrow> nat \<Rightarrow> string option" where
  "free_suffix taken cand i =
     (if suffix_name cand i \<notin> set taken then Some (suffix_name cand i)
      else free_suffix taken cand (Suc i))"

definition rel_field_name :: "string list \<Rightarrow> string \<Rightarrow> foreign_key \<Rightarrow> string option" where
  "rel_field_name taken cand fk =
     (if cand \<notin> set taken then Some cand
      else free_suffix taken (cand @ ''_by_'' @ join ''_'' (map graphql_name (fk_columns fk))) 0)"

lemma show_nat_inj: "show_nat a = show_nat b \<Longrightarrow> a = b"
  by (metis dec_val_show_nat)

lemma suffix_name_inj: "inj (suffix_name cand)"
  by (auto simp: inj_def suffix_name_def dest: show_nat_inj split: if_splits)

lemma free_suffix_finds:
  assumes "suffix_name cand (i + k) \<notin> set taken"
  shows "\<exists>j\<ge>i. free_suffix taken cand i = Some (suffix_name cand j) \<and>
    suffix_name cand j \<notin> set taken \<and> (\<forall>l. i \<le> l \<and> l < j \<longrightarrow> suffix_name cand l \<in> set taken)"
  using assms
proof (induction k arbitrary: i)
  case 0
  then show ?case by (subst free_suffix.simps) auto
next
  case (Suc k)
  show ?case
  proof (cases "suffix_name cand i \<notin> set taken")
    case True
    then show ?thesis by (subst free_suffix.simps) auto
  next
    case False
    from Suc.IH [of "Suc i"] Suc.prems obtain j where
      j: "j \<ge> Suc i" "free_suffix taken cand (Suc i) = Some (suffix_name cand j)"
      "suffix_name cand j \<notin> set taken"
      "\<forall>l. Suc i \<le> l \<and> l < j \<longrightarrow> suffix_name cand l \<in> set taken"
      by auto
    with False show ?thesis
      by (subst free_suffix.simps)
        (rule exI [of _ j], auto simp: le_Suc_eq, metis le_antisym not_less_eq_eq)
  qed
qed

lemma some_suffix_free: "\<exists>k\<le>length taken. suffix_name cand k \<notin> set taken"
proof (rule ccontr)
  assume "\<not> ?thesis"
  then have "suffix_name cand ` {..length taken} \<subseteq> set taken" by auto
  then have "card (suffix_name cand ` {..length taken}) \<le> length taken"
    by (meson card_length card_mono finite_set le_trans)
  moreover have "card (suffix_name cand ` {..length taken}) = Suc (length taken)"
    by (simp add: card_image inj_on_subset [OF suffix_name_inj])
  ultimately show False by simp
qed

text \<open>The search for a relationship field name always ends, however many
  fields there are already, and the name it returns is free and starts with the candidate: adding the
  relationship never overwrites a column field or another relationship.\<close>

lemma rel_field_name_free:
  "\<exists>name. rel_field_name taken cand fk = Some name \<and> name \<notin> set taken \<and> has_prefix name cand"
proof (cases "cand \<in> set taken")
  case False
  then show ?thesis by (auto simp: rel_field_name_def has_prefix_iff)
next
  case True
  define c where "c = cand @ ''_by_'' @ join ''_'' (map graphql_name (fk_columns fk))"
  obtain k where "suffix_name c (0 + k) \<notin> set taken"
    using some_suffix_free [of taken c] by auto
  then obtain j where "free_suffix taken c 0 = Some (suffix_name c j)" "suffix_name c j \<notin> set taken"
    using free_suffix_finds by blast
  moreover have "has_prefix (suffix_name c j) cand"
    by (auto simp: suffix_name_def c_def has_prefix_iff)
  ultimately show ?thesis
    using True by (auto simp: rel_field_name_def c_def)
qed

end
