(* ===== verification/Config.thy ===== *)
theory Config
  imports Gate_Values
begin

text \<open>
  The configuration (\<open>config/config.go\<close>): the records the YAML file fills, the expansion of
  environment references, the database overrides, the defaults and the validation. The YAML decoder
  is a parameter; the environment is a partial map.
\<close>

section \<open>Data\<close>

record op_perm =
  op_allow :: bool
  op_columns :: "string list"
  op_filter :: string
  op_presets :: "string gmap"

text \<open>An operation permission in the YAML: a scalar node must decode to a boolean, which allows or denies
  everything; any other node decodes field by field.\<close>

definition unmarshal_op_perm :: "bool \<Rightarrow> bool res \<Rightarrow> op_perm res \<Rightarrow> op_perm res" where
  "unmarshal_op_perm is_scalar flag mapping =
     (if is_scalar
      then (case flag of
              Inl e \<Rightarrow> Inl (Bad_Op_Perm e)
            | Inr b \<Rightarrow> Inr \<lparr>op_allow = b, op_columns = [], op_filter = [], op_presets = []\<rparr>)
      else mapping)"

record table_perm =
  tp_select :: "op_perm option"
  tp_insert :: "op_perm option"
  tp_update :: "op_perm option"
  tp_delete :: "op_perm option"

text \<open>A role maps table names, or the wildcard \<open>*\<close>, to permissions. A role or an entry that is
  null in the YAML is a nil pointer, here \<open>None\<close>.\<close>

record role_cfg =
  rc_tables :: "table_perm option gmap"

record database =
  db_host :: string
  db_port :: int
  db_user :: string
  db_password :: string
  db_schema :: string
  db_params :: string
  db_max_open :: int
  db_max_idle :: int
  db_query_timeout :: int
  db_startup_wait :: int

record cors =
  cors_enabled :: bool
  cors_origins :: "string list"

record server =
  srv_host :: string
  srv_port :: int
  srv_path :: string
  srv_graphiql :: bool
  srv_debug :: bool
  srv_cors :: cors
  srv_max_depth :: int
  srv_hot_reload :: bool
  srv_reload_interval :: int

record role_lookup =
  rl_table :: string
  rl_schema :: string
  rl_id_claim :: string
  rl_id_column :: string
  rl_role_column :: string
  rl_username :: "string option"
  rl_password :: "string option"
  rl_cache_seconds :: int

record jwt =
  jwt_algorithm :: string
  jwt_secret :: string
  jwt_key_file :: string
  jwt_issuer :: string
  jwt_audience :: string
  jwt_leeway :: int
  jwt_role_claim :: string
  jwt_role_lookup :: role_lookup
  jwt_anonymous :: string

record schema_gen =
  sg_include :: "string list"
  sg_exclude :: "string list"
  sg_default_page :: int
  sg_max_page :: int

record table_hooks =
  th_before_insert :: "string list"
  th_after_insert :: "string list"
  th_before_update :: "string list"
  th_after_update :: "string list"
  th_before_delete :: "string list"
  th_after_delete :: "string list"

record config =
  cfg_version :: int
  cfg_database :: database
  cfg_server :: server
  cfg_jwt :: jwt
  cfg_schema_gen :: schema_gen
  cfg_roles :: "role_cfg option gmap"
  cfg_hooks :: "table_hooks option gmap"

definition lookup_enabled :: "role_lookup \<Rightarrow> bool" where
  "lookup_enabled r = (rl_table r \<noteq> [])"

definition dsn :: "database \<Rightarrow> string" where
  "dsn d =
     (let base = ''parseTime=true&charset=utf8mb4&clientFoundRows=true'';
          params = (if db_params d \<noteq> [] then base @ ''&'' @ db_params d else base)
      in db_user d @ '':'' @ db_password d @ ''@tcp('' @ db_host d @ '':'' @ show_int (db_port d) @
         '')/'' @ db_schema d @ ''?'' @ params)"

section \<open>Environment references\<close>

text \<open>The pattern \<open>${NAME}\<close>: the name and the text after the closing brace.\<close>

definition env_start :: "char \<Rightarrow> bool" where
  "env_start c = (is_word c \<and> \<not> is_digit c)"

definition env_ref :: "string \<Rightarrow> (string \<times> string) option" where
  "env_ref s =
     (case cut_prefix ''${'' s of
        None \<Rightarrow> None
      | Some r \<Rightarrow>
          let name = takeWhile is_word r
          in case dropWhile is_word r of
               c # rest \<Rightarrow> if c = CHR ''}'' \<and> name \<noteq> [] \<and> env_start (hd name)
                           then Some (name, rest) else None
             | [] \<Rightarrow> None)"

lemma env_ref_split: "env_ref s = Some (name, rest) \<Longrightarrow> s = ''${'' @ name @ ''}'' @ rest"
proof -
  assume e: "env_ref s = Some (name, rest)"
  then obtain r where r: "cut_prefix ''${'' s = Some r"
    by (auto simp: env_ref_def split: option.splits)
  with e have "name = takeWhile is_word r" "dropWhile is_word r = CHR ''}'' # rest"
    by (auto simp: env_ref_def Let_def split: list.splits if_splits)
  then have "r = name @ CHR ''}'' # rest"
    by (metis takeWhile_dropWhile_id)
  with r show ?thesis by (simp add: cut_prefix_iff)
qed

definition env_show :: "string \<Rightarrow> string" where
  "env_show n = ''${'' @ n @ ''}''"

definition env_name :: "string \<Rightarrow> bool" where
  "env_name n \<longleftrightarrow> n \<noteq> [] \<and> list_all is_word n \<and> \<not> is_digit (hd n)"

interpretation env: ref_syntax env_ref env_show env_name
proof
  show "s = env_show n @ rest" if "env_ref s = Some (n, rest)" for s n rest
    using env_ref_split [OF that] by (simp add: env_show_def)
  show "env_name n" if "env_ref s = Some (n, rest)" for s n rest
    using that by (auto simp: env_ref_def env_name_def env_start_def Let_def list_all_iff
        dest: set_takeWhileD split: option.splits list.splits if_splits)
  show "env_show n \<noteq> []" for n by (simp add: env_show_def)
qed

abbreviation env_scan :: "string \<Rightarrow> (char + string) list" where
  "env_scan \<equiv> scan_refs env_ref"

fun env_missing :: "(string \<rightharpoonup> string) \<Rightarrow> (char + string) list \<Rightarrow> string list" where
  "env_missing env [] = []"
| "env_missing env (Inl c # ts) = env_missing env ts"
| "env_missing env (Inr n # ts) =
     (case env n of None \<Rightarrow> n # env_missing env ts | Some v \<Rightarrow> env_missing env ts)"

fun env_subst :: "(string \<rightharpoonup> string) \<Rightarrow> (char + string) list \<Rightarrow> string" where
  "env_subst env [] = []"
| "env_subst env (Inl c # ts) = c # env_subst env ts"
| "env_subst env (Inr n # ts) =
     (case env n of None \<Rightarrow> env_show n | Some v \<Rightarrow> v) @ env_subst env ts"

definition expand_env :: "(string \<rightharpoonup> string) \<Rightarrow> string \<Rightarrow> string res" where
  "expand_env env raw =
     (let toks = env_scan raw
      in if env_missing env toks \<noteq> [] then Inl (Config_Err (Env_Missing (env_missing env toks)))
         else Inr (env_subst env toks))"

section \<open>Overrides, defaults, validation\<close>

definition env_str :: "(string \<rightharpoonup> string) \<Rightarrow> string \<Rightarrow> string" where
  "env_str env k = (case env k of Some v \<Rightarrow> v | None \<Rightarrow> [])"

definition override_database :: "(string \<rightharpoonup> string) \<Rightarrow> database \<Rightarrow> database" where
  "override_database env d =
     (let h = env_str env ''GQLGATE_DB_HOST''; p = env_str env ''GQLGATE_DB_PORT'';
          u = env_str env ''GQLGATE_DB_USER''; s = env_str env ''GQLGATE_DB_SCHEMA'';
          d = (if h \<noteq> [] then d\<lparr>db_host := h\<rparr> else d);
          d = (if p \<noteq> [] then (case parse_int64 p of
                 Some n \<Rightarrow> if n > 0 then d\<lparr>db_port := n\<rparr> else d | None \<Rightarrow> d) else d);
          d = (if u \<noteq> [] then d\<lparr>db_user := u\<rparr> else d);
          d = (case env ''GQLGATE_DB_PASSWORD'' of Some v \<Rightarrow> d\<lparr>db_password := v\<rparr> | None \<Rightarrow> d)
      in (if s \<noteq> [] then d\<lparr>db_schema := s\<rparr> else d))"

definition or_str :: "string \<Rightarrow> string \<Rightarrow> string" where
  "or_str s dflt = (if s = [] then dflt else s)"

definition or_int :: "int \<Rightarrow> int \<Rightarrow> int" where
  "or_int n dflt = (if n = 0 then dflt else n)"

definition default_database :: "database \<Rightarrow> database" where
  "default_database d = d\<lparr>
     db_host := or_str (db_host d) ''127.0.0.1'', db_port := or_int (db_port d) 4000,
     db_user := or_str (db_user d) ''root'', db_max_open := or_int (db_max_open d) 10,
     db_max_idle := or_int (db_max_idle d) 5, db_query_timeout := or_int (db_query_timeout d) 30\<rparr>"

definition default_server :: "server \<Rightarrow> server" where
  "default_server s = s\<lparr>
     srv_host := or_str (srv_host s) ''127.0.0.1'', srv_port := or_int (srv_port s) 8080,
     srv_path := or_str (srv_path s) ''/graphql'', srv_max_depth := or_int (srv_max_depth s) 15,
     srv_reload_interval := or_int (srv_reload_interval s) 2\<rparr>"

definition default_lookup :: "string \<Rightarrow> role_lookup \<Rightarrow> role_lookup" where
  "default_lookup schema r =
     (if lookup_enabled r then r\<lparr>
        rl_schema := or_str (rl_schema r) schema, rl_id_claim := or_str (rl_id_claim r) ''sub'',
        rl_id_column := or_str (rl_id_column r) ''id'',
        rl_role_column := or_str (rl_role_column r) ''role'',
        rl_username := (case rl_username r of None \<Rightarrow> Some ''username'' | Some u \<Rightarrow> Some u),
        rl_password := (case rl_password r of None \<Rightarrow> Some ''password'' | Some u \<Rightarrow> Some u)\<rparr>
      else r)"

definition apply_defaults :: "config \<Rightarrow> config" where
  "apply_defaults c = c\<lparr>
     cfg_database := default_database (cfg_database c),
     cfg_server := default_server (cfg_server c),
     cfg_jwt := (cfg_jwt c)\<lparr>
       jwt_role_claim := or_str (jwt_role_claim (cfg_jwt c)) ''role'',
       jwt_role_lookup :=
         default_lookup (db_schema (cfg_database c)) (jwt_role_lookup (cfg_jwt c))\<rparr>,
     cfg_schema_gen := (cfg_schema_gen c)\<lparr>
       sg_default_page := or_int (sg_default_page (cfg_schema_gen c)) 25,
       sg_max_page := or_int (sg_max_page (cfg_schema_gen c)) 200\<rparr>\<rparr>"

definition valid_algorithms :: "string list" where
  "valid_algorithms = [''HS256'', ''HS384'', ''HS512'', ''RS256'', ''RS384'', ''RS512'',
     ''ES256'', ''ES384'', ''ES512'']"

definition validate :: "config \<Rightarrow> unit res" where
  "validate c =
     (let j = cfg_jwt c; sg = cfg_schema_gen c in
      if db_schema (cfg_database c) = [] then Inl (Config_Err Schema_Required)
      else if jwt_algorithm j \<notin> set valid_algorithms
      then Inl (Config_Err (Bad_Algorithm (jwt_algorithm j)))
      else if has_prefix (jwt_algorithm j) ''HS'' \<and> jwt_secret j = []
      then Inl (Config_Err (Secret_Required (jwt_algorithm j)))
      else if has_prefix (jwt_algorithm j) ''HS'' \<and> length (jwt_secret j) < 32
      then Inl (Config_Err (Secret_Too_Short (jwt_algorithm j) (int (length (jwt_secret j)))))
      else if \<not> has_prefix (jwt_algorithm j) ''HS'' \<and> jwt_key_file j = []
      then Inl (Config_Err (Key_File_Required (jwt_algorithm j)))
      else if cfg_roles c = [] then Inl (Config_Err No_Roles)
      else if jwt_anonymous j \<noteq> [] \<and> gget (cfg_roles c) (jwt_anonymous j) = None
      then Inl (Config_Err (Unknown_Anonymous_Role (jwt_anonymous j)))
      else if sg_default_page sg > sg_max_page sg
      then Inl (Config_Err (Page_Size_Order (sg_default_page sg) (sg_max_page sg)))
      else if lookup_enabled (jwt_role_lookup j) \<and> rl_cache_seconds (jwt_role_lookup j) < 0
      then Inl (Config_Err Bad_Cache_Seconds)
      else Inr ())"

definition apply_env_overrides :: "(string \<rightharpoonup> string) \<Rightarrow> config \<Rightarrow> config" where
  "apply_env_overrides env c = c\<lparr>cfg_database := override_database env (cfg_database c)\<rparr>"

definition parse_config :: "(string \<Rightarrow> config res) \<Rightarrow> (string \<rightharpoonup> string) \<Rightarrow> string \<Rightarrow> config res" where
  "parse_config yaml env raw =
     rbind (expand_env env raw) (\<lambda>expanded.
     rbind (yaml expanded) (\<lambda>cfg.
       let cfg = apply_defaults (apply_env_overrides env cfg)
       in rbind (validate cfg) (\<lambda>_. Inr cfg)))"

section \<open>What a loaded configuration satisfies\<close>

definition jwt_ok :: "jwt \<Rightarrow> bool" where
  "jwt_ok j \<longleftrightarrow>
     jwt_algorithm j \<in> set valid_algorithms \<and>
     (if has_prefix (jwt_algorithm j) ''HS'' then 32 \<le> length (jwt_secret j) else jwt_key_file j \<noteq> []) \<and>
     jwt_role_claim j \<noteq> [] \<and>
     (lookup_enabled (jwt_role_lookup j) \<longrightarrow>
        rl_schema (jwt_role_lookup j) \<noteq> [] \<and> rl_id_claim (jwt_role_lookup j) \<noteq> [] \<and>
        rl_id_column (jwt_role_lookup j) \<noteq> [] \<and> rl_role_column (jwt_role_lookup j) \<noteq> [] \<and>
        rl_username (jwt_role_lookup j) \<noteq> None \<and> rl_password (jwt_role_lookup j) \<noteq> None \<and>
        0 \<le> rl_cache_seconds (jwt_role_lookup j))"

definition config_ok :: "config \<Rightarrow> bool" where
  "config_ok c \<longleftrightarrow>
     db_schema (cfg_database c) \<noteq> [] \<and> db_host (cfg_database c) \<noteq> [] \<and>
     db_port (cfg_database c) \<noteq> 0 \<and> db_query_timeout (cfg_database c) \<noteq> 0 \<and>
     srv_path (cfg_server c) \<noteq> [] \<and> srv_max_depth (cfg_server c) \<noteq> 0 \<and>
     jwt_ok (cfg_jwt c) \<and>
     cfg_roles c \<noteq> [] \<and>
     (jwt_anonymous (cfg_jwt c) \<noteq> [] \<longrightarrow> jwt_anonymous (cfg_jwt c) \<in> dom (gget (cfg_roles c))) \<and>
     sg_max_page (cfg_schema_gen c) \<noteq> 0 \<and> sg_default_page (cfg_schema_gen c) \<noteq> 0 \<and>
     sg_default_page (cfg_schema_gen c) \<le> sg_max_page (cfg_schema_gen c)"

lemma or_str_idem [simp]: "or_str (or_str s a) a = or_str s a"
  by (simp add: or_str_def)

lemma or_int_idem [simp]: "or_int (or_int n a) a = or_int n a"
  by (simp add: or_int_def)

lemma or_str_nonempty [simp]: "or_str s a = [] \<longleftrightarrow> s = [] \<and> a = []"
  by (simp add: or_str_def)

lemma or_int_nonzero [simp]: "or_int n a = 0 \<longleftrightarrow> n = 0 \<and> a = 0"
  by (simp add: or_int_def)

lemma lookup_enabled_default [simp]:
  "lookup_enabled (default_lookup s r) = lookup_enabled r"
  by (simp add: default_lookup_def lookup_enabled_def)

lemma default_lookup_idem: "default_lookup s (default_lookup s r) = default_lookup s r"
  by (cases "lookup_enabled r")
    (auto simp: default_lookup_def lookup_enabled_def split: option.splits)

text \<open>Filling in the defaults a second time changes nothing; a value the file sets survives.\<close>

lemma apply_defaults_idem: "apply_defaults (apply_defaults c) = apply_defaults c"
  by (simp add: apply_defaults_def default_database_def default_server_def default_lookup_idem)

lemma validate_ok_iff:
  "validate c = Inr () \<longleftrightarrow>
     db_schema (cfg_database c) \<noteq> [] \<and>
     jwt_algorithm (cfg_jwt c) \<in> set valid_algorithms \<and>
     (if has_prefix (jwt_algorithm (cfg_jwt c)) ''HS'' then 32 \<le> length (jwt_secret (cfg_jwt c))
      else jwt_key_file (cfg_jwt c) \<noteq> []) \<and>
     cfg_roles c \<noteq> [] \<and>
     (jwt_anonymous (cfg_jwt c) \<noteq> [] \<longrightarrow> jwt_anonymous (cfg_jwt c) \<in> dom (gget (cfg_roles c))) \<and>
     sg_default_page (cfg_schema_gen c) \<le> sg_max_page (cfg_schema_gen c) \<and>
     (lookup_enabled (jwt_role_lookup (cfg_jwt c)) \<longrightarrow>
        0 \<le> rl_cache_seconds (jwt_role_lookup (cfg_jwt c)))"
  by (auto simp: validate_def Let_def domIff split: if_splits)

lemma validate_defaults_ok:
  assumes "validate (apply_defaults c) = Inr ()"
  shows "config_ok (apply_defaults c)"
proof -
  define d where "d = apply_defaults c"
  have v: "validate d = Inr ()" using assms by (simp add: d_def)
  have filled: "db_host (cfg_database d) \<noteq> []" "db_port (cfg_database d) \<noteq> 0"
    "db_query_timeout (cfg_database d) \<noteq> 0" "srv_path (cfg_server d) \<noteq> []"
    "srv_max_depth (cfg_server d) \<noteq> 0" "jwt_role_claim (cfg_jwt d) \<noteq> []"
    "sg_max_page (cfg_schema_gen d) \<noteq> 0" "sg_default_page (cfg_schema_gen d) \<noteq> 0"
    by (simp_all add: d_def apply_defaults_def default_database_def default_server_def)
  have schema: "db_schema (cfg_database d) = db_schema (cfg_database c)"
    by (simp add: d_def apply_defaults_def default_database_def)
  have lookup: "jwt_role_lookup (cfg_jwt d) =
      default_lookup (db_schema (cfg_database c)) (jwt_role_lookup (cfg_jwt c))"
    by (simp add: d_def apply_defaults_def)
  have "jwt_ok (cfg_jwt d)"
    using v filled schema unfolding validate_ok_iff jwt_ok_def lookup
    by (auto simp: default_lookup_def lookup_enabled_def split: option.splits)
  with v filled show ?thesis
    unfolding d_def [symmetric] validate_ok_iff config_ok_def by blast
qed

text \<open>C18: whatever the YAML document and the environment hold, a configuration that parses is
  usable: an exposed schema is named; the algorithm is one of the nine and comes with a secret of at
  least 32 bytes or a key file; the anonymous role, when one is set, is a configured role; every
  identity-table column is named; and the page sizes are in order.\<close>

theorem parse_config_ok:
  "parse_config yaml env raw = Inr c \<Longrightarrow> config_ok c"
  by (auto simp: parse_config_def Let_def validate_defaults_ok)

definition demo_config :: config where
  "demo_config = \<lparr>cfg_version = 1,
     cfg_database = \<lparr>db_host = [], db_port = 0, db_user = [], db_password = ''pw'',
       db_schema = ''app'', db_params = [], db_max_open = 0, db_max_idle = 0,
       db_query_timeout = 0, db_startup_wait = 0\<rparr>,
     cfg_server = \<lparr>srv_host = [], srv_port = 0, srv_path = [], srv_graphiql = False,
       srv_debug = False, srv_cors = \<lparr>cors_enabled = False, cors_origins = []\<rparr>,
       srv_max_depth = 0, srv_hot_reload = False, srv_reload_interval = 0\<rparr>,
     cfg_jwt = \<lparr>jwt_algorithm = ''HS256'', jwt_secret = replicate 32 (CHR ''s''),
       jwt_key_file = [], jwt_issuer = [], jwt_audience = [], jwt_leeway = 30,
       jwt_role_claim = [],
       jwt_role_lookup = \<lparr>rl_table = [], rl_schema = [], rl_id_claim = [], rl_id_column = [],
         rl_role_column = [], rl_username = None, rl_password = None, rl_cache_seconds = 0\<rparr>,
       jwt_anonymous = ''guest''\<rparr>,
     cfg_schema_gen = \<lparr>sg_include = [], sg_exclude = [], sg_default_page = 0, sg_max_page = 0\<rparr>,
     cfg_roles = [(''guest'', Some \<lparr>rc_tables = []\<rparr>)],
     cfg_hooks = []\<rparr>"

theorem parse_config_ok_witness:
  "\<exists>c. parse_config (\<lambda>_. Inr demo_config) (\<lambda>_. None) ''x'' = Inr c \<and> config_ok c"
proof -
  have "is_ok (parse_config (\<lambda>_. Inr demo_config) (\<lambda>_. None) ''x'')"
    by code_simp
  then obtain c where "parse_config (\<lambda>_. Inr demo_config) (\<lambda>_. None) ''x'' = Inr c"
    unfolding is_ok_iff by blast
  with parse_config_ok [OF this] show ?thesis by blast
qed

lemma env_missing_iff:
  "n \<in> set (env_missing env toks) \<longleftrightarrow> Inr n \<in> set toks \<and> env n = None"
  by (induction env toks rule: env_missing.induct) (auto split: option.splits)

text \<open>Cutting the file into literal bytes and \<open>${NAME}\<close> references loses nothing, and the
  expansion fails exactly when some reference has no value, naming all of them; so an unset
  variable can never turn into an empty secret.\<close>

lemma expand_env_total:
  "print_refs env_show (env_scan raw) = raw \<and>
   (case expand_env env raw of
      Inr out \<Rightarrow> out = env_subst env (env_scan raw) \<and>
        (\<nexists>n. Inr n \<in> set (env_scan raw) \<and> env n = None)
    | Inl e \<Rightarrow> \<exists>ns. e = Config_Err (Env_Missing ns) \<and> ns \<noteq> [] \<and>
        set ns = {n. Inr n \<in> set (env_scan raw) \<and> env n = None})"
proof -
  have "set (env_missing env (env_scan raw)) = {n. Inr n \<in> set (env_scan raw) \<and> env n = None}"
    by (auto simp: env_missing_iff)
  then show ?thesis
    by (cases "env_missing env (env_scan raw) = []")
      (auto simp: expand_env_def Let_def env.print_scan)
qed

end
