(* ===== verification/Sql_Lex.thy ===== *)
theory Sql_Lex
  imports Gate_Base
begin

text \<open>
  The lexical specification of generated SQL: how MySQL and TiDB read the text of a statement, as
  far as it matters for which \<open>?\<close> are placeholders, where parentheses balance and which
  \<open>AND\<close> joins the top-level conjuncts of a condition. A fragment is \<^emph>\<open>closed\<close> with \<open>n\<close>
  holes when reading it starts and ends in code, at parenthesis depth 0 and never below, with
  \<open>n\<close> placeholders on the way. Comments, statement separators and backslash escapes never occur
  in a closed fragment.
\<close>

section \<open>Reading SQL text\<close>

datatype lex_mode = LCode | LMinus | LSlash | LTick | LQuote | LDouble

type_synonym lex_state = "lex_mode \<times> nat \<times> nat"

definition code_step :: "nat \<Rightarrow> nat \<Rightarrow> char \<Rightarrow> lex_state option" where
  "code_step d h c =
     (if c = CHR ''`'' then Some (LTick, d, h)
      else if c = CHR 0x27 then Some (LQuote, d, h)
      else if c = CHR 0x22 then Some (LDouble, d, h)
      else if c = CHR ''('' then Some (LCode, Suc d, h)
      else if c = CHR '')'' then (case d of 0 \<Rightarrow> None | Suc d' \<Rightarrow> Some (LCode, d', h))
      else if c = CHR ''?'' then Some (LCode, d, Suc h)
      else if c = CHR ''-'' then Some (LMinus, d, h)
      else if c = CHR ''/'' then Some (LSlash, d, h)
      else if c = CHR ''#'' \<or> c = CHR '';'' \<or> c = CHR 0x5C then None
      else Some (LCode, d, h))"

fun lex_step :: "lex_state \<Rightarrow> char \<Rightarrow> lex_state option" where
  "lex_step (LCode, d, h) c = code_step d h c"
| "lex_step (LMinus, d, h) c = (if c = CHR ''-'' then None else code_step d h c)"
| "lex_step (LSlash, d, h) c = (if c = CHR ''*'' then None else code_step d h c)"
| "lex_step (LTick, d, h) c = Some (if c = CHR ''`'' then LCode else LTick, d, h)"
| "lex_step (LQuote, d, h) c =
     (if c = CHR 0x5C then None else Some (if c = CHR 0x27 then LCode else LQuote, d, h))"
| "lex_step (LDouble, d, h) c =
     (if c = CHR 0x5C then None else Some (if c = CHR 0x22 then LCode else LDouble, d, h))"

fun lex_run :: "lex_state \<Rightarrow> string \<Rightarrow> lex_state option" where
  "lex_run st [] = Some st"
| "lex_run st (c # cs) = (case lex_step st c of None \<Rightarrow> None | Some st' \<Rightarrow> lex_run st' cs)"

definition closed :: "string \<Rightarrow> nat \<Rightarrow> bool" where
  "closed s n \<longleftrightarrow> lex_run (LCode, 0, 0) s = Some (LCode, 0, n)"

lemma lex_append: "lex_run st (s @ t) = (case lex_run st s of None \<Rightarrow> None | Some st' \<Rightarrow> lex_run st' t)"
  by (induction s arbitrary: st) (auto split: option.splits)

text \<open>Reading does not depend on the depth and the holes so far.\<close>

lemma lex_step_shift:
  "lex_step (m, d, h) c = Some (m', d', h') \<Longrightarrow>
     lex_step (m, d + i, h + j) c = Some (m', d' + i, h' + j)"
  by (cases m) (auto simp: code_step_def split: if_splits nat.splits)

lemma lex_shift:
  "lex_run (m, d, h) s = Some (m', d', h') \<Longrightarrow>
     lex_run (m, d + i, h + j) s = Some (m', d' + i, h' + j)"
proof (induction s arbitrary: m d h)
  case (Cons c s)
  from Cons.prems obtain m1 d1 h1 where
    1: "lex_step (m, d, h) c = Some (m1, d1, h1)" "lex_run (m1, d1, h1) s = Some (m', d', h')"
    by (auto split: option.splits)
  from lex_step_shift [OF 1(1)] Cons.IH [OF 1(2)] show ?case by simp
qed simp

lemma lex_closed: "closed s n \<Longrightarrow> lex_run (LCode, d, h) s = Some (LCode, d, h + n)"
  using lex_shift [of LCode 0 0 s LCode 0 n d h] by (simp add: closed_def add.commute)

lemma closed_Nil [lex_intros]: "closed [] 0"
  by (simp add: closed_def)

lemma closed_append: "closed s n \<Longrightarrow> closed t m \<Longrightarrow> closed (s @ t) (n + m)"
  using lex_closed [of t m 0 n] by (simp add: closed_def lex_append)

lemma closed_append0 [lex_intros]: "closed s 0 \<Longrightarrow> closed t m \<Longrightarrow> closed (s @ t) m"
  using closed_append [of s 0 t m] by simp

lemma closed_paren: "closed s n \<Longrightarrow> closed (''('' @ s @ '')'') n"
  by (simp add: closed_def code_step_def lex_append lex_closed [unfolded closed_def])

lemma closed_unique: "closed s n \<Longrightarrow> closed s m \<Longrightarrow> n = m"
  by (simp add: closed_def)

lemma closed_join:
  "closed sep 0 \<Longrightarrow> list_all2 closed ss ns \<Longrightarrow> closed (join sep ss) (sum_list ns)"
proof (induction sep ss arbitrary: ns rule: join.induct)
  case (3 sep x y ys)
  then obtain n ns' where ns: "ns = n # ns'" "closed x n" "list_all2 closed (y # ys) ns'"
    by (auto simp: list_all2_Cons1)
  with "3.IH" "3.prems"(1) have "closed (join sep (y # ys)) (sum_list ns')" by blast
  with ns "3.prems"(1) show ?case
    by (simp add: closed_append closed_append0)
qed (auto simp: list_all2_Cons1 closed_Nil)

lemma closed_join0: "closed sep 0 \<Longrightarrow> \<forall>s\<in>set ss. closed s 0 \<Longrightarrow> closed (join sep ss) 0"
proof -
  assume "closed sep 0" "\<forall>s\<in>set ss. closed s 0"
  then have "closed (join sep ss) (sum_list (replicate (length ss) 0))"
    by (intro closed_join) (simp_all add: list_all2_conv_all_nth)
  then show ?thesis by (simp add: sum_list_replicate)
qed

lemma closed_seps [lex_intros]:
  "closed '', '' 0" "closed '' AND '' 0" "closed '' OR '' 0" "closed ''.'' 0" "closed '' = ?'' 1"
  by (simp_all add: closed_def code_step_def)

text \<open>A list of placeholders.\<close>

lemma closed_qmarks: "closed (join '', '' (replicate n ''?'')) n"
proof -
  have "closed (join '', '' (replicate n ''?'')) (sum_list (replicate n 1))"
    by (intro closed_join) (simp_all add: list_all2_conv_all_nth closed_def code_step_def)
  then show ?thesis by (simp add: sum_list_replicate)
qed

section \<open>Top-level conjuncts\<close>

function conj_split :: "lex_state \<Rightarrow> string \<Rightarrow> string \<Rightarrow> string list" where
  "conj_split st acc s =
     (if fst st = LCode \<and> fst (snd st) = 0 \<and> has_prefix s '' AND '' then
        acc # conj_split st [] (drop 5 s)
      else
        (case s of
           [] \<Rightarrow> [acc]
         | c # cs \<Rightarrow>
             (case lex_step st c of
                None \<Rightarrow> [acc @ s]
              | Some st' \<Rightarrow> conj_split st' (acc @ [c]) cs)))"
  by pat_completeness auto
termination
  by (relation "measure (\<lambda>(st, acc, s). length s)") (auto simp: has_prefix_iff)

declare conj_split.simps [simp del]

definition conjuncts :: "string \<Rightarrow> string list" where
  "conjuncts s = conj_split (LCode, 0, 0) [] s"

lemma conj_split_inside:
  "lex_run (m, d, h) s = Some (m', d', h') \<Longrightarrow>
     conj_split (m, Suc d, h) acc (s @ t) = conj_split (m', Suc d', h') (acc @ s) t"
proof (induction s arbitrary: m d h acc)
  case (Cons c s)
  from Cons.prems obtain m1 d1 h1 where
    1: "lex_step (m, d, h) c = Some (m1, d1, h1)" "lex_run (m1, d1, h1) s = Some (m', d', h')"
    by (auto split: option.splits)
  have "lex_step (m, Suc d, h) c = Some (m1, Suc d1, h1)"
    using lex_step_shift [OF 1(1), of 1 0] by simp
  then have "conj_split (m, Suc d, h) acc ((c # s) @ t) =
      conj_split (m1, Suc d1, h1) (acc @ [c]) (s @ t)"
    by (subst conj_split.simps) simp
  with Cons.IH [OF 1(2)] show ?case by simp
qed simp

lemma conj_split_paren:
  assumes "closed s n"
  shows "conj_split (LCode, 0, h) acc ((''('' @ s @ '')'') @ t) =
    conj_split (LCode, 0, h + n) (acc @ ''('' @ s @ '')'') t"
proof -
  have "conj_split (LCode, 0, h) acc ((''('' @ s @ '')'') @ t) =
      conj_split (LCode, 1, h) (acc @ ''('') (s @ '')'' @ t)"
    by (subst conj_split.simps) (simp add: has_prefix_def code_step_def)
  also have "\<dots> = conj_split (LCode, 1, h + n) (acc @ ''('' @ s) ('')'' @ t)"
    using conj_split_inside [OF lex_closed [OF assms, of 0 h]] by simp
  also have "\<dots> = conj_split (LCode, 0, h + n) (acc @ ''('' @ s @ '')'') t"
    by (subst conj_split.simps) (simp add: code_step_def)
  finally show ?thesis .
qed

lemma conj_split_join:
  assumes "ss \<noteq> []" "\<forall>s\<in>set ss. \<exists>n. closed s n"
  shows "conj_split (LCode, 0, h) [] (join '' AND '' (map (\<lambda>s. ''('' @ s @ '')'') ss)) =
    map (\<lambda>s. ''('' @ s @ '')'') ss"
  using assms
proof (induction ss arbitrary: h)
  case (Cons s ss)
  then obtain n where n: "closed s n" by auto
  show ?case
  proof (cases ss)
    case Nil
    then show ?thesis
      using conj_split_paren [OF n, of h "[]" "[]"] by (simp add: conj_split.simps has_prefix_def)
  next
    case (Cons s' ss')
    then have "conj_split (LCode, 0, h) [] (join '' AND '' (map (\<lambda>s. ''('' @ s @ '')'') (s # ss))) =
        conj_split (LCode, 0, h) [] ((''('' @ s @ '')'') @ '' AND '' @
          join '' AND '' (map (\<lambda>s. ''('' @ s @ '')'') ss))"
      by simp
    also have "\<dots> = (''('' @ s @ '')'') # conj_split (LCode, 0, h + n) []
          (join '' AND '' (map (\<lambda>s. ''('' @ s @ '')'') ss))"
      unfolding conj_split_paren [OF n] by (subst conj_split.simps) (simp add: has_prefix_def)
    finally show ?thesis using Cons.IH Cons.prems \<open>ss = s' # ss'\<close> by simp
  qed
qed simp

lemma conjuncts_join:
  "ss \<noteq> [] \<Longrightarrow> \<forall>s\<in>set ss. \<exists>n. closed s n \<Longrightarrow>
     conjuncts (join '' AND '' (map (\<lambda>s. ''('' @ s @ '')'') ss)) = map (\<lambda>s. ''('' @ s @ '')'') ss"
  unfolding conjuncts_def by (rule conj_split_join)

section \<open>The identifiers of a fragment\<close>

text \<open>The backtick-quoted identifiers of a text, outside string literals, with doubled backticks
  undone.\<close>

fun scan_ids :: "lex_mode \<Rightarrow> string \<Rightarrow> string \<Rightarrow> string list" where
  "scan_ids LTick acc (c # d # cs) =
     (if c = CHR ''`''
      then if d = CHR ''`'' then scan_ids LTick (acc @ [c]) cs else acc # scan_ids LCode [] (d # cs)
      else scan_ids LTick (acc @ [c]) (d # cs))"
| "scan_ids LTick acc [c] = (if c = CHR ''`'' then [acc] else [])"
| "scan_ids LQuote acc (c # cs) = scan_ids (if c = CHR 0x27 then LCode else LQuote) acc cs"
| "scan_ids m acc (c # cs) =
     scan_ids (if c = CHR ''`'' then LTick else if c = CHR 0x27 then LQuote else LCode) [] cs"
| "scan_ids m acc [] = []"

definition idents :: "string \<Rightarrow> string list" where
  "idents s = scan_ids LCode [] s"

text \<open>\<open>reads s ids\<close>: \<open>s\<close> contributes \<open>ids\<close> wherever it stands, unless a backtick follows.\<close>

definition reads :: "string \<Rightarrow> string list \<Rightarrow> bool" where
  "reads s ids \<longleftrightarrow> (\<forall>t. (t = [] \<or> hd t \<noteq> CHR ''`'') \<longrightarrow> idents (s @ t) = ids @ idents t)"

lemma reads_idents: "reads s ids \<Longrightarrow> idents s = ids"
  unfolding reads_def using spec [of _ "[]"] by (force simp: idents_def)

lemma reads_Nil [intro]: "reads [] []"
  by (simp add: reads_def)

lemma reads_Cons: "c \<noteq> CHR ''`'' \<Longrightarrow> c \<noteq> CHR 0x27 \<Longrightarrow> reads s ids \<Longrightarrow> reads (c # s) ids"
  by (simp add: reads_def idents_def)

lemma reads_append: "reads s ids \<Longrightarrow> reads t ids' \<Longrightarrow> t = [] \<or> hd t \<noteq> CHR ''`'' \<Longrightarrow> reads (s @ t) (ids @ ids')"
  unfolding reads_def by (metis append.assoc append_Nil hd_append2)

text \<open>Plain text: no quotes of either kind.\<close>

definition plain :: "string \<Rightarrow> bool" where
  "plain s \<longleftrightarrow> list_all (\<lambda>c. c \<noteq> CHR ''`'' \<and> c \<noteq> CHR 0x27) s"

lemma reads_plain_append: "plain s \<Longrightarrow> reads t ids \<Longrightarrow> reads (s @ t) ids"
  by (induction s) (auto simp: plain_def reads_Cons)

lemma reads_plain: "plain s \<Longrightarrow> reads s []"
  using reads_plain_append [of s "[]" "[]"] by (simp add: reads_Nil)

lemma reads_append_plain: "reads s ids \<Longrightarrow> plain t \<Longrightarrow> reads (s @ t) ids"
  using reads_append [of s ids t "[]"] by (cases t) (auto simp: reads_plain, auto simp: plain_def)

lemma plain_append [simp]: "plain (s @ t) \<longleftrightarrow> plain s \<and> plain t"
  by (simp add: plain_def)

lemma plain_Cons [simp]: "plain (c # t) \<longleftrightarrow> c \<noteq> CHR ''`'' \<and> c \<noteq> CHR 0x27 \<and> plain t"
  by (simp add: plain_def)

lemma plain_Nil [simp]: "plain []"
  by (simp add: plain_def)

lemma plain_join: "plain sep \<Longrightarrow> \<forall>s\<in>set ss. plain s \<Longrightarrow> plain (join sep ss)"
  by (induction sep ss rule: join.induct) auto

lemma reads_join:
  "plain sep \<Longrightarrow> sep \<noteq> [] \<Longrightarrow> list_all2 reads ss idss \<Longrightarrow> reads (join sep ss) (concat idss)"
proof (induction sep ss arbitrary: idss rule: join.induct)
  case (3 sep x y ys)
  then obtain ids idss' where i: "idss = ids # idss'" "reads x ids" "list_all2 reads (y # ys) idss'"
    by (auto simp: list_all2_Cons1)
  have "reads (sep @ join sep (y # ys)) (concat idss')"
    using 3 i by (intro reads_plain_append) blast+
  moreover have "hd (sep @ join sep (y # ys)) \<noteq> CHR ''`''"
    using "3.prems"(1,2) by (cases sep) auto
  ultimately show ?case
    using reads_append [OF i(2)] i(1) by simp
qed (auto simp: list_all2_Cons1 reads_Nil)

section \<open>Quoted identifiers\<close>

text \<open>The contract of an identifier quoting function, shared by the schema generator and the role
  lookup, which each have their own.\<close>

locale ident_quoting =
  fixes quote :: "string \<Rightarrow> string"
  assumes quote_closed: "closed (quote name) 0"
    and quote_reads: "reads (quote name) [name]"
    and quote_inj: "quote a = quote b \<Longrightarrow> a = b"
begin

lemma ident_list: "closed (join '', '' (map quote names)) 0"
  by (rule closed_join0) (auto simp: quote_closed closed_seps)

lemma quoted_list_reads:
  "plain suf \<Longrightarrow> plain sep \<Longrightarrow> sep \<noteq> [] \<Longrightarrow> reads (join sep (map (\<lambda>n. quote n @ suf) names)) names"
proof -
  assume a: "plain suf" "plain sep" "sep \<noteq> []"
  then have "list_all2 reads (map (\<lambda>n. quote n @ suf) names) (map (\<lambda>n. [n]) names)"
    by (auto simp: list_all2_conv_all_nth intro!: reads_append_plain quote_reads)
  from reads_join [OF a(2,3) this] show ?thesis by simp
qed

lemma ident_list_reads: "reads (join '', '' (map quote names)) names"
  using quoted_list_reads [of "[]" "'', ''" names] by simp

lemma qualified_reads: "reads (quote a @ ''.'' @ quote b) [a, b]"
  using reads_append [OF quote_reads, of "''.'' @ quote b" "[b]"] reads_plain_append [OF _ quote_reads, of "''.''"]
  by simp

lemma qualified_name: "closed (quote a @ ''.'' @ quote b) 0"
  by (intro closed_append0 quote_closed closed_seps)

lemma quoted_suffixed_list:
  "closed suf 0 \<Longrightarrow> closed (join '', '' (map (\<lambda>n. quote n @ suf) names)) 0"
  by (rule closed_join0) (auto simp: quote_closed closed_append0 closed_seps)

lemma quoted_equalities:
  "closed (join '' AND '' (map (\<lambda>n. quote n @ '' = ?'') names)) (length names)"
proof -
  have "closed (quote n @ '' = ?'') 1" for n
    by (intro closed_append0 quote_closed closed_seps)
  then have "closed (join '' AND '' (map (\<lambda>n. quote n @ '' = ?'') names)) (sum_list (replicate (length names) 1))"
    by (intro closed_join) (auto simp: list_all2_conv_all_nth closed_seps)
  then show ?thesis by (simp add: sum_list_replicate)
qed

end

end
