(* ===== verification/Rbac.thy ===== *)
theory Rbac
  imports Introspect Config Sql_Lex
begin

text \<open>
  Role rules (\<open>rbac/rbac.go\<close>): the lookup of a JWT claim along a dotted path, row filters that
  bind claims as parameters, column presets, and the resolution of a role's YAML rules against the
  catalog.
\<close>

section \<open>Claims\<close>

record identity =
  id_role :: string
  id_claims :: "gval gmap"

text \<open>\<open>claim_splits\<close> is the loop of \<open>LookupClaim\<close> over the split position, from the right.\<close>

function (sequential) lookup_claim :: "gval gmap \<Rightarrow> string \<Rightarrow> gval option"
  and claim_splits :: "gval gmap \<Rightarrow> string \<Rightarrow> nat \<Rightarrow> gval option" where
  "lookup_claim claims path =
     (case gget claims path of
        Some v \<Rightarrow> Some v
      | None \<Rightarrow> claim_splits claims path (length path - 1))"
| "claim_splits claims path 0 = None"
| "claim_splits claims path (Suc i) =
     (if Suc i < length path \<and> path ! Suc i = CHR ''.'' then
        (case gget claims (take (Suc i) path) of
           Some (VMap m) \<Rightarrow>
             (case lookup_claim m (drop (Suc (Suc i)) path) of
                Some r \<Rightarrow> Some r
              | None \<Rightarrow> claim_splits claims path i)
         | _ \<Rightarrow> claim_splits claims path i)
      else claim_splits claims path i)"
  by pat_completeness auto
termination
  by (relation "measures [\<lambda>x. case x of Inl (c, p) \<Rightarrow> length p | Inr (c, p, i) \<Rightarrow> length p,
        \<lambda>x. case x of Inl (c, p) \<Rightarrow> Suc (length p) | Inr (c, p, i) \<Rightarrow> i]") auto

declare lookup_claim.simps [simp del] claim_splits.simps(2) [simp del]

text \<open>The reading along an explicit list of keys, which the dotted path abbreviates.\<close>

fun claim_at :: "gval gmap \<Rightarrow> string list \<Rightarrow> gval option" where
  "claim_at m [] = None"
| "claim_at m [k] = gget m k"
| "claim_at m (k # k' # ks) =
     (case gget m k of Some (VMap m') \<Rightarrow> claim_at m' (k' # ks) | _ \<Rightarrow> None)"

definition is_scalar :: "gval \<Rightarrow> bool" where
  "is_scalar v = (case v of VStr _ \<Rightarrow> True | VFloat _ \<Rightarrow> True | VBool _ \<Rightarrow> True | VNil \<Rightarrow> True
                  | _ \<Rightarrow> False)"

section \<open>Filters\<close>

text \<open>The longest dotted claim path at the head of the text: \<open>[A-Za-z0-9_]+(\.[A-Za-z0-9_]+)*\<close>.\<close>

function span_path :: "string \<Rightarrow> string \<times> string" where
  "span_path s =
     (let w = takeWhile is_word s; r = dropWhile is_word s
      in if w = [] then ([], s)
         else (case r of
                 [] \<Rightarrow> (w, [])
               | c # r' \<Rightarrow>
                   if c = CHR ''.'' then
                     (let (p, r'') = span_path r'
                      in if p = [] then (w, r) else (w @ CHR ''.'' # p, r''))
                   else (w, r)))"
  by pat_completeness auto
termination
proof (relation "measure length")
  fix s :: string and x xa c r' 
  assume "x = takeWhile is_word s" "xa = dropWhile is_word s" "xa = c # r'"
  then have "length (c # r') \<le> length s"
    using length_dropWhile_le [of is_word s] by simp
  then show "(r', s) \<in> measure length" by simp
qed simp

declare span_path.simps [simp del]

definition claim_path_ok :: "string \<Rightarrow> bool" where
  "claim_path_ok p = (p \<noteq> [] \<and> span_path p = (p, []))"

definition claim_ref :: "string \<Rightarrow> (string \<times> string) option" where
  "claim_ref s =
     (case cut_prefix '':jwt.'' s of
        None \<Rightarrow> None
      | Some r \<Rightarrow> (case span_path r of (p, rest) \<Rightarrow> if p = [] then None else Some (p, rest)))"

record filter_expr =
  fil_segments :: "string list"
  fil_paths :: "string list"

fun split_refs :: "(char + string) list \<Rightarrow> string \<Rightarrow> string list \<times> string list" where
  "split_refs [] seg = ([seg], [])"
| "split_refs (Inl c # ts) seg = split_refs ts (seg @ [c])"
| "split_refs (Inr p # ts) seg = (case split_refs ts [] of (segs, ps) \<Rightarrow> (seg # segs, p # ps))"

text \<open>White space as \<open>strings.TrimSpace\<close> sees it, on the UTF-8 encodings.\<close>

definition unicode_spaces :: "string list" where
  "unicode_spaces =
     map (map char_of)
       ([[9], [10], [11], [12], [13], [32], [194, 133], [194, 160], [225, 154, 128]] @
        map (\<lambda>n. [226, 128, n]) [128, 129, 130, 131, 132, 133, 134, 135, 136, 137, 138, 168, 169, 175]
        @ [[226, 129, 159], [227, 128, 128 :: nat]])"

fun skip_spaces :: "nat \<Rightarrow> string \<Rightarrow> string" where
  "skip_spaces 0 s = s"
| "skip_spaces (Suc n) s =
     (case find (has_prefix s) unicode_spaces of
        None \<Rightarrow> s
      | Some w \<Rightarrow> skip_spaces n (drop (length w) s))"

definition all_space :: "string \<Rightarrow> bool" where
  "all_space s = (skip_spaces (length s) s = [])"

definition compile_filter :: "string \<Rightarrow> filter_expr res" where
  "compile_filter expr =
     (if all_space expr then Inl (Rbac_Err Filter_Is_Empty)
      else (case split_refs (scan_refs claim_ref expr) [] of
              (segs, ps) \<Rightarrow> Inr \<lparr>fil_segments = segs, fil_paths = ps\<rparr>))"

text \<open>The rendering of one claim reference: the text to insert and the values to bind.\<close>

definition bind_claim :: "gval gmap \<Rightarrow> string \<Rightarrow> (string \<times> gval list) res" where
  "bind_claim claims path =
     (case lookup_claim claims path of
        None \<Rightarrow> Inl (Rbac_Err (Filter_Claim_Missing path))
      | Some (VList vs) \<Rightarrow>
          if vs = [] then Inr (''NULL'', [])
          else if \<not> list_all is_scalar vs then Inl (Rbac_Err (Filter_Claim_Bad_Element path))
          else Inr (join '', '' (replicate (length vs) ''?''), vs)
      | Some v \<Rightarrow>
          if is_scalar v then Inr (''?'', [v])
          else Inl (Rbac_Err (Filter_Claim_Not_Scalar path)))"

fun filter_loop :: "gval gmap \<Rightarrow> string list \<Rightarrow> string list \<Rightarrow> (string \<times> gval list) res" where
  "filter_loop claims [] ps = Inr ([], [])"
| "filter_loop claims (seg # segs) [] = Inr (seg, [])"
| "filter_loop claims (seg # segs) (p # ps) =
     rbind (bind_claim claims p) (\<lambda>(t, vs).
     rbind (filter_loop claims segs ps) (\<lambda>(t', vs'). Inr (seg @ t @ t', vs @ vs')))"

definition filter_sql :: "filter_expr \<Rightarrow> gval gmap \<Rightarrow> (string \<times> gval list) res" where
  "filter_sql f claims = filter_loop claims (fil_segments f) (fil_paths f)"

section \<open>Presets and operations\<close>

record preset =
  pre_column :: column
  pre_claim :: string
  pre_literal :: string

definition preset_value :: "preset \<Rightarrow> gval gmap \<Rightarrow> gval res" where
  "preset_value p claims =
     (if pre_claim p = [] then Inr (VStr (pre_literal p))
      else (case lookup_claim claims (pre_claim p) of
              None \<Rightarrow> Inl (Rbac_Err (Preset_Claim_Missing (col_name (pre_column p)) (pre_claim p)))
            | Some v \<Rightarrow> if is_scalar v then Inr v
                        else Inl (Rbac_Err (Preset_Claim_Not_Scalar (pre_claim p)))))"

record op_access =
  oa_columns :: "column list"
  oa_colset :: "string set"
  oa_filter :: "filter_expr option"
  oa_presets :: "preset list"

record table_access =
  ta_select :: "op_access option"
  ta_insert :: "op_access option"
  ta_update :: "op_access option"
  ta_delete :: "op_access option"

record access =
  acc_role :: string
  acc_tables :: "table_access gmap"

definition access_table :: "access \<Rightarrow> string \<Rightarrow> table_access option" where
  "access_table a n = gget (acc_tables a) n"

text \<open>The columns an operation covers; \<open>None\<close> denies it for this table.\<close>

definition resolve_columns :: "string \<Rightarrow> table \<Rightarrow> string \<Rightarrow> op_perm \<Rightarrow> bool \<Rightarrow> column list option res" where
  "resolve_columns role t op p explicit =
     (if op_columns p = [] then Inr (Some (tbl_columns t))
      else (case find (\<lambda>c. \<not> has_column t c) (op_columns p) of
              Some c \<Rightarrow>
                if explicit then Inl (Rbac_Err (Unknown_Column role (tbl_name t) op c))
                else let cs = filter (\<lambda>c. col_name c \<in> set (filter (has_column t) (op_columns p)))
                                (tbl_columns t)
                     in Inr (if cs = [] then None else Some cs)
            | None \<Rightarrow>
                let cs = filter (\<lambda>c. col_name c \<in> set (op_columns p)) (tbl_columns t)
                in Inr (if cs = [] then None else Some cs)))"

fun resolve_presets :: "string \<Rightarrow> table \<Rightarrow> string \<Rightarrow> bool \<Rightarrow> string gmap \<Rightarrow> preset list res" where
  "resolve_presets role t op explicit [] = Inr []"
| "resolve_presets role t op explicit ((col, val) # ps) =
     (case tbl_colmap t col of
        None \<Rightarrow> if explicit then Inl (Rbac_Err (Unknown_Preset_Column role (tbl_name t) op col))
                else resolve_presets role t op explicit ps
      | Some c \<Rightarrow>
          (case cut_prefix '':jwt.'' val of
             Some path \<Rightarrow>
               if claim_path_ok path
               then rbind (resolve_presets role t op explicit ps) (\<lambda>r.
                      Inr (\<lparr>pre_column = c, pre_claim = path, pre_literal = []\<rparr> # r))
               else Inl (Rbac_Err (Bad_Preset_Path role (tbl_name t) op val))
           | None \<Rightarrow>
               rbind (resolve_presets role t op explicit ps) (\<lambda>r.
                 Inr (\<lparr>pre_column = c, pre_claim = [], pre_literal = val\<rparr> # r))))"

text \<open>The exchange sort at the end of \<open>resolveOp\<close>: one inner pass moves the least column name to
  the front, swapping as it goes.\<close>

definition pre_name :: "preset \<Rightarrow> string" where
  "pre_name p = col_name (pre_column p)"

fun exchange_pass :: "preset \<Rightarrow> preset list \<Rightarrow> preset \<times> preset list" where
  "exchange_pass x [] = (x, [])"
| "exchange_pass x (y # ys) =
     (if pre_name y < pre_name x
      then (case exchange_pass y ys of (m, r) \<Rightarrow> (m, x # r))
      else (case exchange_pass x ys of (m, r) \<Rightarrow> (m, y # r)))"

lemma exchange_pass_length: "length (snd (exchange_pass x ys)) = length ys"
  by (induction x ys rule: exchange_pass.induct) (auto split: prod.splits)

function exchange_sort :: "preset list \<Rightarrow> preset list" where
  "exchange_sort [] = []"
| "exchange_sort (x # xs) = fst (exchange_pass x xs) # exchange_sort (snd (exchange_pass x xs))"
  by pat_completeness auto
termination
  by (relation "measure length") (auto simp: exchange_pass_length)

definition resolve_op :: "string \<Rightarrow> table \<Rightarrow> string \<Rightarrow> op_perm option \<Rightarrow> bool \<Rightarrow> op_access option res" where
  "resolve_op role t op perm explicit =
     (case perm of
        None \<Rightarrow> Inr None
      | Some p \<Rightarrow>
          if \<not> op_allow p then Inr None
          else rbind (resolve_columns role t op p explicit) (\<lambda>cols.
            case cols of
              None \<Rightarrow> Inr None
            | Some cs \<Rightarrow>
                rbind (if op_filter p = [] then Inr None
                       else (case compile_filter (op_filter p) of
                               Inl e \<Rightarrow> Inl (Bad_Filter role (tbl_name t) op e)
                             | Inr f \<Rightarrow> Inr (Some f))) (\<lambda>f.
                rbind (resolve_presets role t op explicit (op_presets p)) (\<lambda>ps.
                  Inr (Some \<lparr>oa_columns = cs, oa_colset = set (map col_name cs), oa_filter = f,
                             oa_presets = exchange_sort ps\<rparr>)))))"

text \<open>A role's rule for one table, and whether it is an explicit one.\<close>

definition table_rule :: "role_cfg \<Rightarrow> string \<Rightarrow> (table_perm \<times> bool) option" where
  "table_rule role tn =
     (case gget (rc_tables role) tn of
        Some (Some p) \<Rightarrow> Some (p, True)
      | _ \<Rightarrow> (case gget (rc_tables role) ''*'' of
                Some (Some p) \<Rightarrow> Some (p, False)
              | _ \<Rightarrow> None))"

definition resolve_table :: "string \<Rightarrow> table \<Rightarrow> table_perm \<Rightarrow> bool \<Rightarrow> table_access res" where
  "resolve_table role t p explicit =
     rbind (resolve_op role t ''select'' (tp_select p) explicit) (\<lambda>s.
     rbind (resolve_op role t ''insert'' (tp_insert p) explicit) (\<lambda>i.
     rbind (resolve_op role t ''update'' (tp_update p) explicit) (\<lambda>u.
     rbind (resolve_op role t ''delete'' (tp_delete p) explicit) (\<lambda>d.
       Inr \<lparr>ta_select = s, ta_insert = i, ta_update = u, ta_delete = d\<rparr>))))"

definition any_access :: "table_access \<Rightarrow> bool" where
  "any_access ta \<longleftrightarrow> ta_select ta \<noteq> None \<or> ta_insert ta \<noteq> None \<or> ta_update ta \<noteq> None \<or>
     ta_delete ta \<noteq> None"

fun resolve_tables :: "string \<Rightarrow> role_cfg \<Rightarrow> table gmap \<Rightarrow> string list \<Rightarrow> table_access gmap
    \<Rightarrow> table_access gmap res" where
  "resolve_tables rn role ts [] acc = Inr acc"
| "resolve_tables rn role ts (tn # tns) acc =
     (case table_rule role tn of
        None \<Rightarrow> resolve_tables rn role ts tns acc
      | Some (p, explicit) \<Rightarrow>
          (case gget ts tn of
             None \<Rightarrow> Inl (Go_Panic ''nil table'')
           | Some t \<Rightarrow>
               rbind (resolve_table rn t p explicit) (\<lambda>ta.
                 resolve_tables rn role ts tns (if any_access ta then gput tn ta acc else acc))))"

definition resolve :: "string \<Rightarrow> role_cfg option \<Rightarrow> catalog \<Rightarrow> access res" where
  "resolve rn role_ptr cat =
     (case role_ptr of
        None \<Rightarrow> Inl (Go_Panic ''nil role'')
      | Some role \<Rightarrow>
          (case find (\<lambda>tn. tn \<noteq> ''*'' \<and> gget (cat_tables cat) tn = None) (map fst (rc_tables role)) of
             Some tn \<Rightarrow> Inl (Rbac_Err (Grant_On_Unknown_Table rn tn (cat_schema cat)))
           | None \<Rightarrow>
               rbind (resolve_tables rn role (cat_tables cat) (cat_order cat) []) (\<lambda>ts.
                 Inr \<lparr>acc_role = rn, acc_tables = ts\<rparr>)))"

section \<open>Claim lookup\<close>

definition split_val :: "gval gmap \<Rightarrow> string \<Rightarrow> nat \<Rightarrow> gval option" where
  "split_val c p j =
     (if 0 < j \<and> j < length p \<and> p ! j = CHR ''.''
      then (case gget c (take j p) of Some (VMap m) \<Rightarrow> lookup_claim m (drop (Suc j) p) | _ \<Rightarrow> None)
      else None)"

lemma claim_splits_Suc:
  "claim_splits c p (Suc i) =
     (case split_val c p (Suc i) of Some r \<Rightarrow> Some r | None \<Rightarrow> claim_splits c p i)"
  by (subst claim_splits.simps) (auto simp: split_val_def split: option.splits gval.splits)

lemma claim_splits_None: "claim_splits c p i = None \<longleftrightarrow> (\<forall>j\<le>i. split_val c p j = None)"
proof (induction i)
  case 0
  then show ?case by (simp add: split_val_def)
next
  case (Suc i)
  then show ?case by (auto simp: claim_splits_Suc le_Suc_eq split: option.splits)
qed

lemma claim_splits_Some:
  "claim_splits c p i = Some v \<Longrightarrow>
     \<exists>j\<le>i. split_val c p j = Some v \<and> (\<forall>j'\<le>i. j < j' \<longrightarrow> split_val c p j' = None)"
proof (induction i)
  case (Suc i)
  show ?case
  proof (cases "split_val c p (Suc i)")
    case None
    with Suc obtain j where "j \<le> i" "split_val c p j = Some v"
      "\<forall>j'\<le>i. j < j' \<longrightarrow> split_val c p j' = None"
      by (auto simp: claim_splits_Suc)
    with None show ?thesis by (auto simp: le_Suc_eq)
  next
    case (Some r)
    with Suc.prems show ?thesis by (auto simp: claim_splits_Suc)
  qed
qed simp

text \<open>The ways to read a dotted path as a list of keys: only the last key may be empty.\<close>

definition path_keys :: "string list \<Rightarrow> string \<Rightarrow> bool" where
  "path_keys ks p \<longleftrightarrow> ks \<noteq> [] \<and> [] \<notin> set (butlast ks) \<and> join ''.'' ks = p"

lemma path_keys_Cons:
  "path_keys (k # k' # ks) p \<longleftrightarrow> k \<noteq> [] \<and> (\<exists>r. p = k @ CHR ''.'' # r \<and> path_keys (k' # ks) r)"
  by (auto simp: path_keys_def)

lemma path_keys_single: "path_keys [k] p \<longleftrightarrow> p = k"
  by (auto simp: path_keys_def)

lemma drop_Suc_length: "drop (Suc (length k)) (k @ c # r) = r"
  by (induction k) auto

lemma split_val_append:
  "k \<noteq> [] \<Longrightarrow> split_val c (k @ CHR ''.'' # r) (length k) =
     (case gget c k of Some (VMap m) \<Rightarrow> lookup_claim m r | _ \<Rightarrow> None)"
  by (auto simp: split_val_def drop_Suc_length simp del: drop_append split: option.splits gval.splits)

lemma lookup_claim_complete:
  "path_keys ks p \<Longrightarrow> claim_at c ks \<noteq> None \<Longrightarrow>
     lookup_claim c p \<noteq> None \<and> (tl ks \<noteq> [] \<longrightarrow> split_val c p (length (hd ks)) \<noteq> None)"
proof (induction c ks arbitrary: p rule: claim_at.induct)
  case (2 m k)
  then show ?case by (auto simp: path_keys_single lookup_claim.simps)
next
  case (3 m k k' ks)
  from "3.prems"(1) obtain r where k: "k \<noteq> []" and p: "p = k @ CHR ''.'' # r"
    and r: "path_keys (k' # ks) r"
    by (auto simp: path_keys_Cons)
  from "3.prems"(2) obtain m' where m': "gget m k = Some (VMap m')" "claim_at m' (k' # ks) \<noteq> None"
    by (auto split: option.splits gval.splits)
  then have sv: "split_val m p (length k) \<noteq> None"
    using "3.IH" [OF m'(1) refl r m'(2)] by (simp add: p split_val_append [OF k])
  have "length k \<le> length p - 1" by (simp add: p)
  with sv have "\<exists>j\<le>length p - 1. split_val m p j \<noteq> None"
    by (intro exI [of _ "length k"] conjI)
  then have "claim_splits m p (length p - 1) \<noteq> None"
    by (simp only: claim_splits_None not_all de_Morgan_conj not_imp simp_thms)
  then have "lookup_claim m p \<noteq> None"
    by (cases "gget m p") (simp_all add: lookup_claim.simps [of m p])
  with sv show ?case by simp
qed simp

lemma split_val_Some:
  assumes "split_val c p j = Some v"
  obtains m where "0 < j" "j < length p" "p = take j p @ CHR ''.'' # drop (Suc j) p"
    "gget c (take j p) = Some (VMap m)" "lookup_claim m (drop (Suc j) p) = Some v"
  using assms id_take_nth_drop [of j p]
  by (auto simp: split_val_def split: if_splits option.splits gval.splits)

lemma lookup_claim_sound:
  "lookup_claim c p = Some v \<Longrightarrow> \<exists>ks. path_keys ks p \<and> claim_at c ks = Some v \<and>
     (\<forall>ks' v'. path_keys ks' p \<and> claim_at c ks' = Some v' \<longrightarrow> length (hd ks') \<le> length (hd ks))"
proof (induction p arbitrary: c v rule: measure_induct_rule [of length])
  case (less p)
  show ?case
  proof (cases "gget c p")
    case (Some w)
    have "length (hd ks') \<le> length p" if "path_keys ks' p" for ks'
      using that by (cases ks' rule: remdups_adj.cases) (auto simp: path_keys_single path_keys_Cons path_keys_def [of "[]"])
    with Some less.prems show ?thesis
      by (intro exI [of _ "[p]"]) (auto simp: path_keys_single lookup_claim.simps)
  next
    case None
    with less.prems have "claim_splits c p (length p - 1) = Some v"
      by (simp add: lookup_claim.simps)
    then obtain j where j: "split_val c p j = Some v"
      and top: "\<forall>j'\<le>length p - 1. j < j' \<longrightarrow> split_val c p j' = None"
      using claim_splits_Some by blast
    from j obtain m where m: "0 < j" "j < length p" "p = take j p @ CHR ''.'' # drop (Suc j) p"
      "gget c (take j p) = Some (VMap m)" "lookup_claim m (drop (Suc j) p) = Some v"
      by (rule split_val_Some)
    from m(1,2) have "length (drop (Suc j) p) < length p" by simp
    from less.IH [OF this m(5)] obtain ks where ks: "path_keys ks (drop (Suc j) p)"
      "claim_at m ks = Some v" by blast
    then obtain k' ks2 where k': "ks = k' # ks2" by (cases ks) (auto simp: path_keys_def)
    have "path_keys (take j p # ks) p"
      using m(1,2,3) ks(1) unfolding k' path_keys_Cons by auto
    moreover have "claim_at c (take j p # ks) = Some v"
      using m(4) ks(2) by (simp add: k')
    moreover have "length (hd ks') \<le> j" if ks': "path_keys ks' p" "claim_at c ks' = Some v'" for ks' v'
    proof (cases "tl ks'")
      case Nil
      with ks' None show ?thesis by (cases ks') (auto simp: path_keys_single path_keys_def)
    next
      case (Cons a as)
      then have "split_val c p (length (hd ks')) \<noteq> None"
        using lookup_claim_complete ks' by auto
      then show ?thesis
        using top by (metis One_nat_def Suc_pred less_Suc_eq_le m(2) not_le_imp_less
            option.exhaust split_val_Some less_imp_le_nat order_le_less_trans zero_le)
    qed
    ultimately show ?thesis using m(2) by (intro exI [of _ "take j p # ks"]) auto
  qed
qed

text \<open>C11: \<open>LookupClaim\<close> finds a value exactly when some way of cutting the dotted path into keys
  (all but the last non-empty) leads to one through nested objects. The value it returns lies on
  such a reading, and among all readings that lead anywhere it takes one with the longest first
  key; so a claim whose name holds dots is found, and nothing outside the token's claims is.\<close>

theorem lookup_claim_spec:
  "(case lookup_claim c p of
      None \<Rightarrow> \<nexists>ks v. path_keys ks p \<and> claim_at c ks = Some v
    | Some v \<Rightarrow> \<exists>ks. path_keys ks p \<and> claim_at c ks = Some v \<and>
        (\<forall>ks' v'. path_keys ks' p \<and> claim_at c ks' = Some v' \<longrightarrow> length (hd ks') \<le> length (hd ks)))"
proof (cases "lookup_claim c p")
  case None
  then have "\<not> (path_keys ks p \<and> claim_at c ks = Some v)" for ks v
    using lookup_claim_complete [of ks p c] by auto
  then have "\<nexists>ks v. path_keys ks p \<and> claim_at c ks = Some v" by blast
  with None show ?thesis by (simp only: option.case simp_thms)
next
  case (Some v)
  with lookup_claim_sound [OF Some] show ?thesis by simp
qed

theorem lookup_claim_spec_witness:
  "\<exists>ks. path_keys ks ''org.id'' \<and> claim_at [(''org'', VMap [(''id'', VStr ''x'')])] ks = Some (VStr ''x'')"
proof -
  have "lookup_claim [(''org'', VMap [(''id'', VStr ''x'')])] ''org.id'' = Some (VStr ''x'')" by code_simp
  with lookup_claim_spec [of "''org.id''" "[(''org'', VMap [(''id'', VStr ''x'')])]"] show ?thesis by auto
qed

section \<open>Filters\<close>

lemma span_path_split:
  "span_path s = (p, r) \<Longrightarrow> s = p @ r \<and> list_all (\<lambda>c. is_word c \<or> c = CHR ''.'') p"
proof (induction s arbitrary: p r rule: span_path.induct)
  case (1 s)
  define w where "w = takeWhile is_word s"
  have s: "s = w @ dropWhile is_word s" "list_all is_word w"
    by (auto simp: w_def list_all_iff dest: set_takeWhileD)
  then have w: "list_all (\<lambda>c. is_word c \<or> c = CHR ''.'') w" by (auto simp: list_all_iff)
  show ?case
  proof (cases "w = []")
    case True
    with "1.prems" show ?thesis by (simp add: span_path.simps [of s] w_def)
  next
    case False
    show ?thesis
    proof (cases "dropWhile is_word s")
      case Nil
      with "1.prems" False w s show ?thesis by (auto simp: span_path.simps [of s] w_def [symmetric])
    next
      case (Cons c r')
      show ?thesis
      proof (cases "c = CHR ''.''")
        case True
        obtain p' r'' where q: "span_path r' = (p', r'')" by (cases "span_path r'")
        with 1 False Cons True have IH: "r' = p' @ r'' \<and> list_all (\<lambda>c. is_word c \<or> c = CHR ''.'') p'"
          by (simp add: w_def)
        with "1.prems" q False Cons True w s show ?thesis
          by (auto simp: span_path.simps [of s] w_def [symmetric] split: if_splits)
      next
        case False
        with "1.prems" \<open>w \<noteq> []\<close> Cons w s show ?thesis
          by (auto simp: span_path.simps [of s] w_def [symmetric])
      qed
    qed
  qed
qed

text \<open>A matched path is itself a valid one: matching it again takes all of it.\<close>

lemma takeWhile_word_stop: "takeWhile is_word (takeWhile is_word s) = takeWhile is_word s"
  by (metis takeWhile_eq_all_conv set_takeWhileD)

lemma span_path_ok: "span_path s = (p, r) \<Longrightarrow> p \<noteq> [] \<Longrightarrow> claim_path_ok p"
proof (induction s arbitrary: p r rule: span_path.induct)
  case (1 s)
  define w where "w = takeWhile is_word s"
  have ww: "takeWhile is_word w = w" "dropWhile is_word w = []"
    by (auto simp: w_def takeWhile_word_stop dropWhile_eq_Nil_conv dest: set_takeWhileD)
  have dot: "\<not> is_word CHR ''.''" by (simp add: is_word_def is_lower_def is_upper_def is_digit_def)
  have wdot: "takeWhile is_word (w @ CHR ''.'' # q) = w" "dropWhile is_word (w @ CHR ''.'' # q) = CHR ''.'' # q" for q
    using ww dot by (auto simp: takeWhile_append dropWhile_append dropWhile_eq_Nil_conv takeWhile_eq_all_conv)
  have wn: "w \<noteq> []"
    using "1.prems" by (auto simp: span_path.simps [of s] w_def Let_def)
  have single: "claim_path_ok w"
    unfolding claim_path_ok_def span_path.simps [of w] ww Let_def using wn by simp
  show ?case
  proof (cases "p = w")
    case False
    with "1.prems" wn obtain r' p' r'' where r': "dropWhile is_word s = CHR ''.'' # r'"
      "span_path r' = (p', r'')" "p' \<noteq> []" "p = w @ CHR ''.'' # p'"
      by (auto simp: span_path.simps [of s] w_def [symmetric] Let_def
          split: list.splits if_splits prod.splits)
    with "1.IH" wn have "claim_path_ok p'" by (simp add: w_def)
    then show ?thesis
      unfolding r'(4) claim_path_ok_def span_path.simps [of "w @ CHR ''.'' # p'"] wdot Let_def
      using wn r'(3) by simp
  qed (use single in simp)
qed

definition claim_show :: "string \<Rightarrow> string" where
  "claim_show p = '':jwt.'' @ p"

interpretation jwt: ref_syntax claim_ref claim_show claim_path_ok
proof
  fix s n rest assume r: "claim_ref s = Some (n, rest)"
  then obtain t where t: "cut_prefix '':jwt.'' s = Some t" "span_path t = (n, rest)" "n \<noteq> []"
    by (auto simp: claim_ref_def split: option.splits prod.splits if_splits)
  then show "s = claim_show n @ rest"
    using span_path_split by (simp add: claim_show_def cut_prefix_iff)
  show "claim_path_ok n" using t span_path_ok by blast
qed (simp add: claim_show_def)

fun print_filter :: "string list \<Rightarrow> string list \<Rightarrow> string" where
  "print_filter (seg # segs) (p # ps) = seg @ claim_show p @ print_filter segs ps"
| "print_filter (seg # segs) [] = seg"
| "print_filter [] ps = []"

lemma split_refs_print:
  "split_refs ts seg = (segs, ps) \<Longrightarrow>
     length segs = Suc (length ps) \<and> print_filter segs ps = seg @ print_refs claim_show ts \<and>
     set ps = {p. Inr p \<in> set ts}"
  by (induction ts seg arbitrary: segs ps rule: split_refs.induct)
    (fastforce split: prod.splits)+

text \<open>Compiling a row filter loses no text and invents none. The static segments and the
  claim paths, put back together with \<open>:jwt.\<close> in front of each path, give the filter as written;
  there is one segment more than paths, and every path is a dotted claim path.\<close>

lemma compile_filter_roundtrip:
  "compile_filter expr = Inr f \<Longrightarrow>
     print_filter (fil_segments f) (fil_paths f) = expr \<and>
     length (fil_segments f) = Suc (length (fil_paths f)) \<and>
     (\<forall>p\<in>set (fil_paths f). claim_path_ok p)"
  using split_refs_print [of "scan_refs claim_ref expr" "[]"] jwt.scan_good jwt.print_scan
  by (auto simp: compile_filter_def split: if_splits prod.splits)

section \<open>Rendered filters\<close>

text \<open>A filter is well formed when its text reads as a closed fragment with the references in code
  position: parentheses and quotes balance over the segments, and the segments hold no
  placeholder of their own.\<close>

fun segs_closed :: "nat \<Rightarrow> string list \<Rightarrow> bool" where
  "segs_closed d [] = False"
| "segs_closed d [seg] = (lex_run (LCode, d, 0) seg = Some (LCode, 0, 0))"
| "segs_closed d (seg # seg' # segs) =
     (case lex_run (LCode, d, 0) seg of
        None \<Rightarrow> False
      | Some (m, d', h) \<Rightarrow> m = LCode \<and> h = 0 \<and> segs_closed d' (seg' # segs))"

definition filter_wf :: "filter_expr \<Rightarrow> bool" where
  "filter_wf f \<longleftrightarrow> length (fil_segments f) = Suc (length (fil_paths f)) \<and>
     segs_closed 0 (fil_segments f) \<and> fil_segments f \<noteq> [[]]"

lemma bind_claim_closed: "bind_claim claims p = Inr (t, vs) \<Longrightarrow> closed t (length vs)"
  using closed_qmarks [of "length vs"] closed_qmarks [of 1]
  by (auto simp: bind_claim_def closed_def code_step_def split: option.splits gval.splits if_splits)

lemma filter_loop_closed:
  "length segs = Suc (length ps) \<Longrightarrow> segs_closed d segs \<Longrightarrow> filter_loop claims segs ps = Inr (s, vs) \<Longrightarrow>
     lex_run (LCode, d, h) s = Some (LCode, 0, h + length vs)"
proof (induction claims segs ps arbitrary: d h s vs rule: filter_loop.induct)
  case (2 claims seg segs)
  then show ?case using lex_shift [of LCode d 0 seg LCode 0 0 0 h] by simp
next
  case (3 claims seg segs p ps)
  then obtain t vs1 t' vs2 where b: "bind_claim claims p = Inr (t, vs1)"
    "filter_loop claims segs ps = Inr (t', vs2)" "s = seg @ t @ t'" "vs = vs1 @ vs2"
    by auto
  from "3.prems"(1) obtain s' ss where ss: "segs = s' # ss" by (cases segs) auto
  with "3.prems"(2) obtain d' where seg: "lex_run (LCode, d, 0) seg = Some (LCode, d', 0)" "segs_closed d' segs"
    by (auto split: option.splits)
  have "lex_run (LCode, d, h) seg = Some (LCode, d', h)"
    using lex_shift [OF seg(1), of 0 h] by simp
  moreover have "lex_run (LCode, d', h) t = Some (LCode, d', h + length vs1)"
    by (rule lex_closed [OF bind_claim_closed [OF b(1)]])
  moreover have "lex_run (LCode, d', h + length vs1) t' = Some (LCode, 0, h + length vs1 + length vs2)"
    using "3.IH" [OF b(1) refl _ seg(2) b(2)] "3.prems"(1) by simp
  ultimately show ?case by (simp add: b lex_append add.assoc)
qed simp

lemma filter_sql_lex: "filter_wf f \<Longrightarrow> filter_sql f claims = Inr (s, vs) \<Longrightarrow> closed s (length vs)"
  using filter_loop_closed [of "fil_segments f" "fil_paths f" 0 claims s vs 0]
  by (simp add: filter_wf_def filter_sql_def closed_def)

text \<open>What the text of a rendered filter may depend on: whether a claim is there, and whether it is
  a single value or a list of some length.\<close>

datatype claim_shape = No_Claim | One_Claim | List_Claim nat

definition shape_of :: "gval option \<Rightarrow> claim_shape" where
  "shape_of c = (case c of None \<Rightarrow> No_Claim | Some (VList vs) \<Rightarrow> List_Claim (length vs) | Some _ \<Rightarrow> One_Claim)"

lemma bind_claim_text:
  "bind_claim c p = Inr (t, vs) \<Longrightarrow>
     (case shape_of (lookup_claim c p) of
        No_Claim \<Rightarrow> False
      | One_Claim \<Rightarrow> t = ''?'' \<and> length vs = 1
      | List_Claim n \<Rightarrow> length vs = n \<and> t = (if n = 0 then ''NULL'' else join '', '' (replicate n ''?'')))"
  by (auto simp: bind_claim_def shape_of_def split: option.splits gval.splits if_splits)

lemma join_nonempty: "x \<noteq> [] \<Longrightarrow> join sep (x # xs) \<noteq> []"
  by (cases xs) simp_all

lemma filter_sql_nonempty: "filter_wf f \<Longrightarrow> filter_sql f claims = Inr (s, vs) \<Longrightarrow> s \<noteq> []"
proof -
  assume f: "filter_wf f" "filter_sql f claims = Inr (s, vs)"
  then obtain seg segs where segs: "fil_segments f = seg # segs" by (cases "fil_segments f") (auto simp: filter_wf_def)
  show "s \<noteq> []"
  proof (cases "fil_paths f")
    case Nil
    with f segs show ?thesis by (auto simp: filter_wf_def filter_sql_def)
  next
    case (Cons p ps)
    have "t \<noteq> []" if "bind_claim claims p = Inr (t, us)" for t us
      using bind_claim_text [OF that] join_nonempty [of "''?''"]
      by (cases "length us") (auto split: claim_shape.splits if_splits)
    with f segs Cons show ?thesis by (auto simp: filter_sql_def)
  qed
qed

lemma bind_claim_shape:
  "shape_of (lookup_claim c p) = shape_of (lookup_claim c' p) \<Longrightarrow>
     bind_claim c p = Inr (t, vs) \<Longrightarrow> bind_claim c' p = Inr (t', vs') \<Longrightarrow> t = t' \<and> length vs = length vs'"
  using bind_claim_text [of c p t vs] bind_claim_text [of c' p t' vs']
  by (auto split: claim_shape.splits)

lemma filter_loop_shape:
  "\<forall>p\<in>set ps. shape_of (lookup_claim c p) = shape_of (lookup_claim c' p) \<Longrightarrow>
     filter_loop c segs ps = Inr (s, vs) \<Longrightarrow> filter_loop c' segs ps = Inr (s', vs') \<Longrightarrow>
     s = s' \<and> length vs = length vs'"
proof (induction c segs ps arbitrary: s vs s' vs' rule: filter_loop.induct)
  case (3 c seg segs p ps)
  from "3.prems"(2) obtain t vs1 t' vs2 where a: "bind_claim c p = Inr (t, vs1)"
    "filter_loop c segs ps = Inr (t', vs2)" "s = seg @ t @ t'" "vs = vs1 @ vs2" by auto
  from "3.prems"(3) obtain u ws1 u' ws2 where b: "bind_claim c' p = Inr (u, ws1)"
    "filter_loop c' segs ps = Inr (u', ws2)" "s' = seg @ u @ u'" "vs' = ws1 @ ws2" by auto
  have "t = u \<and> length vs1 = length ws1" by (rule bind_claim_shape [OF _ a(1) b(1)]) (use "3.prems"(1) in simp)
  moreover have "t' = u' \<and> length vs2 = length ws2"
    by (rule "3.IH" [OF a(1) refl _ a(2) b(2)]) (use "3.prems"(1) in simp)
  ultimately show ?case by (simp add: a b)
qed simp_all

text \<open>C9: claims never reach the SQL text. Two callers whose claims have the same shapes at the
  referenced paths (a value, or a list of the same length) get the very same filter text from a
  successful rendering, whatever the values are; the values are only in the arguments, one per
  placeholder.\<close>

theorem filter_sql_claims_bound:
  assumes "\<forall>p\<in>set (fil_paths f). shape_of (lookup_claim c p) = shape_of (lookup_claim c' p)"
    and "filter_sql f c = Inr (s, vs)" and "filter_sql f c' = Inr (s', vs')"
  shows "s = s' \<and> length vs = length vs' \<and> (filter_wf f \<longrightarrow> closed s (length vs))"
  using filter_loop_shape [OF assms(1)] assms(2,3) filter_sql_lex [OF _ assms(2)]
  by (simp add: filter_sql_def)

definition demo_filter :: filter_expr where
  "demo_filter = \<lparr>fil_segments = [''a = '', '' AND b IN ('', '')''], fil_paths = [''sub'', ''org.ids'']\<rparr>"

lemma demo_filter_wf: "filter_wf demo_filter"
  by code_simp

theorem filter_sql_claims_bound_witness:
  "\<exists>s vs s' vs'.
     filter_sql demo_filter [(''sub'', VStr ''x''), (''org'', VMap [(''ids'', VList [VBool True, VNil])])] = Inr (s, vs) \<and>
     filter_sql demo_filter [(''org.ids'', VList [VStr ''); DROP TABLE t;'', VNil]), (''sub'', VNil)] = Inr (s', vs') \<and>
     s = s' \<and> s = ''a = ? AND b IN (?, ?)'' \<and> length vs = 3 \<and> closed s 3"
proof -
  let ?c = "[(''sub'', VStr ''x''), (''org'', VMap [(''ids'', VList [VBool True, VNil])])]"
  let ?c' = "[(''org.ids'', VList [VStr ''); DROP TABLE t;'', VNil]), (''sub'', VNil)]"
  have 1: "filter_sql demo_filter ?c = Inr (''a = ? AND b IN (?, ?)'', [VStr ''x'', VBool True, VNil])"
    by code_simp
  have 2: "filter_sql demo_filter ?c' = Inr (''a = ? AND b IN (?, ?)'', [VNil, VStr ''); DROP TABLE t;'', VNil])"
    by code_simp
  have "\<forall>p\<in>set (fil_paths demo_filter). shape_of (lookup_claim ?c p) = shape_of (lookup_claim ?c' p)"
    by code_simp
  from filter_sql_claims_bound [OF this 1 2] demo_filter_wf
  have "closed ''a = ? AND b IN (?, ?)'' 3" by (simp add: eval_nat_numeral)
  then show ?thesis
    by (intro exI conjI) (rule 1, rule 2, simp_all)
qed

section \<open>Resolved rules\<close>

definition presets_sorted :: "preset list \<Rightarrow> bool" where
  "presets_sorted ps = sorted (map pre_name ps)"

lemma exchange_pass_mset: "exchange_pass x ys = (m, r) \<Longrightarrow> mset (x # ys) = mset (m # r)"
  by (induction x ys arbitrary: m r rule: exchange_pass.induct)
    (fastforce split: if_splits prod.splits simp: add_mset_commute)+

lemma exchange_pass_least:
  "exchange_pass x ys = (m, r) \<Longrightarrow> \<forall>y\<in>set (x # ys). pre_name m \<le> pre_name y"
proof (induction x ys arbitrary: m r rule: exchange_pass.induct)
  case (2 x y ys)
  show ?case
  proof (cases "pre_name y < pre_name x")
    case True
    with 2(3) obtain r' where "exchange_pass y ys = (m, r')" by (auto split: prod.splits)
    with 2(1) True have "\<forall>z\<in>set (y # ys). pre_name m \<le> pre_name z" by blast
    with True show ?thesis by (auto intro: order_trans less_imp_le)
  next
    case False
    with 2(3) obtain r' where "exchange_pass x ys = (m, r')" by (auto split: prod.splits)
    with 2(2) False have "\<forall>z\<in>set (x # ys). pre_name m \<le> pre_name z" by blast
    with False show ?thesis by (auto intro: order_trans simp: not_less)
  qed
qed simp

lemma exchange_sort_mset: "mset (exchange_sort ps) = mset ps"
proof (induction ps rule: exchange_sort.induct)
  case (2 x xs)
  then show ?case
    using exchange_pass_mset [of x xs "fst (exchange_pass x xs)" "snd (exchange_pass x xs)"] by simp
qed simp

lemma exchange_sort_set [simp]: "set (exchange_sort ps) = set ps"
  using exchange_sort_mset by (metis set_mset_mset)

lemma exchange_sort_sorted: "presets_sorted (exchange_sort ps)"
proof (induction ps rule: exchange_sort.induct)
  case (2 x xs)
  have p: "exchange_pass x xs = (fst (exchange_pass x xs), snd (exchange_pass x xs))" by simp
  have "set (snd (exchange_pass x xs)) \<subseteq> set (x # xs)"
    using exchange_pass_mset [OF p] by (metis insert_iff list.simps(15) set_mset_mset subsetI)
  then have "\<forall>y\<in>set (snd (exchange_pass x xs)). pre_name (fst (exchange_pass x xs)) \<le> pre_name y"
    using exchange_pass_least [OF p] by blast
  with 2 show ?case by (simp add: presets_sorted_def)
qed (simp add: presets_sorted_def)

text \<open>What a granted operation promises, in terms of the rule it comes from.\<close>

definition preset_from :: "table \<Rightarrow> string \<Rightarrow> string \<Rightarrow> preset \<Rightarrow> bool" where
  "preset_from t col val p \<longleftrightarrow> tbl_colmap t col = Some (pre_column p) \<and>
     (if has_prefix val '':jwt.'' then val = claim_show (pre_claim p) \<and> claim_path_ok (pre_claim p)
      else pre_claim p = [] \<and> pre_literal p = val)"

definition op_from :: "table \<Rightarrow> op_perm \<Rightarrow> op_access \<Rightarrow> bool" where
  "op_from t p oa \<longleftrightarrow>
     op_allow p \<and>
     oa_columns oa = filter (\<lambda>c. op_columns p = [] \<or> col_name c \<in> set (op_columns p) \<and> has_column t (col_name c))
       (tbl_columns t) \<and>
     oa_colset oa = col_name ` set (oa_columns oa) \<and>
     (case oa_filter oa of None \<Rightarrow> op_filter p = []
      | Some f \<Rightarrow> compile_filter (op_filter p) = Inr f) \<and>
     (\<forall>q\<in>set (oa_presets oa). \<exists>(col, val)\<in>set (op_presets p). preset_from t col val q) \<and> presets_sorted (oa_presets oa)"

lemma resolve_presets_from:
  "resolve_presets role t op explicit rules = Inr ps \<Longrightarrow> q \<in> set ps \<Longrightarrow>
     \<exists>(col, val)\<in>set rules. preset_from t col val q"
proof (induction role t op explicit rules arbitrary: ps rule: resolve_presets.induct)
  case (2 role t op explicit col val rules)
  show ?case
  proof (cases "preset_from t col val q")
    case False
    then have "\<exists>ps'. resolve_presets role t op explicit rules = Inr ps' \<and> q \<in> set ps'"
      using "2.prems"
      by (auto simp: preset_from_def claim_show_def cut_prefix_iff has_prefix_iff
          split: option.splits if_splits)
    with "2.IH" "2.prems" show ?thesis
      by (auto split: option.splits if_splits)
  qed auto
qed simp

lemma resolve_columns_from:
  assumes "resolve_columns role t op p explicit = Inr (Some cs)"
    and "\<forall>c\<in>set (tbl_columns t). has_column t (col_name c)"
  shows "cs = filter (\<lambda>c. op_columns p = [] \<or> col_name c \<in> set (op_columns p) \<and> has_column t (col_name c))
    (tbl_columns t)"
  using assms by (auto simp: resolve_columns_def Let_def split: if_splits option.splits
      intro!: filter_cong)


lemma resolve_op_from:
  assumes "resolve_op role t op perm explicit = Inr (Some oa)"
    and "\<forall>c\<in>set (tbl_columns t). has_column t (col_name c)"
  shows "\<exists>p. perm = Some p \<and> op_from t p oa"
proof -
  from assms(1) obtain p cs f ps where p: "perm = Some p" "op_allow p"
    "resolve_columns role t op p explicit = Inr (Some cs)"
    "(if op_filter p = [] then Inr None
      else (case compile_filter (op_filter p) of
              Inl e \<Rightarrow> Inl (Bad_Filter role (tbl_name t) op e)
            | Inr f \<Rightarrow> Inr (Some f))) = Inr f"
    "resolve_presets role t op explicit (op_presets p) = Inr ps"
    "oa = \<lparr>oa_columns = cs, oa_colset = set (map col_name cs), oa_filter = f, oa_presets = exchange_sort ps\<rparr>"
    by (auto simp: resolve_op_def split: option.splits if_splits)
  have "case f of None \<Rightarrow> op_filter p = [] | Some f \<Rightarrow> compile_filter (op_filter p) = Inr f"
    using p(4) by (auto split: if_splits sum.splits)
  with p(1,2) resolve_columns_from [OF p(3) assms(2)] resolve_presets_from [OF p(5)]
  show ?thesis by (auto simp: p(6) op_from_def exchange_sort_sorted)
qed

text \<open>The shorthand \<open>true\<close> grants every column of the table without a filter or presets, \<open>false\<close> nothing.\<close>

lemma shorthand_grants:
  assumes "unmarshal_op_perm True (Inr b) m = Inr p" "\<forall>c\<in>set (tbl_columns t). has_column t (col_name c)"
    and "resolve_op role t op (Some p) explicit = Inr oa"
  shows "if b then \<exists>a. oa = Some a \<and> oa_columns a = tbl_columns t \<and> oa_filter a = None \<and> oa_presets a = [] else oa = None"
  using assms by (auto simp: unmarshal_op_perm_def resolve_op_def resolve_columns_def)

text \<open>The four operations of a table, by name.\<close>

definition granted :: "table_access \<Rightarrow> string \<Rightarrow> op_access option" where
  "granted ta op =
     (if op = ''select'' then ta_select ta else if op = ''insert'' then ta_insert ta
      else if op = ''update'' then ta_update ta else if op = ''delete'' then ta_delete ta else None)"

definition permitted :: "table_perm \<Rightarrow> string \<Rightarrow> op_perm option" where
  "permitted tp op =
     (if op = ''select'' then tp_select tp else if op = ''insert'' then tp_insert tp
      else if op = ''update'' then tp_update tp else if op = ''delete'' then tp_delete tp else None)"

lemma resolve_table_granted:
  assumes "resolve_table role t tp explicit = Inr ta" and "granted ta op = Some oa"
  shows "resolve_op role t op (permitted tp op) explicit = Inr (Some oa)"
  using assms by (auto simp: resolve_table_def granted_def permitted_def split: if_splits)

definition entry_from :: "string \<Rightarrow> role_cfg \<Rightarrow> table gmap \<Rightarrow> table_access gmap \<Rightarrow> bool" where
  "entry_from rn role ts acc \<longleftrightarrow>
     (\<forall>tn ta. gget acc tn = Some ta \<longrightarrow>
       (\<exists>p e t. table_rule role tn = Some (p, e) \<and> gget ts tn = Some t \<and> resolve_table rn t p e = Inr ta))"

lemma resolve_tables_entry:
  "resolve_tables rn role ts tns acc = Inr acc' \<Longrightarrow> entry_from rn role ts acc \<Longrightarrow> entry_from rn role ts acc'"
proof (induction rn role ts tns acc rule: resolve_tables.induct)
  case (2 rn role ts tn tns acc)
  show ?case
  proof (cases "table_rule role tn")
    case None
    with 2 show ?thesis by auto
  next
    case (Some pe)
    obtain p e where pe: "table_rule role tn = Some (p, e)" using Some by (cases pe) auto
    with "2.prems"(1) obtain t ta where t: "gget ts tn = Some t" "resolve_table rn t p e = Inr ta"
      "resolve_tables rn role ts tns (if any_access ta then gput tn ta acc else acc) = Inr acc'"
      by (auto split: option.splits)
    have "entry_from rn role ts (if any_access ta then gput tn ta acc else acc)"
      using "2.prems"(2) pe t(1,2) by (auto simp: entry_from_def)
    with "2.IH"(2) [OF pe refl t(1,2,3)] show ?thesis by simp
  qed
qed simp

lemma has_column_ok: "table_ok t \<Longrightarrow> c \<in> set (tbl_columns t) \<Longrightarrow> has_column t (col_name c)"
  by (force simp: table_ok_def has_column_def map_of_eq_None_iff)


subsection \<open>A small catalog and role\<close>

definition demo_col :: "nat \<Rightarrow> string \<Rightarrow> string \<Rightarrow> bool \<Rightarrow> column" where
  "demo_col i n ty pk = \<lparr>col_name = n, col_ordinal = i, col_data_type = ty, col_column_type = ty,
     col_nullable = \<not> pk, col_is_primary = pk, col_auto_inc = False, col_has_default = False,
     col_generated = False\<rparr>"

definition demo_columns :: "column list" where
  "demo_columns = [demo_col 0 ''id'' ''bigint'' True, demo_col 1 ''owner'' ''varchar'' False,
     demo_col 2 ''secret'' ''varchar'' False, demo_col 3 ''meta'' ''json'' False]"

definition demo_table :: table where
  "demo_table = \<lparr>tbl_name = ''notes'', tbl_columns = demo_columns,
     tbl_colmap = map_of (map (\<lambda>c. (col_name c, c)) demo_columns), tbl_pk = [''id''],
     tbl_fks = [], tbl_incoming = []\<rparr>"

definition demo_catalog :: catalog where
  "demo_catalog = \<lparr>cat_schema = ''app'', cat_tables = [(''notes'', demo_table)], cat_order = [''notes'']\<rparr>"

definition demo_perm :: op_perm where
  "demo_perm = \<lparr>op_allow = True, op_columns = [''meta'', ''id'', ''owner''],
     op_filter = ''owner = :jwt.sub'', op_presets = [(''owner'', '':jwt.sub'')]\<rparr>"

definition demo_role :: role_cfg where
  "demo_role = \<lparr>rc_tables = [(''*'', Some \<lparr>tp_select = Some demo_perm, tp_insert = Some demo_perm,
     tp_update = Some demo_perm, tp_delete = None\<rparr>)]\<rparr>"

definition demo_op :: op_access where
  "demo_op = \<lparr>oa_columns = [demo_col 0 ''id'' ''bigint'' True, demo_col 1 ''owner'' ''varchar'' False,
       demo_col 3 ''meta'' ''json'' False],
     oa_colset = {''id'', ''owner'', ''meta''},
     oa_filter = Some \<lparr>fil_segments = [''owner = '', []], fil_paths = [''sub'']\<rparr>,
     oa_presets = [\<lparr>pre_column = demo_col 1 ''owner'' ''varchar'' False, pre_claim = ''sub'', pre_literal = []\<rparr>]\<rparr>"

definition demo_access :: access where
  "demo_access = \<lparr>acc_role = ''user'', acc_tables = [(''notes'',
     \<lparr>ta_select = Some demo_op, ta_insert = Some demo_op, ta_update = Some demo_op, ta_delete = None\<rparr>)]\<rparr>"

lemma demo_resolve: "resolve ''user'' (Some demo_role) demo_catalog = Inr demo_access"
  by code_simp

lemma demo_table_ok: "table_ok demo_table"
  unfolding table_ok_def by (simp add: demo_table_def) code_simp

lemma demo_catalog_ok: "catalog_ok demo_catalog"
  using demo_table_ok by (simp add: catalog_ok_def tables_ok_def demo_catalog_def demo_table_def)


end
