(* ===== verification/Wire.thy ===== *)
theory Wire
  imports Naming
begin

text \<open>
  The text encodings of the standard library that the sources put on the wire:
  \<open>encoding/json\<close>'s \<open>Marshal\<close> for values of type \<open>any\<close>, and \<open>encoding/base64\<close>.
\<close>

section \<open>JSON output\<close>

definition hex_char :: "nat \<Rightarrow> char" where
  "hex_char d = (if d < 10 then char_of (48 + d) else char_of (87 + d))"

definition json_rune :: "string \<Rightarrow> string" where
  "json_rune r =
     (case r of
        [c] \<Rightarrow>
          (let n = (of_char c :: nat)
           in if n = 34 \<or> n = 92 then [CHR 0x5C, c]
              else if n = 8 then CHR 0x5C # ''b''
              else if n = 12 then CHR 0x5C # ''f''
              else if n = 10 then CHR 0x5C # ''n''
              else if n = 13 then CHR 0x5C # ''r''
              else if n = 9 then CHR 0x5C # ''t''
              else if n < 32 \<or> n = 60 \<or> n = 62 \<or> n = 38
                then CHR 0x5C # ''u00'' @ [hex_char (n div 16), hex_char (n mod 16)]
              else if 128 \<le> n then CHR 0x5C # ''ufffd''
              else [c])
      | _ \<Rightarrow>
          if r = map char_of [226, 128, 168 :: nat] then CHR 0x5C # ''u2028''
          else if r = map char_of [226, 128, 169 :: nat] then CHR 0x5C # ''u2029''
          else r)"

definition json_string :: "string \<Rightarrow> string" where
  "json_string s = CHR 0x22 # concat (map json_rune (runes s)) @ [CHR 0x22]"

section \<open>Base64\<close>

fun sextets :: "string \<Rightarrow> nat list" where
  "sextets [] = []"
| "sextets [a] = [of_char a div 4, of_char a mod 4 * 16]"
| "sextets [a, b] =
     [of_char a div 4, of_char a mod 4 * 16 + of_char b div 16, of_char b mod 16 * 4]"
| "sextets (a # b # c # s) =
     of_char a div 4 # (of_char a mod 4 * 16 + of_char b div 16) #
     (of_char b mod 16 * 4 + of_char c div 64) # of_char c mod 64 # sextets s"

definition b64_padding :: "string \<Rightarrow> string" where
  "b64_padding s = (if length s mod 3 = 1 then ''=='' else if length s mod 3 = 2 then ''='' else [])"

definition b64_encode :: "(nat \<Rightarrow> char) \<Rightarrow> bool \<Rightarrow> string \<Rightarrow> string" where
  "b64_encode e pad s = map e (sextets s) @ (if pad then b64_padding s else [])"

fun b64_bytes :: "nat list \<Rightarrow> string" where
  "b64_bytes [p, q] = [char_of (p * 4 + q div 16)]"
| "b64_bytes [p, q, r] = [char_of (p * 4 + q div 16), char_of (q mod 16 * 16 + r div 4)]"
| "b64_bytes [p, q, r, s] =
     [char_of (p * 4 + q div 16), char_of (q mod 16 * 16 + r div 4), char_of (r mod 4 * 64 + s)]"
| "b64_bytes _ = []"

fun opts :: "'a option list \<Rightarrow> 'a list option" where
  "opts [] = Some []"
| "opts (None # xs) = None"
| "opts (Some x # xs) = map_option ((#) x) (opts xs)"

text \<open>The decoder skips line ends before it groups the digits.\<close>

fun b64_groups :: "(char \<Rightarrow> nat option) \<Rightarrow> bool \<Rightarrow> string \<Rightarrow> string option" where
  "b64_groups d pad (p # q # r # s # t) =
     (if pad \<and> t = [] \<and> r = CHR ''='' \<and> s = CHR ''='' then map_option b64_bytes (opts [d p, d q])
      else if pad \<and> t = [] \<and> s = CHR ''='' then map_option b64_bytes (opts [d p, d q, d r])
      else (case opts [d p, d q, d r, d s] of
              None \<Rightarrow> None
            | Some ns \<Rightarrow> map_option (\<lambda>u. b64_bytes ns @ u) (b64_groups d pad t)))"
| "b64_groups d pad [] = Some []"
| "b64_groups d pad s =
     (if pad \<or> length s = 1 then None else map_option b64_bytes (opts (map d s)))"

definition b64_decode :: "(char \<Rightarrow> nat option) \<Rightarrow> bool \<Rightarrow> string \<Rightarrow> string option" where
  "b64_decode d pad s = b64_groups d pad (filter (\<lambda>c. c \<noteq> CHR 0x0A \<and> c \<noteq> CHR 0x0D) s)"

lemma sextet_bounds:
  "(of_char a :: nat) div 4 < 64" "(of_char a :: nat) mod 4 * 16 < 64"
  "(of_char a :: nat) mod 4 * 16 + of_char b div 16 < 64" "(of_char b :: nat) mod 16 * 4 < 64"
  "(of_char b :: nat) mod 16 * 4 + of_char c div 64 < 64" "(of_char c :: nat) mod 64 < 64"
proof -
  have less: "(of_char x :: nat) < 256" for x by simp
  show "(of_char a :: nat) div 4 < 64" using less [of a] by linarith
  show "(of_char a :: nat) mod 4 * 16 < 64" by linarith
  show "(of_char a :: nat) mod 4 * 16 + of_char b div 16 < 64" using less [of b] by linarith
  show "(of_char b :: nat) mod 16 * 4 < 64" by linarith
  show "(of_char b :: nat) mod 16 * 4 + of_char c div 64 < 64" using less [of c] by linarith
qed simp

lemma sextets_range: "n \<in> set (sextets s) \<Longrightarrow> n < 64"
  by (induction s rule: sextets.induct) (use sextet_bounds in auto)

text \<open>Decoding the digits puts the bytes back together.\<close>

lemma b64_bytes_sextets:
  "b64_bytes [of_char a div 4, of_char a mod 4 * 16] = [a]"
  "b64_bytes [of_char a div 4, of_char a mod 4 * 16 + of_char b div 16, of_char b mod 16 * 4] = [a, b]"
  "b64_bytes [of_char a div 4, of_char a mod 4 * 16 + of_char b div 16,
     of_char b mod 16 * 4 + of_char c div 64, of_char c mod 64] = [a, b, c]"
proof -
  have less: "(of_char x :: nat) < 256" for x by simp
  have q: "(m * k + r) div k = m" "(m * k + r) mod k = r" if "r < k" for m k r :: nat
    using that by simp_all
  have b: "(of_char b :: nat) div 16 < 16" and c: "(of_char c :: nat) div 64 < 4"
    using less [of b] less [of c] by linarith+
  have 1: "of_char a div 4 * 4 + (of_char a mod 4 * 16) div 16 = (of_char a :: nat)" by simp
  have 2: "of_char a div 4 * 4 + (of_char a mod 4 * 16 + of_char b div 16) div 16 = (of_char a :: nat)"
    unfolding q(1) [OF b] by simp
  have 3: "(of_char a mod 4 * 16 + of_char b div 16) mod 16 * 16 + (of_char b mod 16 * 4) div 4 = (of_char b :: nat)"
    unfolding q(2) [OF b] by simp
  have 4: "(of_char a mod 4 * 16 + of_char b div 16) mod 16 * 16 + (of_char b mod 16 * 4 + of_char c div 64) div 4
      = (of_char b :: nat)"
    unfolding q(2) [OF b] q(1) [OF c] by simp
  have 5: "(of_char b mod 16 * 4 + of_char c div 64) mod 4 * 64 + of_char c mod 64 = (of_char c :: nat)"
    unfolding q(2) [OF c] by simp
  show "b64_bytes [of_char a div 4, of_char a mod 4 * 16] = [a]"
    using 1 by simp
  show "b64_bytes [of_char a div 4, of_char a mod 4 * 16 + of_char b div 16, of_char b mod 16 * 4] = [a, b]"
    unfolding b64_bytes.simps 2 3 by simp
  show "b64_bytes [of_char a div 4, of_char a mod 4 * 16 + of_char b div 16,
     of_char b mod 16 * 4 + of_char c div 64, of_char c mod 64] = [a, b, c]"
    unfolding b64_bytes.simps 2 4 5 by simp
qed

locale base64 =
  fixes e :: "nat \<Rightarrow> char" and d :: "char \<Rightarrow> nat option"
  assumes dec_enc: "n < 64 \<Longrightarrow> d (e n) = Some n"
    and enc_plain: "n < 64 \<Longrightarrow> e n \<noteq> CHR ''='' \<and> e n \<noteq> CHR 0x0A \<and> e n \<noteq> CHR 0x0D"
begin

lemma groups_encode: "b64_groups d pad (b64_encode e pad s) = Some s"
proof (induction s rule: sextets.induct)
  case (2 a)
  show ?case
    by (simp add: b64_encode_def b64_padding_def dec_enc enc_plain sextet_bounds b64_bytes_sextets
        del: b64_bytes.simps)
next
  case (3 a b)
  show ?case
    by (simp add: b64_encode_def b64_padding_def dec_enc enc_plain sextet_bounds b64_bytes_sextets
        del: b64_bytes.simps)
next
  case (4 a b c s)
  have "b64_groups d pad (map e (sextets s) @ (if pad then b64_padding s else [])) = Some s"
    using "4.IH" by (simp only: b64_encode_def)
  moreover have "b64_padding (a # b # c # s) = b64_padding s" by (simp add: b64_padding_def)
  ultimately show ?case
    by (simp add: b64_encode_def dec_enc enc_plain sextet_bounds b64_bytes_sextets
        del: b64_bytes.simps split del: if_split cong: if_cong)
qed (simp add: b64_encode_def b64_padding_def)

lemma decode_encode: "b64_decode d pad (b64_encode e pad s) = Some s"
proof -
  have "filter (\<lambda>c. c \<noteq> CHR 0x0A \<and> c \<noteq> CHR 0x0D) (b64_encode e pad s) = b64_encode e pad s"
    using sextets_range [of _ s] enc_plain
    by (auto simp: b64_encode_def b64_padding_def filter_id_conv)
  then show ?thesis by (simp add: b64_decode_def groups_encode)
qed

end

sublocale base64 \<subseteq> coded: codec "b64_encode e pad" "b64_decode d pad" for pad
  by unfold_locales (rule decode_encode)

definition b64_char :: "char \<Rightarrow> char \<Rightarrow> nat \<Rightarrow> char" where
  "b64_char c62 c63 n =
     (if n < 26 then char_of (65 + n) else if n < 52 then char_of (71 + n)
      else if n < 62 then char_of (n - 4) else if n = 62 then c62 else c63)"

definition b64_val :: "char \<Rightarrow> char \<Rightarrow> char \<Rightarrow> nat option" where
  "b64_val c62 c63 c =
     (if is_upper c then Some (of_char c - 65) else if is_lower c then Some (of_char c - 71)
      else if is_digit c then Some (of_char c + 4) else if c = c62 then Some 62
      else if c = c63 then Some 63 else None)"

text \<open>\<open>base64.StdEncoding\<close> and \<open>base64.RawURLEncoding\<close>.\<close>

lemma char_of_code: "char_of n = c \<Longrightarrow> n < 256 \<Longrightarrow> n = (of_char c :: nat)"
  by auto

interpretation std64: base64 "b64_char CHR ''+'' CHR ''/''" "b64_val CHR ''+'' CHR ''/''"
  by unfold_locales
    (auto simp: b64_char_def b64_val_def is_upper_def is_lower_def is_digit_def dest!: char_of_code)

interpretation url64: base64 "b64_char CHR ''-'' CHR ''_''" "b64_val CHR ''-'' CHR ''_''"
  by unfold_locales
    (auto simp: b64_char_def b64_val_def is_upper_def is_lower_def is_digit_def dest!: char_of_code)

definition b64_std :: "string \<Rightarrow> string" where
  "b64_std s = b64_encode (b64_char CHR ''+'' CHR ''/'') True s"

definition b64_std_decode :: "string \<Rightarrow> string option" where
  "b64_std_decode s = b64_decode (b64_val CHR ''+'' CHR ''/'') True s"

definition b64_url :: "string \<Rightarrow> string" where
  "b64_url s = b64_encode (b64_char CHR ''-'' CHR ''_'') False s"

definition b64_url_decode :: "string \<Rightarrow> string option" where
  "b64_url_decode s = b64_decode (b64_val CHR ''-'' CHR ''_'') False s"

lemma b64_std_inverse [simp]: "b64_std_decode (b64_std s) = Some s"
  unfolding b64_std_def b64_std_decode_def by (rule std64.coded.dec_of_enc)

lemma b64_url_inverse [simp]: "b64_url_decode (b64_url s) = Some s"
  unfolding b64_url_def b64_url_decode_def by (rule url64.coded.dec_of_enc)

interpretation std_text: codec b64_std b64_std_decode
  by unfold_locales (rule b64_std_inverse)

interpretation url_text: codec b64_url b64_url_decode
  by unfold_locales (rule b64_url_inverse)

section \<open>JSON values\<close>

text \<open>\<open>json.Marshal\<close>: map keys in sorted order, \<open>[]byte\<close> as base64, an error for NaN and the
  infinities.\<close>

lemma sort_key_size: "(k, v) \<in> set (sort_key fst kvs) \<Longrightarrow> size v < size (VMap kvs)"
  unfolding set_sort by (induction kvs) auto

function json_encode :: "stdlib \<Rightarrow> gval \<Rightarrow> string res" where
  "json_encode sl VNil = Inr ''null''"
| "json_encode sl (VBool b) = Inr (if b then ''true'' else ''false'')"
| "json_encode sl (VInt n) = Inr (show_int n)"
| "json_encode sl (VInt64 n) = Inr (show_int n)"
| "json_encode sl (VUint64 n) = Inr (show_int n)"
| "json_encode sl (VFloat f) =
     (if f64_finite f then Inr (sl_float_json sl f) else Inl (Ext_Error ''json: unsupported value''))"
| "json_encode sl (VStr s) = Inr (json_string s)"
| "json_encode sl (VBytes s) = Inr (CHR 0x22 # b64_std s @ [CHR 0x22])"
| "json_encode sl (VTime t) = Inr (sl_time_json sl t)"
| "json_encode sl (VList vs) =
     rbind (mapr (json_encode sl) vs) (\<lambda>ss. Inr (''['' @ join '','' ss @ '']''))"
| "json_encode sl (VMap kvs) =
     rbind (mapr (\<lambda>kv. rbind (json_encode sl (snd kv)) (\<lambda>s. Inr (json_string (fst kv) @ '':'' @ s)))
              (sort_key fst kvs))
       (\<lambda>ss. Inr (''{'' @ join '','' ss @ ''}''))"
  by pat_completeness auto
termination
  by (relation "measure (\<lambda>(sl, v). size v)") (auto dest: sort_key_size size_list_estimation' simp: less_Suc_eq_le size_list_estimation')

end
