(* ===== verification/Scalars.thy ===== *)
theory Scalars
  imports Rbac Wire
begin

text \<open>
  Column types and values (\<open>schema/scalars.go\<close>): the scalar of a column, the output and input
  conversions of the custom scalars, the normalisation of driver values and of bound arguments. The
  built-in scalars (\<open>Int\<close>, \<open>Float\<close>, \<open>String\<close>, \<open>Boolean\<close>) are those of the GraphQL library.
\<close>

section \<open>The scalar of a column\<close>

datatype gscalar =
    SBoolean | SInt | SFloat | SString
  | SBigInt | SDecimal | SDate | SDateTime | SJSON | SBytes | SVector

definition scalar_for :: "column \<Rightarrow> gscalar" where
  "scalar_for col =
     (let unsigned = str_contains (col_column_type col) ''unsigned''; ty = col_data_type col
      in if ty = ''tinyint'' then (if has_prefix (col_column_type col) ''tinyint(1)'' then SBoolean else SInt)
         else if ty \<in> set [''smallint'', ''mediumint'', ''year''] then SInt
         else if ty \<in> set [''int'', ''integer''] then (if unsigned then SBigInt else SInt)
         else if ty = ''bigint'' then SBigInt
         else if ty \<in> set [''float'', ''double'', ''real''] then SFloat
         else if ty \<in> set [''decimal'', ''numeric''] then SDecimal
         else if ty = ''date'' then SDate
         else if ty \<in> set [''datetime'', ''timestamp''] then SDateTime
         else if ty = ''json'' then SJSON
         else if ty \<in> set [''binary'', ''varbinary'', ''blob'', ''tinyblob'', ''mediumblob'', ''longblob'', ''bit''] then SBytes
         else if ty = ''vector'' then SVector
         else SString)"

section \<open>Input\<close>

text \<open>\<open>strings.TrimSpace\<close>.\<close>

fun drop_end_spaces :: "nat \<Rightarrow> string \<Rightarrow> string" where
  "drop_end_spaces 0 s = s"
| "drop_end_spaces (Suc n) s =
     (case find (has_suffix s) unicode_spaces of
        None \<Rightarrow> s
      | Some w \<Rightarrow> drop_end_spaces n (take (length s - length w) s))"

definition trim_space :: "string \<Rightarrow> string" where
  "trim_space s = (let t = skip_spaces (length s) s in drop_end_spaces (length t) t)"

definition coerce_bigint :: "gval \<Rightarrow> gval" where
  "coerce_bigint v =
     (case v of
        VInt n \<Rightarrow> VInt64 n
      | VInt64 n \<Rightarrow> VInt64 n
      | VFloat f \<Rightarrow> (case float_int f of Some n \<Rightarrow> VInt64 n | None \<Rightarrow> VNil)
      | VStr s \<Rightarrow> (case parse_int64 (trim_space s) of Some n \<Rightarrow> VInt64 n | None \<Rightarrow> VNil)
      | _ \<Rightarrow> VNil)"

definition coerce_decimal :: "stdlib \<Rightarrow> gval \<Rightarrow> gval" where
  "coerce_decimal sl v =
     (case v of
        VStr s \<Rightarrow> (case sl_parse_float sl (trim_space s) of Some _ \<Rightarrow> VStr (trim_space s) | None \<Rightarrow> VNil)
      | VFloat f \<Rightarrow> VStr (sl_float_f sl f)
      | VInt n \<Rightarrow> VStr (show_int n)
      | VInt64 n \<Rightarrow> VStr (show_int n)
      | _ \<Rightarrow> VNil)"

definition date_time_formats :: "string list" where
  "date_time_formats = [''2006-01-02T15:04:05.999999999Z07:00'', ''2006-01-02T15:04:05'',
     ''2006-01-02 15:04:05.999999'', ''2006-01-02 15:04:05'', ''2006-01-02'']"

fun first_time :: "stdlib \<Rightarrow> string list \<Rightarrow> string \<Rightarrow> gval" where
  "first_time sl [] s = VNil"
| "first_time sl (f # fs) s =
     (case sl_parse_time sl f s of Some t \<Rightarrow> VTime t | None \<Rightarrow> first_time sl fs s)"

definition coerce_datetime :: "stdlib \<Rightarrow> gval \<Rightarrow> gval" where
  "coerce_datetime sl v =
     (case v of VStr s \<Rightarrow> first_time sl date_time_formats s | VTime t \<Rightarrow> VTime t | _ \<Rightarrow> VNil)"

definition coerce_date :: "stdlib \<Rightarrow> gval \<Rightarrow> gval" where
  "coerce_date sl v =
     (case v of
        VStr s \<Rightarrow> (case sl_parse_time sl ''2006-01-02'' s of Some _ \<Rightarrow> VStr s | None \<Rightarrow> VNil)
      | _ \<Rightarrow> VNil)"

definition coerce_bytes :: "gval \<Rightarrow> gval" where
  "coerce_bytes v =
     (case v of
        VStr s \<Rightarrow> (case b64_std_decode s of Some b \<Rightarrow> VBytes b | None \<Rightarrow> VNil)
      | _ \<Rightarrow> VNil)"

definition coerce_vector :: "gval \<Rightarrow> gval" where
  "coerce_vector v = (case v of VStr s \<Rightarrow> VStr s | VBytes b \<Rightarrow> VStr b | _ \<Rightarrow> VNil)"

text \<open>\<open>ParseValue\<close> of the scalars; the argument \<open>builtin\<close> is that of the GraphQL library's own.\<close>

definition parse_value :: "stdlib \<Rightarrow> (gscalar \<Rightarrow> gval \<Rightarrow> gval) \<Rightarrow> gscalar \<Rightarrow> gval \<Rightarrow> gval" where
  "parse_value sl builtin sc v =
     (case sc of
        SBigInt \<Rightarrow> coerce_bigint v
      | SDecimal \<Rightarrow> coerce_decimal sl v
      | SDate \<Rightarrow> coerce_date sl v
      | SDateTime \<Rightarrow> coerce_datetime sl v
      | SJSON \<Rightarrow> v
      | SBytes \<Rightarrow> coerce_bytes v
      | SVector \<Rightarrow> coerce_vector v
      | _ \<Rightarrow> builtin sc v)"

text \<open>GraphQL literals.\<close>

datatype ast_value =
    StringValue string
  | BooleanValue bool
  | IntValue string
  | FloatValue string
  | EnumValue string
  | ListValue "ast_value list"
  | ObjectValue "(string \<times> ast_value) list"
  | OtherValue

fun literal_to_go :: "stdlib \<Rightarrow> ast_value \<Rightarrow> gval" where
  "literal_to_go sl (StringValue s) = VStr s"
| "literal_to_go sl (BooleanValue b) = VBool b"
| "literal_to_go sl (IntValue s) = (case parse_int64 s of Some n \<Rightarrow> VInt64 n | None \<Rightarrow> VStr s)"
| "literal_to_go sl (FloatValue s) = (case sl_parse_float sl s of Some f \<Rightarrow> VFloat f | None \<Rightarrow> VStr s)"
| "literal_to_go sl (EnumValue s) = VStr s"
| "literal_to_go sl (ListValue vs) = VList (map (literal_to_go sl) vs)"
| "literal_to_go sl (ObjectValue fs) =
     VMap (foldl (\<lambda>m kv. gput (fst kv) (snd kv) m) [] (map (\<lambda>f. (fst f, literal_to_go sl (snd f))) fs))"
| "literal_to_go sl OtherValue = VNil"

section \<open>Output\<close>

definition serialize_bigint :: "gval \<Rightarrow> gval" where
  "serialize_bigint v =
     (case v of VInt64 _ \<Rightarrow> v | VUint64 _ \<Rightarrow> v | VInt _ \<Rightarrow> v | VBytes b \<Rightarrow> VStr b | VStr _ \<Rightarrow> v | _ \<Rightarrow> VNil)"

definition serialize_decimal :: "stdlib \<Rightarrow> gval \<Rightarrow> gval" where
  "serialize_decimal sl v =
     (case v of VBytes b \<Rightarrow> VStr b | VStr _ \<Rightarrow> v | VFloat f \<Rightarrow> VStr (sl_float_g sl f)
      | VInt64 n \<Rightarrow> VStr (show_int n) | VInt n \<Rightarrow> VStr (show_int n) | _ \<Rightarrow> VNil)"

definition serialize_datetime :: "stdlib \<Rightarrow> gval \<Rightarrow> gval" where
  "serialize_datetime sl v =
     (case v of VTime t \<Rightarrow> VStr (sl_time_rfc3339 sl t) | VBytes b \<Rightarrow> VStr b | VStr _ \<Rightarrow> v | _ \<Rightarrow> VNil)"

definition serialize_date :: "stdlib \<Rightarrow> gval \<Rightarrow> gval" where
  "serialize_date sl v =
     (case v of VTime t \<Rightarrow> VStr (sl_time_date sl t) | VBytes b \<Rightarrow> VStr b | VStr _ \<Rightarrow> v | _ \<Rightarrow> VNil)"

definition serialize_bytes :: "gval \<Rightarrow> gval" where
  "serialize_bytes v =
     (case v of VBytes b \<Rightarrow> VStr (b64_std b) | VStr s \<Rightarrow> VStr (b64_std s) | _ \<Rightarrow> VNil)"

definition serialize_vector :: "gval \<Rightarrow> gval" where
  "serialize_vector v = (case v of VBytes b \<Rightarrow> VStr b | VStr _ \<Rightarrow> v | _ \<Rightarrow> VNil)"

definition serialize_scalar :: "stdlib \<Rightarrow> (gscalar \<Rightarrow> gval \<Rightarrow> gval) \<Rightarrow> gscalar \<Rightarrow> gval \<Rightarrow> gval" where
  "serialize_scalar sl builtin sc v =
     (case sc of
        SBigInt \<Rightarrow> serialize_bigint v
      | SDecimal \<Rightarrow> serialize_decimal sl v
      | SDate \<Rightarrow> serialize_date sl v
      | SDateTime \<Rightarrow> serialize_datetime sl v
      | SJSON \<Rightarrow> v
      | SBytes \<Rightarrow> serialize_bytes v
      | SVector \<Rightarrow> serialize_vector v
      | _ \<Rightarrow> builtin sc v)"

section \<open>The driver's side\<close>

definition convert_value :: "stdlib \<Rightarrow> column \<Rightarrow> gval \<Rightarrow> gval res" where
  "convert_value sl col v =
     (let bad = Inl (Query_Err (Bad_Column_Value (col_name col)))
      in if v = VNil then Inr VNil
         else (case scalar_for col of
           SInt \<Rightarrow>
             (case v of
                VInt64 n \<Rightarrow> Inr (VInt n)
              | VBytes b \<Rightarrow> (case parse_int64 b of Some n \<Rightarrow> Inr (VInt n) | None \<Rightarrow> bad)
              | _ \<Rightarrow> Inr v)
         | SBigInt \<Rightarrow>
             (case v of
                VBytes b \<Rightarrow> (case parse_int64 b of Some n \<Rightarrow> Inr (VInt64 n) | None \<Rightarrow> Inr (VStr b))
              | _ \<Rightarrow> Inr v)
         | SFloat \<Rightarrow>
             (case v of
                VBytes b \<Rightarrow> (case sl_parse_float sl b of Some f \<Rightarrow> Inr (VFloat f) | None \<Rightarrow> bad)
              | _ \<Rightarrow> Inr v)
         | SBoolean \<Rightarrow>
             (case v of
                VInt64 n \<Rightarrow> Inr (VBool (n \<noteq> 0))
              | VBytes b \<Rightarrow> Inr (VBool (b \<noteq> ''0'' \<and> 0 < length b))
              | _ \<Rightarrow> Inr v)
         | SJSON \<Rightarrow>
             (case v of
                VBytes b \<Rightarrow> (case sl_json_decode sl b of Some x \<Rightarrow> Inr x | None \<Rightarrow> bad)
              | _ \<Rightarrow> Inr v)
         | SDateTime \<Rightarrow> Inr v
         | SDate \<Rightarrow> Inr v
         | SBytes \<Rightarrow> Inr v
         | _ \<Rightarrow> (case v of VBytes b \<Rightarrow> Inr (VStr b) | _ \<Rightarrow> Inr v)))"

definition bind_value :: "stdlib \<Rightarrow> column \<Rightarrow> gval \<Rightarrow> gval res" where
  "bind_value sl col v =
     (if v = VNil then Inr VNil
      else if scalar_for col = SJSON then
        (case json_encode sl v of
           Inl _ \<Rightarrow> Inl (Query_Err (Cannot_Encode_JSON (col_name col)))
         | Inr raw \<Rightarrow> Inr (VStr raw))
      else Inr v)"

text \<open>The values \<open>database/sql\<close> accepts as arguments without a conversion of its own.\<close>

definition driver_value :: "gval \<Rightarrow> bool" where
  "driver_value v =
     (case v of VNil \<Rightarrow> True | VInt64 n \<Rightarrow> in_int64 n | VFloat _ \<Rightarrow> True | VBool _ \<Rightarrow> True
      | VBytes _ \<Rightarrow> True | VStr _ \<Rightarrow> True | VTime _ \<Rightarrow> True | _ \<Rightarrow> False)"

text \<open>The machine integers inside a value are in range.\<close>

definition int_ok :: "gval \<Rightarrow> bool" where
  "int_ok v = (case v of VInt n \<Rightarrow> in_int64 n | VInt64 n \<Rightarrow> in_int64 n | _ \<Rightarrow> True)"

lemma parse_int64_range: "parse_int64 s = Some n \<Longrightarrow> in_int64 n"
  by (auto simp: parse_int64_def Let_def split: prod.splits option.splits if_splits)

lemma coerce_bigint_type: "int_ok v \<Longrightarrow> driver_value (coerce_bigint v)"
  by (auto simp: coerce_bigint_def driver_value_def int_ok_def
      split: gval.splits option.splits dest: float_int_range parse_int64_range)

lemma coerce_text_types:
  "driver_value (coerce_decimal sl v)" "driver_value (coerce_date sl v)" "driver_value (coerce_bytes v)"
  "driver_value (coerce_vector v)"
  by (auto simp: coerce_decimal_def coerce_date_def coerce_bytes_def coerce_vector_def driver_value_def
      split: gval.splits option.splits)

lemma first_time_type: "driver_value (first_time sl fs s)"
  by (induction fs) (auto simp: driver_value_def split: option.splits)

lemma coerce_datetime_type: "driver_value (coerce_datetime sl v)"
  by (cases v) (auto simp: coerce_datetime_def first_time_type, auto simp: driver_value_def)

lemma bind_value_type:
  "scalar_for col = SJSON \<or> driver_value v \<Longrightarrow> bind_value sl col v = Inr b \<Longrightarrow> driver_value b"
  by (auto simp: bind_value_def driver_value_def split: if_splits sum.splits)

text \<open>C16: every value of a custom scalar reaches the database driver in a type it accepts. Whatever
  Go value a client supplies (a variable or a literal, nested or not), the coercion of the column's
  scalar followed by the binding yields nil, an \<open>int64\<close> in range, a float, a bool, bytes, a string
  or a time; never a list, a map or a plain \<open>int\<close>.\<close>

theorem bound_values_driver_safe:
  assumes "scalar_for col \<notin> {SBoolean, SInt, SFloat, SString}" and "int_ok v"
    and "bind_value sl col (parse_value sl builtin (scalar_for col) v) = Inr b"
  shows "driver_value b"
proof (rule bind_value_type [OF _ assms(3)])
  show "scalar_for col = SJSON \<or> driver_value (parse_value sl builtin (scalar_for col) v)"
    using assms(1,2) coerce_bigint_type coerce_text_types coerce_datetime_type
    by (cases "scalar_for col") (simp_all add: parse_value_def)
qed

definition demo_stdlib :: stdlib where
  "demo_stdlib = \<lparr>sl_float_json = (\<lambda>_. ''1.5''), sl_float_g = (\<lambda>_. ''1.5''), sl_float_f = (\<lambda>_. ''1.5''),
     sl_parse_float = (\<lambda>s. if s = ''1.5'' then Some 0x3FF8000000000000 else None),
     sl_time_json = (\<lambda>_. ''null''), sl_time_v = (\<lambda>_. []), sl_time_rfc3339 = (\<lambda>_. []),
     sl_time_date = (\<lambda>_. []), sl_parse_time = (\<lambda>_ _. None), sl_json_decode = (\<lambda>_. None), sl_go_syntax = (\<lambda>_. [])\<rparr>"

theorem bound_values_driver_safe_witness:
  "bind_value demo_stdlib (demo_col 3 ''meta'' ''json'' False)
     (parse_value demo_stdlib (\<lambda>_ v. v) SJSON (VList [VInt64 (- 7), VMap [(''k'', VStr ''<'')]])) =
     Inr (VStr (''[-7,{'' @ [CHR 0x22] @ ''k'' @ [CHR 0x22] @ '':'' @ [CHR 0x22, CHR 0x5C] @ ''u003c'' @ [CHR 0x22] @ ''}]'')) \<and>
   driver_value (VStr (''[-7,{'' @ [CHR 0x22] @ ''k'' @ [CHR 0x22] @ '':'' @ [CHR 0x22, CHR 0x5C] @ ''u003c'' @ [CHR 0x22] @ ''}]''))"
proof -
  let ?col = "demo_col 3 ''meta'' ''json'' False"
  have s: "scalar_for ?col = SJSON" by code_simp
  have b: "bind_value demo_stdlib ?col
     (parse_value demo_stdlib (\<lambda>_ v. v) (scalar_for ?col) (VList [VInt64 (- 7), VMap [(''k'', VStr ''<'')]])) =
     Inr (VStr (''[-7,{'' @ [CHR 0x22] @ ''k'' @ [CHR 0x22] @ '':'' @ [CHR 0x22, CHR 0x5C] @ ''u003c'' @ [CHR 0x22] @ ''}]''))"
    by code_simp
  from bound_values_driver_safe [OF _ _ b] s have "driver_value (VStr (''[-7,{'' @ [CHR 0x22] @ ''k'' @ [CHR 0x22] @ '':'' @ [CHR 0x22, CHR 0x5C] @ ''u003c'' @ [CHR 0x22] @ ''}]''))"
    by (simp add: int_ok_def)
  with b s show ?thesis by simp
qed

text \<open>The two wire protocols of the driver.\<close>

lemma show_int_zero: "show_int n = ''0'' \<longleftrightarrow> n = 0"
proof
  have z: "''0'' = show_nat 0" by code_simp
  assume n: "show_int n = ''0''"
  have "0 \<le> n"
  proof (rule ccontr)
    assume "\<not> 0 \<le> n"
    with n show False by (simp add: show_int_def)
  qed
  with n have "show_nat (nat n) = show_nat 0" by (simp add: show_int_def z)
  with \<open>0 \<le> n\<close> show "n = 0" using show_nat_inj by fastforce
next
  show "n = 0 \<Longrightarrow> show_int n = ''0''" by simp code_simp
qed

lemma show_int_nonempty: "show_int n \<noteq> []"
  by (simp add: show_int_def show_nat_nonempty)

text \<open>Prepared and plain queries agree. The driver returns integer columns as \<open>int64\<close> from
  prepared statements and as decimal text otherwise; for integer, big integer and boolean columns the
  normalised value is the same, and it is never an error.\<close>

lemma convert_value_protocols:
  assumes "scalar_for col \<in> {SInt, SBigInt, SBoolean}" and "in_int64 n"
  shows "convert_value sl col (VBytes (show_int n)) = convert_value sl col (VInt64 n) \<and>
    is_ok (convert_value sl col (VInt64 n))"
  using assms parse_show_int [OF assms(2)] show_int_zero [of n] show_int_nonempty [of n]
  by (auto simp: convert_value_def)

text \<open>Numbers carry no white space.\<close>

lemma spaces_no_digit:
  "\<forall>w\<in>set unicode_spaces. w \<noteq> [] \<and> \<not> is_digit (hd w) \<and> hd w \<noteq> CHR ''-'' \<and> \<not> is_digit (last w)"
  by code_simp

lemma skip_spaces_id: "is_digit c \<or> c = CHR ''-'' \<Longrightarrow> skip_spaces n (c # cs) = c # cs"
proof -
  assume c: "is_digit c \<or> c = CHR ''-''"
  have "find (has_prefix (c # cs)) unicode_spaces = None"
    using spaces_no_digit c by (fastforce simp: find_None_iff has_prefix_iff Cons_eq_append_conv)
  then show ?thesis by (cases n) simp_all
qed

lemma drop_end_spaces_id: "s \<noteq> [] \<Longrightarrow> is_digit (last s) \<Longrightarrow> drop_end_spaces n s = s"
proof -
  assume s: "s \<noteq> []" "is_digit (last s)"
  have "\<not> has_suffix s w" if "w \<in> set unicode_spaces" for w
  proof
    assume "has_suffix s w"
    then have "w = drop (length s - length w) s" by (simp add: has_suffix_def)
    then have "last w = last s" using that spaces_no_digit by (metis drop_eq_Nil last_drop linorder_not_le)
    with s that spaces_no_digit show False by auto
  qed
  then have "find (has_suffix s) unicode_spaces = None" by (simp add: find_None_iff)
  then show ?thesis by (cases n) simp_all
qed

lemma show_int_shape: "\<exists>c cs. show_int n = c # cs \<and> (is_digit c \<or> c = CHR ''-'') \<and> is_digit (last (show_int n))"
proof -
  obtain c cs where m: "show_nat (nat \<bar>n\<bar>) = c # cs" using show_nat_nonempty by (cases "show_nat (nat \<bar>n\<bar>)") auto
  then have "list_all is_digit (c # cs)" using show_nat_digits by metis
  then have "is_digit c" "is_digit (last (c # cs))" by (auto simp: list_all_iff)
  with m show ?thesis by (cases "n < 0") (auto simp: show_int_def)
qed

lemma trim_show_int: "trim_space (show_int n) = show_int n"
proof -
  obtain c cs where s: "show_int n = c # cs" "is_digit c \<or> c = CHR ''-''" "is_digit (last (show_int n))"
    using show_int_shape by blast
  have "skip_spaces (length (show_int n)) (show_int n) = show_int n"
    unfolding s(1) by (rule skip_spaces_id [OF s(2)])
  then show ?thesis
    using drop_end_spaces_id [OF _ s(3)] s(1) by (simp add: trim_space_def Let_def del: skip_spaces.simps)
qed



end
