(* ===== verification/SqlGen.thy ===== *)
theory SqlGen
  imports Scalars
begin

text \<open>
  SQL generation (\<open>schema/sqlgen.go\<close>): identifiers, the translation of boolean expressions,
  conditions and their combination, ordering and paging.
\<close>

section \<open>Data\<close>

record table_info =
  ti_table :: table
  ti_access :: table_access
  ti_type_name :: string
  ti_field_to_col :: "string \<rightharpoonup> column"
  ti_col_to_field :: "string \<rightharpoonup> string"

text \<open>The part of \<open>builder\<close> that SQL generation reads, with the standard library it calls.\<close>

record builder =
  b_stdlib :: stdlib
  b_schema :: string
  b_role :: string
  b_default_page :: int
  b_max_page :: int
  b_debug :: bool

record condition =
  c_sql :: string
  c_args :: "gval list"

abbreviation cond :: "string \<Rightarrow> gval list \<Rightarrow> condition" where
  "cond s vs \<equiv> \<lparr>c_sql = s, c_args = vs\<rparr>"

text \<open>A well-formed condition: a closed fragment with a placeholder for each argument.\<close>

definition cond_ok :: "condition \<Rightarrow> bool" where
  "cond_ok c \<longleftrightarrow> closed (c_sql c) (length (c_args c))"

section \<open>Identifiers\<close>

definition quote_ident :: "string \<Rightarrow> string" where
  "quote_ident name = ''`'' @ concat (map (\<lambda>c. if c = CHR ''`'' then ''``'' else [c]) name) @ ''`''"

definition qualified_table :: "builder \<Rightarrow> table \<Rightarrow> string" where
  "qualified_table b t = quote_ident (b_schema b) @ ''.'' @ quote_ident (tbl_name t)"

definition sorted_keys :: "'a gmap \<Rightarrow> string list" where
  "sorted_keys m = sort (map fst m)"

text \<open>The \<open>strings.TrimSuffix(strings.Repeat("?, ", n), ", ")\<close> of the sources.\<close>

definition placeholders :: "nat \<Rightarrow> string" where
  "placeholders n = trim_suffix (concat (replicate n ''?, '')) '', ''"

lemma quote_run:
  "lex_run (LTick, 0, h) (concat (map (\<lambda>c. if c = CHR ''`'' then ''``'' else [c]) name) @ ''`'') =
     Some (LCode, 0, h)"
  by (induction name) (auto simp: code_step_def)

lemma quote_body_inj:
  "concat (map (\<lambda>c. if c = CHR ''`'' then ''``'' else [c]) a) =
     concat (map (\<lambda>c. if c = CHR ''`'' then ''``'' else [c]) b) \<Longrightarrow> a = b"
proof (induction a arbitrary: b)
  case Nil
  then show ?case by (cases b) (auto split: if_splits)
next
  case (Cons x a)
  then show ?case by (cases b) (auto split: if_splits)
qed

lemma quote_closed [lex_intros]: "closed (quote_ident name) 0"
  using quote_run [of 0 name] by (simp add: closed_def quote_ident_def code_step_def)

text \<open>Quoted identifiers are safe. Whatever bytes a table or column name holds, backticks
  included, its quoted form is read back as one token that opens and closes within itself and holds
  no placeholder, and two different names never quote to the same text.\<close>

lemma quote_ident_closed_inj:
  "closed (quote_ident name) 0 \<and> inj quote_ident"
  by (rule conjI [OF quote_closed], rule injI) (auto simp: quote_ident_def dest: quote_body_inj)

lemma quote_scan:
  "t = [] \<or> hd t \<noteq> CHR ''`'' \<Longrightarrow>
     scan_ids LTick acc (concat (map (\<lambda>c. if c = CHR ''`'' then ''``'' else [c]) name) @ CHR ''`'' # t) =
       (acc @ name) # scan_ids LCode [] t"
proof (induction name arbitrary: acc)
  case Nil
  then show ?case by (cases t) auto
next
  case (Cons c name)
  obtain d u where "concat (map (\<lambda>c. if c = CHR ''`'' then ''``'' else [c]) name) @ CHR ''`'' # t = d # u"
    by (cases "concat (map (\<lambda>c. if c = CHR ''`'' then ''``'' else [c]) name)") auto
  with Cons show ?case by simp
qed

lemma quote_reads: "reads (quote_ident name) [name]"
  using quote_scan [of _ "[]" name] by (simp add: reads_def idents_def quote_ident_def)

interpretation sqlid: ident_quoting quote_ident
  by unfold_locales (rule quote_closed, rule quote_reads, auto simp: quote_ident_def dest: quote_body_inj)

lemma placeholders_join: "placeholders n = join '', '' (replicate n ''?'')"
proof (cases n)
  case (Suc m)
  have "concat (replicate m ''?, '') @ ''?, '' = join '', '' (replicate (Suc m) ''?'') @ '', ''"
    by (induction m) (simp_all add: join_Cons)
  moreover have "concat (replicate n ''?, '') = concat (replicate m ''?, '') @ ''?, ''"
    unfolding Suc by (induction m) simp_all
  ultimately show ?thesis by (simp add: placeholders_def trim_suffix_def has_suffix_def Suc)
qed (simp add: placeholders_def trim_suffix_def has_suffix_def)

lemma closed_placeholders [lex_intros]: "closed (placeholders n) n"
  by (simp add: placeholders_join closed_qmarks)

section \<open>Comparisons\<close>

definition binary_ops :: "string \<rightharpoonup> string" where
  "binary_ops = map_of
     [(''_eq'', ''= ?''), (''_neq'', ''<> ?''),
      (''_gt'', ''> ?''), (''_gte'', ''>= ?''),
      (''_lt'', ''< ?''), (''_lte'', ''<= ?''),
      (''_like'', ''LIKE ?''), (''_nlike'', ''NOT LIKE ?''),
      (''_regex'', ''REGEXP ?''), (''_nregex'', ''NOT REGEXP ?'')]"

definition column_cond :: "builder \<Rightarrow> column \<Rightarrow> string \<Rightarrow> gval \<Rightarrow> condition res" where
  "column_cond b col op v =
     (let qc = quote_ident (col_name col); name = col_name col
      in case binary_ops op of
        Some tmpl \<Rightarrow>
          if v = VNil then Inl (Where_Err (Null_Comparison name op))
          else rbind (bind_value (b_stdlib b) col v) (\<lambda>x. Inr (cond (qc @ '' '' @ tmpl) [x]))
      | None \<Rightarrow>
          if op = ''_in'' \<or> op = ''_nin'' then
            (case v of
               VList items \<Rightarrow>
                 if items = [] then Inr (cond (if op = ''_in'' then ''1=0'' else ''1=1'') [])
                 else rbind (mapr (bind_value (b_stdlib b) col) items) (\<lambda>xs.
                   Inr (cond (qc @ '' '' @ (if op = ''_nin'' then ''NOT IN'' else ''IN'') @ '' ('' @
                     placeholders (length items) @ '')'') xs))
             | _ \<Rightarrow> Inl (Where_Err (Expects_List name op)))
          else if op = ''_is_null'' then
            (case v of
               VBool isnull \<Rightarrow> Inr (cond (qc @ (if isnull then '' IS NULL'' else '' IS NOT NULL'')) [])
             | _ \<Rightarrow> Inl (Where_Err (Is_Null_Expects_Bool name)))
          else if op = ''_contains'' then
            rbind (bind_value (b_stdlib b) col v) (\<lambda>x. Inr (cond (''JSON_CONTAINS('' @ qc @ '', ?)'') [x]))
          else if op = ''_has_key'' then
            (case v of
               VStr key \<Rightarrow> Inr (cond (''JSON_CONTAINS_PATH('' @ qc @ '', '' @ [CHR 0x27] @ ''one'' @ [CHR 0x27] @
                 '', CONCAT('' @ [CHR 0x27] @ ''$.'' @ [CHR 0x27] @ '', ?))'') [VStr key])
             | _ \<Rightarrow> Inl (Where_Err (Has_Key_Expects_String name)))
          else Inl (Where_Err (Unsupported_Operator op name)))"

lemma binary_ops_closed: "binary_ops op = Some t \<Longrightarrow> closed ('' '' @ t) 1"
  by (auto simp: binary_ops_def closed_def code_step_def split: if_splits)

lemma lex_quote [simp]: "lex_run (LCode, d, h) (quote_ident n @ t) = lex_run (LCode, d, h) t"
  using lex_closed [OF quote_closed, of d h n] by (simp add: lex_append)

lemma lex_placeholders [simp]: "lex_run (LCode, d, h) (placeholders n @ t) = lex_run (LCode, d, h + n) t"
  using lex_closed [OF closed_placeholders, of d h n] by (simp add: lex_append)

lemma column_cond_ok: "column_cond b col op v = Inr c \<Longrightarrow> cond_ok c"
  using binary_ops_closed [of op] sqlid.quote_closed
  by (auto simp: column_cond_def cond_ok_def Let_def closed_append0
      simp: closed_def code_step_def dest: mapr_length split: option.splits if_splits gval.splits)


section \<open>Boolean expressions\<close>

definition readable :: "table_info \<Rightarrow> column \<Rightarrow> bool" where
  "readable ti col =
     (case ta_select (ti_access ti) of None \<Rightarrow> False | Some oa \<Rightarrow> col_name col \<in> oa_colset oa)"

definition column_conds :: "builder \<Rightarrow> table_info \<Rightarrow> string \<Rightarrow> gval \<Rightarrow> condition list res" where
  "column_conds b ti key v =
     (case ti_field_to_col ti key of
        None \<Rightarrow> Inl (Where_Err (Unknown_Filter_Column key))
      | Some col \<Rightarrow>
          if \<not> readable ti col then Inl (Where_Err (Unknown_Filter_Column key))
          else (case v of
                  VMap ops \<Rightarrow> mapr (\<lambda>op. column_cond b col op (gidx ops op)) (sorted_keys ops)
                | _ \<Rightarrow> Inl (Where_Err (Filter_Not_Operators key))))"

definition paren :: "string \<Rightarrow> string" where
  "paren s = ''('' @ s @ '')''"

definition bool_group :: "string \<Rightarrow> condition list \<Rightarrow> condition list" where
  "bool_group key cs =
     (if cs = [] then []
      else [cond (paren (join (if key = ''_or'' then '' OR '' else '' AND '') (map (\<lambda>c. paren (c_sql c)) cs)))
              (concat (map c_args cs))])"

definition all_of :: "condition list \<Rightarrow> condition" where
  "all_of cs =
     (if cs = [] then cond ''1=1'' []
      else cond (join '' AND '' (map c_sql cs)) (concat (map c_args cs)))"

lemma gidx_size: "gidx m k = v \<Longrightarrow> v \<noteq> VNil \<Longrightarrow> size v < size (VMap m)"
proof (induction m)
  case (Cons kv m)
  then show ?case by (cases kv) (auto simp: gidx_def split: if_splits)
qed (simp add: gidx_def)

lemma list_item_size: "x \<in> set xs \<Longrightarrow> size x < size (VList xs)"
  by (induction xs) auto

text \<open>\<open>whereSQL\<close>. The conditions of one key are its \<open>parts\<close>, in order.\<close>

function where_sql :: "builder \<Rightarrow> table_info \<Rightarrow> gval gmap \<Rightarrow> condition res" where
  "where_sql b ti expr =
     rbind (mapr (\<lambda>key.
         let v = gidx expr key
         in if v = VNil then Inr []
            else if key = ''_and'' \<or> key = ''_or'' then
              (case v of
                 VList items \<Rightarrow>
                   rbind (mapr (\<lambda>item. case item of
                              VMap m \<Rightarrow> where_sql b ti m
                            | _ \<Rightarrow> Inl (Where_Err (Entries_Must_Be_Objects key))) items)
                     (\<lambda>cs. Inr (bool_group key cs))
               | _ \<Rightarrow> Inl (Where_Err (Must_Be_List key)))
            else if key = ''_not'' then
              (case v of
                 VMap m \<Rightarrow> rbind (where_sql b ti m) (\<lambda>c. Inr [cond (''NOT '' @ paren (c_sql c)) (c_args c)])
               | _ \<Rightarrow> Inl (Where_Err Not_Must_Be_Object))
            else column_conds b ti key v) (sorted_keys expr))
       (\<lambda>parts. Inr (all_of (concat parts)))"
  by pat_completeness auto
termination
proof (relation "measure (\<lambda>(b, ti, m). size (VMap m))")
  fix expr :: "gval gmap" and key v items item m
  assume v: "v = gidx expr key" "v \<noteq> VNil" "v = VList items" "item \<in> set items" "item = VMap m"
  show "((b, ti, m), (b, ti, expr)) \<in> measure (\<lambda>(b, ti, m). size (VMap m))" for b :: builder and ti :: table_info
    using gidx_size [OF v(1) [symmetric] v(2)] list_item_size [OF v(4)] unfolding v(3,5) by simp
next
  fix expr :: "gval gmap" and key v m
  assume v: "v = gidx expr key" "v \<noteq> VNil" "v = VMap m"
  show "((b, ti, m), (b, ti, expr)) \<in> measure (\<lambda>(b, ti, m). size (VMap m))" for b :: builder and ti :: table_info
    using gidx_size [OF v(1) [symmetric] v(2)] unfolding v(3) by simp
qed simp

declare where_sql.simps [simp del]


text \<open>Induction along the nesting of a boolean expression.\<close>

lemma where_sql_induct [case_names nested]:
  assumes "\<And>b ti expr. (\<And>m. size (VMap m) < size (VMap expr) \<Longrightarrow> P b ti m) \<Longrightarrow> P b ti expr"
  shows "P b ti expr"
proof (induction expr rule: measure_induct_rule [of "\<lambda>m. size (VMap m)"])
  case (less expr)
  show ?case by (rule assms) (rule less)
qed

text \<open>One key of \<open>whereSQL\<close>, with the recursive calls resolved.\<close>

definition where_key :: "builder \<Rightarrow> table_info \<Rightarrow> gval gmap \<Rightarrow> string \<Rightarrow> condition list res" where
  "where_key b ti expr key =
     (let v = gidx expr key
      in if v = VNil then Inr []
         else if key = ''_and'' \<or> key = ''_or'' then
           (case v of
              VList items \<Rightarrow>
                rbind (mapr (\<lambda>item. case item of
                           VMap m \<Rightarrow> where_sql b ti m
                         | _ \<Rightarrow> Inl (Where_Err (Entries_Must_Be_Objects key))) items)
                  (\<lambda>cs. Inr (bool_group key cs))
            | _ \<Rightarrow> Inl (Where_Err (Must_Be_List key)))
         else if key = ''_not'' then
           (case v of
              VMap m \<Rightarrow> rbind (where_sql b ti m) (\<lambda>c. Inr [cond (''NOT '' @ paren (c_sql c)) (c_args c)])
            | _ \<Rightarrow> Inl (Where_Err Not_Must_Be_Object))
         else column_conds b ti key v)"

lemma where_sql_keys:
  "where_sql b ti expr = rbind (mapr (where_key b ti expr) (sorted_keys expr)) (\<lambda>parts. Inr (all_of (concat parts)))"
  by (subst where_sql.simps) (simp add: where_key_def [abs_def])

text \<open>The cases of a successful key.\<close>

lemma where_key_cases:
  assumes "where_key b ti expr key = Inr cs"
  obtains "gidx expr key = VNil" "cs = []"
  | ms ds where "key = ''_and'' \<or> key = ''_or''" "gidx expr key = VList (map VMap ms)"
      "list_all2 (\<lambda>m d. where_sql b ti m = Inr d) ms ds" "cs = bool_group key ds"
      "\<forall>m\<in>set ms. size (VMap m) < size (VMap expr)"
  | m d where "key = ''_not''" "gidx expr key = VMap m" "where_sql b ti m = Inr d"
      "cs = [cond (''NOT '' @ paren (c_sql d)) (c_args d)]" "size (VMap m) < size (VMap expr)"
  | "column_conds b ti key (gidx expr key) = Inr cs" "key \<notin> {''_and'', ''_or'', ''_not''}"
      "gidx expr key \<noteq> VNil"
proof -
  let ?v = "gidx expr key"
  have size: "?v \<noteq> VNil \<Longrightarrow> size ?v < size (VMap expr)" using gidx_size by blast
  consider "?v = VNil" | "?v \<noteq> VNil" "key = ''_and'' \<or> key = ''_or''"
    | "?v \<noteq> VNil" "key = ''_not''" | "?v \<noteq> VNil" "key \<notin> {''_and'', ''_or'', ''_not''}" by blast
  then show ?thesis
  proof cases
    case 2
    with assms obtain items ds where v: "?v = VList items" and
      ds: "list_all2 (\<lambda>item d. (case item of VMap m \<Rightarrow> where_sql b ti m
             | _ \<Rightarrow> Inl (Where_Err (Entries_Must_Be_Objects key))) = Inr d) items ds" "cs = bool_group key ds"
      by (auto simp: where_key_def Let_def mapr_Inr_iff split: gval.splits)
    from ds(1) have "\<exists>ms. items = map VMap ms \<and> list_all2 (\<lambda>m d. where_sql b ti m = Inr d) ms ds"
    proof (induction rule: list_all2_induct)
      case (Cons x xs y ys)
      then obtain ms where "xs = map VMap ms" "list_all2 (\<lambda>m d. where_sql b ti m = Inr d) ms ys" by blast
      with Cons(1) show ?case by (cases x) (auto intro!: exI [of _ "_ # ms"])
    qed simp
    then obtain ms where ms: "items = map VMap ms" "list_all2 (\<lambda>m d. where_sql b ti m = Inr d) ms ds" by blast
    have "\<forall>m\<in>set ms. size (VMap m) < size (VMap expr)"
      using size 2(1) list_item_size [of _ items] unfolding v ms(1) by fastforce
    with that(2) 2(2) v ms ds(2) show ?thesis by blast
  next
    case 3
    with assms obtain m d where "?v = VMap m" "where_sql b ti m = Inr d"
      "cs = [cond (''NOT '' @ paren (c_sql d)) (c_args d)]"
      by (auto simp: where_key_def Let_def split: gval.splits)
    with that(3) 3 size show ?thesis by metis
  qed (use that(1,4) assms in \<open>auto simp: where_key_def\<close>)
qed


section \<open>Safe conditions\<close>

text \<open>A condition whose placeholders match its arguments and which mentions no column outside a set
  of names. The combinators of the generator keep it.\<close>

definition cond_safe :: "string set \<Rightarrow> condition \<Rightarrow> bool" where
  "cond_safe S c \<longleftrightarrow> cond_ok c \<and> (\<exists>ids. reads (c_sql c) ids \<and> set ids \<subseteq> S)"

lemma cond_safe_idents: "cond_safe S c \<Longrightarrow> cond_ok c \<and> set (idents (c_sql c)) \<subseteq> S"
  by (auto simp: cond_safe_def dest: reads_idents)

lemma cond_safe_mono: "cond_safe S c \<Longrightarrow> S \<subseteq> T \<Longrightarrow> cond_safe T c"
  by (auto simp: cond_safe_def)

lemma closed_Paren: "closed s n \<Longrightarrow> closed (paren s) n"
  unfolding paren_def by (rule closed_paren)

lemma reads_paren: "reads s ids \<Longrightarrow> reads (paren s) ids"
  unfolding paren_def by (rule reads_plain_append) (simp_all add: reads_append_plain)

lemma cond_safe_const: "closed s 0 \<Longrightarrow> plain s \<Longrightarrow> cond_safe S (cond s [])"
  by (auto simp: cond_safe_def cond_ok_def intro: reads_plain)

lemma cond_safe_paren: "cond_safe S c \<Longrightarrow> cond_safe S (cond (paren (c_sql c)) (c_args c))"
  by (auto simp: cond_safe_def cond_ok_def closed_Paren intro: reads_paren)

lemma cond_safe_not: "cond_safe S c \<Longrightarrow> cond_safe S (cond (''NOT '' @ paren (c_sql c)) (c_args c))"
proof -
  assume c: "cond_safe S c"
  have "closed ''NOT '' 0" by (simp add: closed_def code_step_def)
  then have "closed (''NOT '' @ paren (c_sql c)) (length (c_args c))"
    using c by (auto simp: cond_safe_def cond_ok_def simp del: append_Cons intro!: closed_append0 closed_Paren)
  moreover have "reads (''NOT '' @ paren (c_sql c)) ids" if "reads (c_sql c) ids" for ids
    by (rule reads_plain_append) (simp_all add: that reads_paren)
  ultimately show ?thesis using c by (auto simp: cond_safe_def cond_ok_def)
qed

lemma cond_safe_join:
  assumes "\<forall>c\<in>set cs. cond_safe S c" and sep: "closed sep 0" "plain sep" "sep \<noteq> []"
  shows "cond_safe S (cond (join sep (map c_sql cs)) (concat (map c_args cs)))"
proof -
  have "\<exists>idss. list_all2 reads (map c_sql cs) idss \<and> set (concat idss) \<subseteq> S"
    using assms(1)
  proof (induction cs)
    case (Cons c cs)
    then obtain ids idss where "reads (c_sql c) ids" "set ids \<subseteq> S"
      "list_all2 reads (map c_sql cs) idss" "set (concat idss) \<subseteq> S"
      by (auto simp: cond_safe_def)
    then show ?case by (intro exI [of _ "ids # idss"]) auto
  qed simp
  then obtain idss where "list_all2 reads (map c_sql cs) idss" "set (concat idss) \<subseteq> S" by blast
  moreover have "closed (join sep (map c_sql cs)) (sum_list (map (\<lambda>c. length (c_args c)) cs))"
    using assms(1) by (intro closed_join [OF sep(1)]) (simp add: list_all2_conv_all_nth cond_safe_def cond_ok_def)
  moreover have "sum_list (map (\<lambda>c. length (c_args c)) cs) = length (concat (map c_args cs))"
    by (simp add: length_concat comp_def)
  ultimately show ?thesis
    using reads_join [OF sep(2,3), of "map c_sql cs" idss]
    by (simp add: cond_safe_def cond_ok_def) (intro exI [of _ "concat idss"], simp)
qed

lemma plain_seps: "plain '' AND ''" "plain '' OR ''" "plain '', ''"
  by simp_all

lemma cond_safe_all: "\<forall>c\<in>set cs. cond_safe S c \<Longrightarrow> cond_safe S (all_of cs)"
  using cond_safe_join [of cs S "'' AND ''"] cond_safe_const [of "''1=1''" S]
  by (auto simp: all_of_def closed_seps closed_def code_step_def)

lemma cond_safe_group: "\<forall>c\<in>set cs. cond_safe S c \<Longrightarrow> \<forall>c\<in>set (bool_group key cs). cond_safe S c"
proof -
  assume a: "\<forall>c\<in>set cs. cond_safe S c"
  let ?sep = "if key = ''_or'' then '' OR '' else '' AND ''"
  have "\<forall>d\<in>set (map (\<lambda>c. cond (paren (c_sql c)) (c_args c)) cs). cond_safe S d"
    using a by (auto intro: cond_safe_paren)
  from cond_safe_join [OF this, of ?sep]
  have "cond_safe S (cond (join ?sep (map (\<lambda>c. paren (c_sql c)) cs)) (concat (map c_args cs)))"
    by (simp add: closed_seps comp_def)
  from cond_safe_paren [OF this] show ?thesis by (simp add: bool_group_def)
qed

lemma binary_ops_plain: "binary_ops op = Some t \<Longrightarrow> plain ('' '' @ t)"
  by (auto simp: binary_ops_def split: if_splits)

lemma plain_placeholders: "plain (placeholders n)"
  unfolding placeholders_join by (rule plain_join) auto

lemma column_cond_safe:
  assumes "column_cond b col op v = Inr c" and "col_name col \<in> S"
  shows "cond_safe S c"
proof -
  define R where "R s \<longleftrightarrow> (\<exists>ids. reads s ids \<and> set ids \<subseteq> {col_name col})" for s
  have q: "plain t \<Longrightarrow> R (quote_ident (col_name col) @ t)" for t
    unfolding R_def by (rule exI [of _ "[col_name col]"]) (simp add: reads_append_plain quote_reads)
  have lit: "plain t \<Longrightarrow> R t" for t
    unfolding R_def by (rule exI [of _ "[]"]) (simp add: reads_plain)
  have cons: "x \<noteq> CHR ''`'' \<Longrightarrow> x \<noteq> CHR 0x27 \<Longrightarrow> R t \<Longrightarrow> R (x # t)" for x t
    unfolding R_def by (blast intro: reads_Cons)
  have k: "reads ('', '' @ [CHR 0x27] @ ''one'' @ [CHR 0x27] @ '', CONCAT('' @ [CHR 0x27] @ ''$.'' @ [CHR 0x27] @ '', ?))'') []"
    by (simp add: reads_def idents_def)
  have h: "R (quote_ident (col_name col) @ '', '' @ [CHR 0x27] @ ''one'' @ [CHR 0x27] @ '', CONCAT('' @ [CHR 0x27] @ ''$.'' @ [CHR 0x27] @ '', ?))'')"
    unfolding R_def by (rule exI [of _ "[col_name col]"]) (use reads_append [OF quote_reads k] in simp)
  have "R (c_sql c)"
    using assms(1) binary_ops_plain [of op] plain_placeholders
    by (auto simp: column_cond_def Let_def lit split: option.splits if_splits gval.splits
        intro!: q cons h [simplified])
  then show ?thesis using column_cond_ok [OF assms(1)] assms(2) by (auto simp: cond_safe_def R_def)
qed

lemma list_all2_right: "list_all2 P xs ys \<Longrightarrow> y \<in> set ys \<Longrightarrow> \<exists>x\<in>set xs. P x y"
  by (induction rule: list_all2_induct) auto

lemma mapr_in: "mapr f xs = Inr ys \<Longrightarrow> y \<in> set ys \<Longrightarrow> \<exists>x\<in>set xs. f x = Inr y"
  unfolding mapr_Inr_iff by (rule list_all2_right)

lemma column_conds_safe:
  assumes "column_conds b ti key v = Inr cs"
  shows "\<forall>c\<in>set cs. cond_safe {col_name col |col. readable ti col} c"
  using assms
  by (fastforce simp: column_conds_def split: option.splits if_splits gval.splits
      dest: mapr_in intro: column_cond_safe)

lemma where_sql_cond_safe:
  "where_sql b ti expr = Inr c \<Longrightarrow> cond_safe {col_name col |col. readable ti col} c"
proof (induction b ti expr arbitrary: c rule: where_sql_induct)
  case (nested b ti expr)
  let ?S = "{col_name col |col. readable ti col}"
  have key: "\<forall>c\<in>set cs. cond_safe ?S c" if "where_key b ti expr key = Inr cs" for key cs
    using that
  proof (cases rule: where_key_cases)
    case (2 ms ds)
    then have "\<forall>d\<in>set ds. cond_safe ?S d"
      using nested.IH list_all2_right [OF 2(3)] by blast
    with 2(4) show ?thesis using cond_safe_group by simp
  next
    case (3 m d)
    then have "cond_safe ?S d" using nested.IH by blast
    from cond_safe_not [OF this] 3(4) show ?thesis by simp
  next
    case 4
    then show ?thesis using column_conds_safe by blast
  qed simp
  from nested.prems obtain parts where parts: "mapr (where_key b ti expr) (sorted_keys expr) = Inr parts"
    "c = all_of (concat parts)" by (auto simp: where_sql_keys)
  then have "\<forall>c\<in>set (concat parts). cond_safe ?S c"
    using key mapr_in [OF parts(1)] by fastforce
  with parts(2) show ?case using cond_safe_all by simp
qed

lemma where_sql_closed: "where_sql b ti expr = Inr c \<Longrightarrow> cond_ok c"
  using where_sql_cond_safe cond_safe_idents by blast

text \<open>C4: filters from clients are injection-safe and cannot probe hidden columns. When a boolean
  expression, of any shape and nesting, translates at all, the resulting text is closed (it can be
  put in parentheses without capturing anything), has exactly one placeholder for each bound value,
  and every identifier in it is a column the role may read on that table.\<close>

theorem where_sql_safe:
  assumes "where_sql b ti expr = Inr c"
  shows "closed (c_sql c) (length (c_args c)) \<and>
    set (idents (c_sql c)) \<subseteq> {col_name col |col. readable ti col}"
  using cond_safe_idents [OF where_sql_cond_safe [OF assms]] by (simp add: cond_ok_def)

definition demo_info :: table_info where
  "demo_info = \<lparr>ti_table = demo_table,
     ti_access = \<lparr>ta_select = Some demo_op, ta_insert = Some demo_op, ta_update = Some demo_op, ta_delete = None\<rparr>,
     ti_type_name = ''notes'',
     ti_field_to_col = map_of (map (\<lambda>c. (col_name c, c)) demo_columns),
     ti_col_to_field = map_of (map (\<lambda>c. (col_name c, col_name c)) demo_columns)\<rparr>"

definition demo_builder :: builder where
  "demo_builder = \<lparr>b_stdlib = demo_stdlib, b_schema = ''app'', b_role = ''user'', b_default_page = 50,
     b_max_page = 100, b_debug = False\<rparr>"

definition demo_where :: "gval gmap" where
  "demo_where = [(''owner'', VMap [(''_in'', VList [VStr ''a'', VStr ''b''])]),
     (''_or'', VList [VMap [(''id'', VMap [(''_gt'', VInt64 7)])],
                      VMap [(''_not'', VMap [(''meta'', VMap [(''_has_key'', VStr ''x'')])])]])]"

definition demo_where_sql :: string where
  "demo_where_sql = ''((`id` > ?) OR (NOT (JSON_CONTAINS_PATH(`meta`, '' @ [CHR 0x27] @ ''one'' @ [CHR 0x27] @
     '', CONCAT('' @ [CHR 0x27] @ ''$.'' @ [CHR 0x27] @ '', ?))))) AND `owner` IN (?, ?)''"

lemma demo_where_sql: "where_sql demo_builder demo_info demo_where =
    Inr (cond demo_where_sql [VInt64 7, VStr ''x'', VStr ''a'', VStr ''b''])"
  by code_simp

theorem where_sql_safe_witness:
  "closed demo_where_sql 4 \<and> set (idents demo_where_sql) \<subseteq> {col_name col |col. readable demo_info col}"
  using where_sql_safe [OF demo_where_sql] by (simp add: eval_nat_numeral)

section \<open>Row filters and conjunctions\<close>

definition rbac_cond :: "op_access \<Rightarrow> identity \<Rightarrow> condition option res" where
  "rbac_cond oa idn =
     (case oa_filter oa of
        None \<Rightarrow> Inr None
      | Some f \<Rightarrow> rbind (filter_sql f (id_claims idn)) (\<lambda>(s, vs). Inr (Some (cond s vs))))"

definition live_conds :: "condition option list \<Rightarrow> condition list" where
  "live_conds cs = concat (map (\<lambda>c. case c of None \<Rightarrow> [] | Some c \<Rightarrow> if c_sql c = [] then [] else [c]) cs)"

definition combine_conds :: "condition option list \<Rightarrow> condition" where
  "combine_conds cs =
     (let live = live_conds cs
      in if live = [] then cond ''1=1'' []
         else cond (join '' AND '' (map (\<lambda>c. paren (c_sql c)) live)) (concat (map c_args live)))"

lemma set_live: "set (live_conds cs) = {c. Some c \<in> set cs \<and> c_sql c \<noteq> []}"
  by (force simp: live_conds_def split: option.splits if_splits)

lemma closed_one: "closed ''1=1'' 0" "closed ''1=0'' 0"
  by (simp_all add: closed_def code_step_def)

lemma combine_ok: "\<forall>c. Some c \<in> set cs \<longrightarrow> cond_ok c \<Longrightarrow> cond_ok (combine_conds cs)"
proof -
  assume ok: "\<forall>c. Some c \<in> set cs \<longrightarrow> cond_ok c"
  let ?l = "live_conds cs"
  have "closed (join '' AND '' (map (\<lambda>c. paren (c_sql c)) ?l)) (sum_list (map (\<lambda>c. length (c_args c)) ?l))"
    using ok set_live [of cs]
    by (intro closed_join closed_seps) (auto simp: list_all2_conv_all_nth cond_ok_def intro!: closed_Paren dest!: nth_mem)
  then show ?thesis
    by (simp add: combine_conds_def cond_ok_def Let_def closed_one length_concat comp_def)
qed

lemma combine_conjuncts:
  assumes "\<forall>c. Some c \<in> set cs \<longrightarrow> cond_ok c" and "Some c \<in> set cs" "c_sql c \<noteq> []"
  shows "paren (c_sql c) \<in> set (conjuncts (c_sql (combine_conds cs)))"
proof -
  let ?l = "live_conds cs"
  have c: "c \<in> set ?l" using assms(2,3) set_live by blast
  have "\<forall>s\<in>set (map c_sql ?l). \<exists>n. closed s n"
    using assms(1) set_live [of cs] by (auto simp: cond_ok_def)
  from conjuncts_join [OF _ this] c
  have "conjuncts (c_sql (combine_conds cs)) = map (\<lambda>c. paren (c_sql c)) ?l"
    by (auto simp: combine_conds_def Let_def paren_def comp_def)
  then show ?thesis using c by auto
qed

text \<open>The role's row filter cannot be weakened. However the client's condition, the filter and a
  further condition of the resolver are combined, each of them stands in the result as a conjunct of
  its own at the top level: splitting the text at its top-level \<open>AND\<close>s gives back exactly the
  parenthesised conditions, so no part of one can change the reading of another.\<close>

lemma combine_conds_conjuncts:
  assumes "\<forall>c. Some c \<in> set cs \<longrightarrow> cond_ok c" and "live_conds cs \<noteq> []"
  shows "conjuncts (c_sql (combine_conds cs)) = map (\<lambda>c. paren (c_sql c)) (live_conds cs) \<and>
    c_args (combine_conds cs) = concat (map c_args (live_conds cs)) \<and> cond_ok (combine_conds cs)"
proof -
  have "\<forall>s\<in>set (map c_sql (live_conds cs)). \<exists>n. closed s n"
    using assms(1) set_live [of cs] by (auto simp: cond_ok_def)
  from conjuncts_join [OF _ this] assms(2) combine_ok [OF assms(1)] show ?thesis
    by (simp add: combine_conds_def Let_def paren_def comp_def)
qed

section \<open>Ordering\<close>

definition order_pair :: "table_info \<Rightarrow> string \<times> gval \<Rightarrow> (column \<times> string) list res" where
  "order_pair ti kv =
     (case kv of (field, v) \<Rightarrow>
        if v = VNil then Inr []
        else (case ti_field_to_col ti field of
                None \<Rightarrow> Inl (Query_Err (Unknown_Order_Column field))
              | Some col \<Rightarrow>
                  if \<not> readable ti col then Inl (Query_Err (Unknown_Order_Column field))
                  else (case v of
                          VStr dir \<Rightarrow>
                            if dir = ''ASC'' \<or> dir = ''DESC'' then Inr [(col, dir)]
                            else Inl (Query_Err (Bad_Order_Direction field))
                        | _ \<Rightarrow> Inl (Query_Err (Bad_Order_Direction field)))))"

definition order_item :: "table_info \<Rightarrow> gval \<Rightarrow> (column \<times> string) list res" where
  "order_item ti item =
     (case item of
        VMap m \<Rightarrow> rbind (mapr (order_pair ti) m) (\<lambda>ps.
          Inr (sort_key (\<lambda>p. col_ordinal (fst p)) (concat ps)))
      | _ \<Rightarrow> Inl (Query_Err Order_Entry_Not_Object))"

definition order_columns :: "table_info \<Rightarrow> gval list \<Rightarrow> string res" where
  "order_columns ti items =
     rbind (mapr (order_item ti) items) (\<lambda>pss.
       Inr (join '', '' (map (\<lambda>(col, dir). quote_ident (col_name col) @ '' '' @ dir) (concat pss))))"

definition order_sql :: "table_info \<Rightarrow> gval list \<Rightarrow> string res" where
  "order_sql ti items =
     rbind (order_columns ti items) (\<lambda>cols. Inr (if cols = [] then [] else '' ORDER BY '' @ cols))"

definition window_order :: "table_info \<Rightarrow> gval list \<Rightarrow> string list \<Rightarrow> string res" where
  "window_order ti items join_cols =
     rbind (order_columns ti items) (\<lambda>cols.
       if cols \<noteq> [] then Inr cols
       else let fallback = (if tbl_pk (ti_table ti) = [] then join_cols else tbl_pk (ti_table ti))
            in Inr (join '', '' (map quote_ident fallback)))"

lemma order_pair_dir: "order_pair ti kv = Inr ps \<Longrightarrow> (col, dir) \<in> set ps \<Longrightarrow> dir \<in> {''ASC'', ''DESC''} \<and> readable ti col"
  by (auto simp: order_pair_def split: prod.splits option.splits gval.splits if_splits)

lemma order_item_dir: "order_item ti item = Inr ps \<Longrightarrow> (col, dir) \<in> set ps \<Longrightarrow> dir \<in> {''ASC'', ''DESC''} \<and> readable ti col"
  by (fastforce simp: order_item_def split: gval.splits dest: mapr_in order_pair_dir)

lemma order_columns_closed: "order_columns ti items = Inr s \<Longrightarrow> closed s 0"
proof -
  assume "order_columns ti items = Inr s"
  then obtain pss where pss: "mapr (order_item ti) items = Inr pss"
    "s = join '', '' (map (\<lambda>(col, dir). quote_ident (col_name col) @ '' '' @ dir) (concat pss))"
    by (auto simp: order_columns_def)
  have dirs: "closed ('' '' @ ''ASC'') 0" "closed ('' '' @ ''DESC'') 0" by (simp_all add: closed_def code_step_def)
  have "\<forall>(col, dir)\<in>set (concat pss). dir = ''ASC'' \<or> dir = ''DESC''"
    using order_item_dir mapr_in [OF pss(1)] by fastforce
  then have "\<forall>t\<in>set (map (\<lambda>(col, dir). quote_ident (col_name col) @ '' '' @ dir) (concat pss)). closed t 0"
    using closed_append0 [OF quote_closed dirs(1)] closed_append0 [OF quote_closed dirs(2)] by fastforce
  from closed_join0 [OF closed_seps(1) this] pss(2) show ?thesis by simp
qed

lemma order_sql_closed: "order_sql ti items = Inr s \<Longrightarrow> closed s 0"
  using closed_append0 [of "'' ORDER BY ''" _ 0] order_columns_closed
  by (fastforce simp: order_sql_def closed_Nil split: if_splits simp: closed_def code_step_def lex_append)

lemma window_order_closed: "window_order ti items js = Inr s \<Longrightarrow> closed s 0"
  using order_columns_closed sqlid.ident_list
  by (auto simp: window_order_def Let_def split: if_splits)


text \<open>The iteration order of the client's map does not show.\<close>

definition info_ok :: "table_info \<Rightarrow> bool" where
  "info_ok ti \<longleftrightarrow>
     (\<forall>f f' c c'. ti_field_to_col ti f = Some c \<longrightarrow> ti_field_to_col ti f' = Some c' \<longrightarrow>
        col_ordinal c = col_ordinal c' \<longrightarrow> f = f')"

lemma mapr_projr: "mapr f xs = Inr ys \<Longrightarrow> ys = map (\<lambda>x. projr (f x)) xs"
  by (induction xs arbitrary: ys) auto

lemma mapr_perm:
  assumes "mset xs = mset xs'" "mapr f xs = Inr ys"
  obtains ys' where "mapr f xs' = Inr ys'" "mset ys' = mset ys"
proof -
  have "is_ok (mapr f xs')"
    using assms by (metis is_ok_mapr is_ok_simps(2) mset_eq_setD)
  then obtain ys' where ys': "mapr f xs' = Inr ys'" by (auto simp: is_ok_iff)
  have "mset ys' = mset ys"
    using mapr_projr [OF ys'] mapr_projr [OF assms(2)] assms(1) by (metis mset_map)
  with ys' that show thesis by blast
qed

lemma mset_concat_cong: "mset xss = mset yss \<Longrightarrow> mset (concat xss) = mset (concat yss)"
proof -
  have "mset (concat zss) = sum_mset (image_mset mset (mset zss))" for zss :: "'a list list"
    by (induction zss) simp_all
  then show "mset xss = mset yss \<Longrightarrow> mset (concat xss) = mset (concat yss)" by metis
qed

lemma order_pair_inj:
  assumes "gmap_ok m" "info_ok ti" "kv \<in> set m" "kv' \<in> set m"
    and "order_pair ti kv = Inr ps" "order_pair ti kv' = Inr ps'"
    and "p \<in> set ps" "p' \<in> set ps'" "col_ordinal (fst p) = col_ordinal (fst p')"
  shows "p = p'"
proof -
  obtain f v f' v' where kv: "kv = (f, v)" "kv' = (f', v')" by (cases kv; cases kv')
  have "ti_field_to_col ti f = Some (fst p)" "ti_field_to_col ti f' = Some (fst p')"
    using assms(5-8) by (auto simp: kv order_pair_def split: if_splits option.splits gval.splits)
  with assms(2,9) have "f = f'" by (auto simp: info_ok_def)
  then have "kv = kv'" using assms(1,3,4) kv by (auto simp: gmap_ok_def dest: eq_key_imp_eq_value)
  then show ?thesis
    using assms(5-8) by (auto simp: kv order_pair_def split: if_splits option.splits gval.splits)
qed

text \<open>Sort order is deterministic. The fields of one \<open>order_by\<close> object arrive in a Go map,
  which is visited in a random order; the resulting column list is the same for every visiting order,
  because the columns are sorted by their distinct ordinals.\<close>

lemma order_item_deterministic:
  assumes "order_item ti (VMap m) = Inr ps" and "mset m = mset m'" "gmap_ok m" "info_ok ti"
  shows "order_item ti (VMap m') = Inr ps"
proof -
  let ?k = "\<lambda>p :: column \<times> string. col_ordinal (fst p)"
  from assms(1) obtain qs where qs: "mapr (order_pair ti) m = Inr qs" "ps = sort_key ?k (concat qs)"
    by (auto simp: order_item_def)
  obtain qs' where qs': "mapr (order_pair ti) m' = Inr qs'" "mset qs' = mset qs"
    using mapr_perm [OF assms(2) qs(1)] .
  have inj: "inj_on ?k (set (concat qs))"
  proof (rule inj_onI)
    fix p p' assume "p \<in> set (concat qs)" "p' \<in> set (concat qs)" "?k p = ?k p'"
    then obtain l l' where "l \<in> set qs" "p \<in> set l" "l' \<in> set qs" "p' \<in> set l'" by auto
    with mapr_in [OF qs(1)] \<open>?k p = ?k p'\<close> show "p = p'"
      using order_pair_inj [OF assms(3,4)] by meson
  qed
  have "mset (concat qs) = mset (concat qs')"
    by (rule mset_concat_cong [OF qs'(2) [symmetric]])
  then have m: "mset (concat qs) = mset (sort_key ?k (concat qs'))"
    by (simp only: mset_sort)
  have "sort_key ?k (concat qs) = sort_key ?k (concat qs')"
    by (rule sort_key_inj_key_eq [OF m inj]) (rule sorted_sort_key)
  with qs qs' show ?thesis by (simp add: order_item_def)
qed

lemma demo_info_ok: "info_ok demo_info"
proof -
  have "distinct (map col_ordinal demo_columns)" by code_simp
  then have "inj_on col_ordinal (set demo_columns)" by (simp add: distinct_map)
  moreover have "f = col_name c \<and> c \<in> set demo_columns" if "ti_field_to_col demo_info f = Some c" for f c
    using that by (auto simp: demo_info_def dest!: map_of_SomeD simp del: map_of.simps)
  ultimately show ?thesis unfolding info_ok_def inj_on_def by metis
qed

section \<open>Paging\<close>

record list_args =
  la_where :: "gval gmap option"
  la_order :: "gval list option"
  la_limit :: "int option"
  la_offset :: "int option"

text \<open>A nil slice has no elements.\<close>

definition order_items :: "list_args \<Rightarrow> gval list" where
  "order_items la = (case la_order la of None \<Rightarrow> [] | Some os \<Rightarrow> os)"

definition extract_list_args :: "gval gmap \<Rightarrow> list_args" where
  "extract_list_args args =
     \<lparr>la_where = (case gidx args ''where'' of VMap w \<Rightarrow> Some w | _ \<Rightarrow> None),
      la_order = (case gidx args ''order_by'' of VList os \<Rightarrow> Some os | _ \<Rightarrow> None),
      la_limit = (case gidx args ''limit'' of VInt n \<Rightarrow> Some n | _ \<Rightarrow> None),
      la_offset = (case gidx args ''offset'' of VInt n \<Rightarrow> Some n | _ \<Rightarrow> None)\<rparr>"

definition page_bounds :: "builder \<Rightarrow> list_args \<Rightarrow> (int \<times> int) res" where
  "page_bounds b la =
     (let limit = (case la_limit la of None \<Rightarrow> b_default_page b | Some l \<Rightarrow> l)
      in if limit < 0 then Inl (Query_Err Limit_Negative)
         else let limit = (if limit > b_max_page b then b_max_page b else limit);
                  offset = (case la_offset la of None \<Rightarrow> 0 | Some n \<Rightarrow> n)
              in if offset < 0 then Inl (Query_Err Offset_Negative) else Inr (limit, offset))"

definition limit_clause :: "builder \<Rightarrow> list_args \<Rightarrow> (string \<times> gval list) res" where
  "limit_clause b la =
     rbind (page_bounds b la) (\<lambda>(limit, offset).
       Inr (if 0 < offset then ('' LIMIT ? OFFSET ?'', [VInt limit, VInt offset])
            else ('' LIMIT ?'', [VInt limit])))"

definition apply_page :: "builder \<Rightarrow> 'a list \<Rightarrow> list_args \<Rightarrow> 'a list res" where
  "apply_page b rows la =
     rbind (page_bounds b la) (\<lambda>(limit, offset).
       if int (length rows) \<le> offset then Inr []
       else let rows = drop (nat offset) rows
            in if limit < int (length rows)
               then if limit < 0 then Inl (Go_Panic ''slice bounds out of range'')
                    else Inr (take (nat limit) rows)
               else Inr rows)"

lemma page_bounds_range:
  "page_bounds b la = Inr (limit, offset) \<Longrightarrow> 0 \<le> b_max_page b \<Longrightarrow> 0 \<le> limit"
  "page_bounds b la = Inr (limit, offset) \<Longrightarrow> 0 \<le> b_max_page b \<Longrightarrow> 0 \<le> offset"
  by (auto simp: page_bounds_def Let_def split: option.splits if_splits)

text \<open>C15: page sizes are capped. A successful page request never asks for more rows than the
  configured maximum, whatever the client sent, and neither bound is negative, provided the configured
  maximum is not.\<close>

theorem page_bounds_capped:
  assumes "page_bounds b la = Inr (limit, offset)" and "0 \<le> b_max_page b"
  shows "0 \<le> limit \<and> limit \<le> b_max_page b \<and> 0 \<le> offset \<and>
    (\<forall>l. la_limit la = Some l \<longrightarrow> limit = min l (b_max_page b)) \<and>
    (la_limit la = None \<longrightarrow> limit = min (b_default_page b) (b_max_page b))"
  using assms by (auto simp: page_bounds_def Let_def split: option.splits if_splits)

theorem page_bounds_capped_witness:
  "page_bounds demo_builder \<lparr>la_where = None, la_order = None, la_limit = Some 100000, la_offset = Some 3\<rparr> = Inr (100, 3) \<and>
   (100 :: int) \<le> b_max_page demo_builder"
proof -
  have "page_bounds demo_builder \<lparr>la_where = None, la_order = None, la_limit = Some 100000, la_offset = Some 3\<rparr> = Inr (100, 3)"
    by code_simp
  from page_bounds_capped [OF this] this show ?thesis by (simp add: demo_builder_def)
qed

text \<open>The batched page of a relation is the page a query of its own would return. Cutting the
  rows of one parent to the first \<open>limit + offset\<close> in the windowed query and paging the rest in
  memory gives the same rows as paging the whole group, and both are \<open>LIMIT limit OFFSET offset\<close>.\<close>

lemma apply_page_window:
  assumes "page_bounds b la = Inr (limit, offset)" and "0 \<le> b_max_page b"
  shows "apply_page b (take (nat (limit + offset)) rows) la = apply_page b rows la \<and>
    apply_page b rows la = Inr (take (nat limit) (drop (nat offset) rows))"
proof -
  have r: "0 \<le> limit" "0 \<le> offset"
    using page_bounds_range [OF assms] by simp_all
  have page: "apply_page b xs la = Inr (take (nat limit) (drop (nat offset) xs))" for xs
    using r by (auto simp: apply_page_def assms(1) Let_def nat_le_iff of_nat_diff)
  have "take (nat limit) (drop (nat offset) (take (nat (limit + offset)) rows)) =
      take (nat limit) (drop (nat offset) rows)"
    using r by (simp add: drop_take nat_add_distrib)
  then show ?thesis by (simp add: page)
qed

end
