(* ===== verification/Queries.thy ===== *)
theory Queries
  imports SqlGen
begin

text \<open>
  The statements of the read path (\<open>schema/sqlgen.go\<close>): single selects, keyset pages, batched
  selects by key, counts, and the mapping of result rows. The database is a parameter: a function from
  a query and its arguments to the raw rows, or an error.
\<close>

type_synonym row = "gval gmap"
type_synonym query_db = "string \<Rightarrow> gval list \<Rightarrow> gval list list res"

section \<open>Conditions of the resolvers\<close>

definition select_list :: "column list \<Rightarrow> string" where
  "select_list cols = join '', '' (map (\<lambda>c. quote_ident (col_name c)) cols)"

definition pk_order_clause :: "table_info \<Rightarrow> string" where
  "pk_order_clause ti =
     '' ORDER BY '' @ join '', '' (map (\<lambda>pk. quote_ident pk @ '' ASC'') (tbl_pk (ti_table ti)))"

definition keyset_condition :: "string list \<Rightarrow> string list \<Rightarrow> condition" where
  "keyset_condition pk_cols vals =
     (case pk_cols of
        [c] \<Rightarrow> cond (quote_ident c @ '' > ?'') (map VStr vals)
      | _ \<Rightarrow> cond (''('' @ join '', '' (map quote_ident pk_cols) @ '') > ('' @ placeholders (length pk_cols) @ '')'')
              (map VStr vals))"

definition in_condition :: "string list \<Rightarrow> gval list list \<Rightarrow> condition res" where
  "in_condition cols keys =
     (if keys = [] then Inr (cond ''1=0'' [])
      else (case cols of
              [c] \<Rightarrow>
                if [] \<in> set keys then Inl (Go_Panic ''index out of range'')
                else Inr (cond (quote_ident c @ '' IN ('' @ placeholders (length keys) @ '')'') (map hd keys))
            | _ \<Rightarrow>
                let tuple = ''('' @ placeholders (length cols) @ '')''
                in Inr (cond (''('' @ join '', '' (map quote_ident cols) @ '') IN ('' @
                          join '', '' (map (\<lambda>_. tuple) keys) @ '')'') (concat keys))))"

definition pk_cond :: "builder \<Rightarrow> table_info \<Rightarrow> gval gmap \<Rightarrow> condition res" where
  "pk_cond b ti args =
     rbind (mapr (\<lambda>pk.
         let field = (case ti_col_to_field ti pk of Some f \<Rightarrow> f | None \<Rightarrow> []);
             v = gidx args field
         in if v = VNil then Inl (Query_Err (Missing_PK_Argument field))
            else (case tbl_colmap (ti_table ti) pk of
                    None \<Rightarrow> Inl (Go_Panic ''nil column'')
                  | Some col \<Rightarrow> rbind (bind_value (b_stdlib b) col v) (\<lambda>x. Inr (col, x))))
        (tbl_pk (ti_table ti)))
       (\<lambda>cs. Inr (cond (join '' AND '' (map (\<lambda>(col, x). quote_ident (col_name col) @ '' = ?'') cs)) (map snd cs)))"

section \<open>Rows\<close>

definition no_rows :: gerr where
  "no_rows = Ext_Error ''sql: no rows in result set''"

definition db_err :: "builder \<Rightarrow> gerr \<Rightarrow> gerr" where
  "db_err b e = (if b_debug b then e else if e = no_rows then e else DB_Masked)"

definition scan_row :: "builder \<Rightarrow> column list \<Rightarrow> gval list \<Rightarrow> row res" where
  "scan_row b cols vals =
     (if length vals \<noteq> length cols then Inl (db_err b (Ext_Error ''sql: destination arguments in Scan''))
      else (case mapr (\<lambda>(c, v). rbind (convert_value (b_stdlib b) c v) (\<lambda>x. Inr (col_name c, x))) (zip cols vals) of
              Inl e \<Rightarrow> Inl (db_err b e)
            | Inr kvs \<Rightarrow> Inr (foldl (\<lambda>m (k, v). gput k v m) [] kvs)))"

definition scan_rows :: "builder \<Rightarrow> query_db \<Rightarrow> column list \<Rightarrow> string \<Rightarrow> gval list \<Rightarrow> row list res" where
  "scan_rows b db cols query args =
     (case db query args of
        Inl e \<Rightarrow> Inl (db_err b e)
      | Inr rows \<Rightarrow> mapr (scan_row b cols) rows)"

section \<open>Statements\<close>

definition user_cond :: "builder \<Rightarrow> table_info \<Rightarrow> gval gmap option \<Rightarrow> condition option res" where
  "user_cond b ti w =
     (case w of None \<Rightarrow> Inr None | Some w \<Rightarrow> rbind (where_sql b ti w) (\<lambda>c. Inr (Some c)))"

definition select_from :: "builder \<Rightarrow> table_info \<Rightarrow> op_access \<Rightarrow> string" where
  "select_from b ti sel =
     ''SELECT '' @ select_list (oa_columns sel) @ '' FROM '' @ qualified_table b (ti_table ti)"

definition select_denied :: "builder \<Rightarrow> table_info \<Rightarrow> gerr" where
  "select_denied b ti = Write_Err (Not_Permitted ''select'' (tbl_name (ti_table ti)) (b_role b))"

definition select_query :: "builder \<Rightarrow> table_info \<Rightarrow> identity \<Rightarrow> list_args \<Rightarrow> condition option \<Rightarrow> bool
    \<Rightarrow> (column list \<times> string \<times> gval list) res" where
  "select_query b ti idn la extra single =
     (case ta_select (ti_access ti) of
        None \<Rightarrow> Inl (select_denied b ti)
      | Some sel \<Rightarrow>
          rbind (user_cond b ti (la_where la)) (\<lambda>uc.
          rbind (rbac_cond sel idn) (\<lambda>fc.
          let w = combine_conds [uc, fc, extra] in
          rbind (order_sql ti (order_items la)) (\<lambda>order.
          rbind (if single then Inr ('' LIMIT 1'', []) else limit_clause b la) (\<lambda>(limit, limit_args).
            Inr (oa_columns sel, select_from b ti sel @ '' WHERE '' @ c_sql w @ order @ limit,
                 c_args w @ limit_args))))))"

definition run_select :: "builder \<Rightarrow> query_db \<Rightarrow> table_info \<Rightarrow> identity \<Rightarrow> list_args \<Rightarrow> condition option \<Rightarrow> bool
    \<Rightarrow> row list res" where
  "run_select b db ti idn la extra single =
     rbind (select_query b ti idn la extra single) (\<lambda>(cols, q, args). scan_rows b db cols q args)"

definition keyset_query :: "builder \<Rightarrow> table_info \<Rightarrow> identity \<Rightarrow> gval gmap option \<Rightarrow> condition option \<Rightarrow> int
    \<Rightarrow> (column list \<times> string \<times> gval list) res" where
  "keyset_query b ti idn user_where after limit =
     (case ta_select (ti_access ti) of
        None \<Rightarrow> Inl (select_denied b ti)
      | Some sel \<Rightarrow>
          rbind (user_cond b ti user_where) (\<lambda>uc.
          rbind (rbac_cond sel idn) (\<lambda>fc.
          let w = combine_conds [uc, fc, after]
          in Inr (oa_columns sel, select_from b ti sel @ '' WHERE '' @ c_sql w @ pk_order_clause ti @ '' LIMIT ?'',
                  c_args w @ [VInt limit]))))"

definition run_keyset_page :: "builder \<Rightarrow> query_db \<Rightarrow> table_info \<Rightarrow> identity \<Rightarrow> gval gmap option \<Rightarrow> condition option
    \<Rightarrow> int \<Rightarrow> row list res" where
  "run_keyset_page b db ti idn user_where after limit =
     rbind (keyset_query b ti idn user_where after limit) (\<lambda>(cols, q, args). scan_rows b db cols q args)"

definition keys_query :: "builder \<Rightarrow> table_info \<Rightarrow> identity \<Rightarrow> string list \<Rightarrow> gval list list \<Rightarrow> gval gmap option
    \<Rightarrow> gval list \<Rightarrow> int \<Rightarrow> (column list \<times> string \<times> gval list) res" where
  "keys_query b ti idn join_cols keys user_where order_by per_key =
     (case ta_select (ti_access ti) of
        None \<Rightarrow> Inl (select_denied b ti)
      | Some sel \<Rightarrow>
          rbind (in_condition join_cols keys) (\<lambda>ic.
          rbind (user_cond b ti user_where) (\<lambda>uc.
          rbind (rbac_cond sel idn) (\<lambda>fc.
          let w = combine_conds [Some ic, uc, fc] in
          rbind (order_sql ti order_by) (\<lambda>order.
            if 0 < per_key then
              rbind (window_order ti order_by join_cols) (\<lambda>win.
                let inner = ''SELECT '' @ select_list (oa_columns sel) @
                      '', ROW_NUMBER() OVER (PARTITION BY '' @ join '', '' (map quote_ident join_cols) @
                      '' ORDER BY '' @ win @ '') AS __gqlgate_rn'' @ '' FROM '' @ qualified_table b (ti_table ti) @
                      '' WHERE '' @ c_sql w
                in Inr (oa_columns sel,
                     ''SELECT '' @ select_list (oa_columns sel) @ '' FROM ('' @ inner @
                       '') AS __gqlgate_w WHERE __gqlgate_rn <= ?'' @ order,
                     c_args w @ [VInt per_key]))
            else Inr (oa_columns sel, select_from b ti sel @ '' WHERE '' @ c_sql w @ order, c_args w))))))"

definition run_select_by_keys :: "builder \<Rightarrow> query_db \<Rightarrow> table_info \<Rightarrow> identity \<Rightarrow> string list \<Rightarrow> gval list list
    \<Rightarrow> gval gmap option \<Rightarrow> gval list \<Rightarrow> int \<Rightarrow> row list res" where
  "run_select_by_keys b db ti idn join_cols keys user_where order_by per_key =
     rbind (keys_query b ti idn join_cols keys user_where order_by per_key)
       (\<lambda>(cols, q, args). scan_rows b db cols q args)"

definition count_query :: "builder \<Rightarrow> table_info \<Rightarrow> identity \<Rightarrow> gval gmap option \<Rightarrow> (string \<times> gval list) res" where
  "count_query b ti idn w =
     rbind (user_cond b ti w) (\<lambda>uc.
       case ta_select (ti_access ti) of
         None \<Rightarrow> Inl (Go_Panic ''nil operation'')
       | Some sel \<Rightarrow>
           rbind (rbac_cond sel idn) (\<lambda>fc.
             let c = combine_conds [uc, fc]
             in Inr (''SELECT COUNT(*) FROM '' @ qualified_table b (ti_table ti) @ '' WHERE '' @ c_sql c, c_args c)))"

definition run_count :: "builder \<Rightarrow> query_db \<Rightarrow> table_info \<Rightarrow> identity \<Rightarrow> gval gmap option \<Rightarrow> int res" where
  "run_count b db ti idn w =
     rbind (count_query b ti idn w) (\<lambda>(q, args).
       case db q args of
         Inr ([VInt64 n] # _) \<Rightarrow> Inr n
       | Inr [] \<Rightarrow> Inl (db_err b no_rows)
       | Inr _ \<Rightarrow> Inl (db_err b (Ext_Error ''sql: Scan error''))
       | Inl e \<Rightarrow> Inl (db_err b e))"

section \<open>Every read is guarded\<close>

text \<open>What may stand behind the condition of a statement.\<close>

definition where_ends :: "string \<Rightarrow> bool" where
  "where_ends t \<longleftrightarrow> t = [] \<or> has_prefix t '' ORDER BY '' \<or> has_prefix t '' LIMIT '' \<or> has_prefix t '')''"

definition guarded :: "op_access \<Rightarrow> identity \<Rightarrow> string \<Rightarrow> gval list \<Rightarrow> bool" where
  "guarded oa idn q args \<longleftrightarrow>
     closed q (length args) \<and>
     (\<exists>pre w tail n. q = pre @ '' WHERE '' @ w @ tail \<and> closed w n \<and> where_ends tail \<and>
        (\<forall>f. oa_filter oa = Some f \<longrightarrow>
           (\<exists>s vs. filter_sql f (id_claims idn) = Inr (s, vs) \<and> paren s \<in> set (conjuncts w))))"

definition filters_wf :: "op_access \<Rightarrow> bool" where
  "filters_wf oa \<longleftrightarrow> (\<forall>f. oa_filter oa = Some f \<longrightarrow> filter_wf f)"

lemma user_cond_ok: "user_cond b ti w = Inr (Some c) \<Longrightarrow> cond_ok c"
  using where_sql_closed by (auto simp: user_cond_def split: option.splits)

lemma rbac_cond_ok:
  "filters_wf oa \<Longrightarrow> rbac_cond oa idn = Inr (Some c) \<Longrightarrow> cond_ok c \<and> c_sql c \<noteq> []"
  using filter_sql_lex filter_sql_nonempty
  by (fastforce simp: rbac_cond_def filters_wf_def cond_ok_def split: option.splits)

text \<open>The combination of the caller's, the role's and the resolver's condition.\<close>

lemma combined_guard:
  assumes "filters_wf oa" "rbac_cond oa idn = Inr fc" "fc \<in> set cs"
    and "\<forall>c. Some c \<in> set cs \<longrightarrow> cond_ok c"
  shows "closed (c_sql (combine_conds cs)) (length (c_args (combine_conds cs))) \<and>
    (\<forall>f. oa_filter oa = Some f \<longrightarrow> (\<exists>s vs. filter_sql f (id_claims idn) = Inr (s, vs) \<and>
       paren s \<in> set (conjuncts (c_sql (combine_conds cs)))))"
proof (intro conjI allI impI)
  show "closed (c_sql (combine_conds cs)) (length (c_args (combine_conds cs)))"
    using combine_ok [OF assms(4)] by (simp add: cond_ok_def)
next
  fix f assume f: "oa_filter oa = Some f"
  with assms(2) obtain s vs where s: "filter_sql f (id_claims idn) = Inr (s, vs)" "fc = Some (cond s vs)"
    by (auto simp: rbac_cond_def)
  have "s \<noteq> []" using f s(1) assms(1) filter_sql_nonempty by (simp add: filters_wf_def)
  with combine_conjuncts [OF assms(4), of "cond s vs"] assms(3) s
  show "\<exists>s vs. filter_sql f (id_claims idn) = Inr (s, vs) \<and> paren s \<in> set (conjuncts (c_sql (combine_conds cs)))"
    by auto
qed

lemma guardedI:
  assumes "filters_wf oa" "rbac_cond oa idn = Inr fc" "fc \<in> set cs"
    and "\<forall>c. Some c \<in> set cs \<longrightarrow> cond_ok c" and "where_ends tail"
    and "closed (pre @ '' WHERE '' @ c_sql (combine_conds cs) @ tail) (length args)"
  shows "guarded oa idn (pre @ '' WHERE '' @ c_sql (combine_conds cs) @ tail) args"
  using combined_guard [OF assms(1-4)] assms(5,6) unfolding guarded_def by blast

lemma select_list_closed: "closed (select_list cols) 0"
  using sqlid.ident_list [of "map col_name cols"] by (simp add: select_list_def comp_def)

lemma qualified_closed: "closed (qualified_table b t) 0"
  unfolding qualified_table_def by (rule sqlid.qualified_name)

text \<open>Reading on behind a closed fragment.\<close>

lemma lex_frags [simp]:
  "lex_run (LCode, d, h) (select_list cols @ t) = lex_run (LCode, d, h) t"
  "lex_run (LCode, d, h) (qualified_table b tb @ t) = lex_run (LCode, d, h) t"
  "lex_run (LCode, d, h) (join '', '' (map quote_ident ns) @ t) = lex_run (LCode, d, h) t"
  using lex_closed [OF select_list_closed, of d h cols] lex_closed [OF qualified_closed, of d h b tb]
    lex_closed [OF sqlid.ident_list, of d h ns]
  by (simp_all add: lex_append)

lemma lex_closed_append: "closed s n \<Longrightarrow> lex_run (LCode, d, h) (s @ t) = lex_run (LCode, d, h + n) t"
  using lex_closed [of s n d h] by (simp add: lex_append)

lemma pk_order_closed: "closed (pk_order_clause ti) 0"
proof -
  have "closed '' ASC'' 0" "closed '' ORDER BY '' 0" by (simp_all add: closed_def code_step_def)
  then show ?thesis
    unfolding pk_order_clause_def by (intro closed_append0 sqlid.quoted_suffixed_list)
qed

lemma order_sql_ends: "order_sql ti os = Inr s \<Longrightarrow> s = [] \<or> has_prefix s '' ORDER BY ''"
  by (auto simp: order_sql_def has_prefix_iff split: if_splits)

lemma limit_clause_closed:
  "limit_clause b la = Inr (s, vs) \<Longrightarrow> closed s (length vs) \<and> has_prefix s '' LIMIT ''"
  by (auto simp: limit_clause_def closed_def code_step_def has_prefix_def split: if_splits)

lemma where_ends_append: "s = [] \<or> has_prefix s '' ORDER BY '' \<Longrightarrow> where_ends t \<Longrightarrow> where_ends (s @ t)"
  by (auto simp: where_ends_def has_prefix_iff)

lemma select_from_closed: "closed (select_from b ti sel) 0"
  by (simp add: select_from_def closed_def code_step_def)
    (simp add: lex_closed_append [OF qualified_closed, of _ _ _ _ "[]", simplified])

lemma closed_where: "closed '' WHERE '' 0"
  by (simp add: closed_def code_step_def)

lemma closed_statement:
  "closed w n \<Longrightarrow> closed t m \<Longrightarrow> closed (select_from b ti sel @ '' WHERE '' @ w @ t) (n + m)"
  by (rule closed_append0 [OF select_from_closed closed_append0 [OF closed_where closed_append]])

lemma select_query_guarded:
  assumes "select_query b ti idn la extra single = Inr (cols, q, args)"
    and "ta_select (ti_access ti) = Some sel" "filters_wf sel" "\<forall>c. extra = Some c \<longrightarrow> cond_ok c"
  shows "cols = oa_columns sel \<and> guarded sel idn q args"
proof -
  from assms(1,2) obtain uc fc order limit largs where q: "user_cond b ti (la_where la) = Inr uc"
    "rbac_cond sel idn = Inr fc" "order_sql ti (order_items la) = Inr order"
    "(if single then Inr ('' LIMIT 1'', []) else limit_clause b la) = Inr (limit, largs)"
    "cols = oa_columns sel"
    "q = select_from b ti sel @ '' WHERE '' @ c_sql (combine_conds [uc, fc, extra]) @ order @ limit"
    "args = c_args (combine_conds [uc, fc, extra]) @ largs"
    by (auto simp: select_query_def Let_def)
  have ok: "\<forall>c. Some c \<in> set [uc, fc, extra] \<longrightarrow> cond_ok c"
    using user_cond_ok q(1) rbac_cond_ok [OF assms(3)] q(2) assms(4) by auto
  have lim: "closed limit (length largs) \<and> has_prefix limit '' LIMIT ''"
    using q(4) limit_clause_closed [of b la limit largs]
    by (auto simp: closed_def code_step_def has_prefix_def split: if_splits)
  have "where_ends limit" using lim by (simp add: where_ends_def)
  then have ends: "where_ends (order @ limit)"
    by (rule where_ends_append [OF order_sql_ends [OF q(3)]])
  have "closed (c_sql (combine_conds [uc, fc, extra])) (length (c_args (combine_conds [uc, fc, extra])))"
    using combine_ok [OF ok] by (simp add: cond_ok_def)
  from closed_statement [OF this closed_append0 [OF order_sql_closed [OF q(3)] conjunct1 [OF lim]]]
  have "closed q (length args)" unfolding q(6,7) length_append .
  with guardedI [OF assms(3) q(2) _ ok ends, of "select_from b ti sel" args] q(5,6) show ?thesis by simp
qed

lemma keyset_query_guarded:
  assumes "keyset_query b ti idn w after limit = Inr (cols, q, args)"
    and "ta_select (ti_access ti) = Some sel" "filters_wf sel" "\<forall>c. after = Some c \<longrightarrow> cond_ok c"
  shows "cols = oa_columns sel \<and> guarded sel idn q args"
proof -
  let ?t = "pk_order_clause ti @ '' LIMIT ?''"
  from assms(1,2) obtain uc fc where q: "user_cond b ti w = Inr uc" "rbac_cond sel idn = Inr fc"
    "cols = oa_columns sel"
    "q = select_from b ti sel @ '' WHERE '' @ c_sql (combine_conds [uc, fc, after]) @ ?t"
    "args = c_args (combine_conds [uc, fc, after]) @ [VInt limit]"
    by (auto simp: keyset_query_def Let_def)
  have ok: "\<forall>c. Some c \<in> set [uc, fc, after] \<longrightarrow> cond_ok c"
    using user_cond_ok q(1) rbac_cond_ok [OF assms(3)] q(2) assms(4) by auto
  have ends: "where_ends ?t" by (simp add: where_ends_def pk_order_clause_def has_prefix_def)
  have "closed '' LIMIT ?'' 1" by (simp add: closed_def code_step_def)
  then have "closed ?t 1" by (intro closed_append0 pk_order_closed)
  moreover have "closed (c_sql (combine_conds [uc, fc, after])) (length (c_args (combine_conds [uc, fc, after])))"
    using combine_ok [OF ok] by (simp add: cond_ok_def)
  ultimately have "closed q (length args)"
    unfolding q(4,5) length_append using closed_statement by fastforce
  with guardedI [OF assms(3) q(2) _ ok ends, of "select_from b ti sel" args] q(3,4) show ?thesis by simp
qed

lemma keys_query_guarded:
  assumes "keys_query b ti idn js keys w os per_key = Inr (cols, q, args)"
    and "ta_select (ti_access ti) = Some sel" "filters_wf sel"
    and keys_ok: "\<forall>c. in_condition js keys = Inr c \<longrightarrow> cond_ok c"
  shows "cols = oa_columns sel \<and> guarded sel idn q args"
proof -
  from assms(1,2) obtain ic uc fc order where q: "in_condition js keys = Inr ic" "user_cond b ti w = Inr uc"
    "rbac_cond sel idn = Inr fc" "order_sql ti os = Inr order"
    by (auto simp: keys_query_def Let_def)
  let ?w = "combine_conds [Some ic, uc, fc]"
  have ok: "\<forall>c. Some c \<in> set [Some ic, uc, fc] \<longrightarrow> cond_ok c"
    using user_cond_ok q(2) rbac_cond_ok [OF assms(3)] q(3) keys_ok q(1) by auto
  have cw: "closed (c_sql ?w) (length (c_args ?w))" using combine_ok [OF ok] by (simp add: cond_ok_def)
  note ord = order_sql_closed [OF q(4)]
  show ?thesis
  proof (cases "0 < per_key")
    case False
    with assms(1,2) q have a: "cols = oa_columns sel"
      "q = select_from b ti sel @ '' WHERE '' @ c_sql ?w @ order" "args = c_args ?w"
      by (simp_all add: keys_query_def Let_def)
    have "where_ends order" using order_sql_ends [OF q(4)] by (auto simp: where_ends_def)
    moreover have "closed q (length args)"
      unfolding a(2,3) using closed_statement [OF cw ord] by simp
    ultimately show ?thesis
      using guardedI [OF assms(3) q(3) _ ok, of order "select_from b ti sel" args] a by simp
  next
    case True
    with assms(1,2) q obtain win where win: "window_order ti os js = Inr win"
      by (auto simp: keys_query_def Let_def)
    let ?pre = "''SELECT '' @ select_list (oa_columns sel) @ '' FROM (SELECT '' @ select_list (oa_columns sel) @
      '', ROW_NUMBER() OVER (PARTITION BY '' @ join '', '' (map quote_ident js) @
      '' ORDER BY '' @ win @ '') AS __gqlgate_rn FROM '' @ qualified_table b (ti_table ti)"
    let ?tail = "'') AS __gqlgate_w WHERE __gqlgate_rn <= ?'' @ order"
    from True assms(1,2) q win have a: "cols = oa_columns sel"
      "q = ?pre @ '' WHERE '' @ c_sql ?w @ ?tail" "args = c_args ?w @ [VInt per_key]"
      by (auto simp: keys_query_def Let_def)
    have "closed q (length args)"
      unfolding closed_def a(2,3)
      by (simp add: code_step_def lex_closed_append [OF window_order_closed [OF win]] lex_closed_append [OF cw]
          lex_closed [OF ord])
    then have c: "closed (?pre @ '' WHERE '' @ c_sql ?w @ ?tail) (length args)" unfolding a(2) .
    have ends: "where_ends ?tail" by (simp add: where_ends_def has_prefix_def)
    have "fc \<in> set [Some ic, uc, fc]" by simp
    from guardedI [OF assms(3) q(3) this ok ends c] show ?thesis unfolding a(1,2) by blast
  qed
qed

lemma count_query_guarded:
  assumes "count_query b ti idn w = Inr (q, args)"
    and "ta_select (ti_access ti) = Some sel" "filters_wf sel"
  shows "guarded sel idn q args"
proof -
  let ?pre = "''SELECT COUNT(*) FROM '' @ qualified_table b (ti_table ti)"
  from assms(1,2) obtain uc fc where q: "user_cond b ti w = Inr uc" "rbac_cond sel idn = Inr fc"
    "q = ?pre @ '' WHERE '' @ c_sql (combine_conds [uc, fc]) @ []" "args = c_args (combine_conds [uc, fc])"
    by (auto simp: count_query_def Let_def)
  have ok: "\<forall>c. Some c \<in> set [uc, fc] \<longrightarrow> cond_ok c"
    using user_cond_ok q(1) rbac_cond_ok [OF assms(3)] q(2) by auto
  have cw: "closed (c_sql (combine_conds [uc, fc])) (length (c_args (combine_conds [uc, fc])))"
    using combine_ok [OF ok] by (simp add: cond_ok_def)
  have "closed q (length args)"
    unfolding closed_def q(3,4) by (simp add: code_step_def lex_closed [OF cw])
  with guardedI [OF assms(3) q(2) _ ok, of "[]" ?pre args] q(3) show ?thesis by (simp add: where_ends_def)
qed

text \<open>The conditions the resolvers add are closed.\<close>

lemma keyset_condition_ok: "length vals = length pks \<Longrightarrow> cond_ok (keyset_condition pks vals)"
proof -
  assume l: "length vals = length pks"
  have "closed (''('' @ join '', '' (map quote_ident pks) @ '') > ('' @ placeholders n @ '')'') n" for n
    by (simp add: closed_def code_step_def)
  moreover have "closed (quote_ident c @ '' > ?'') 1" for c
    by (simp add: closed_def code_step_def)
  ultimately show ?thesis
    using l by (cases "length pks = 1") (auto simp: keyset_condition_def cond_ok_def length_Suc_conv split: list.splits)
qed

lemma in_condition_ok:
  assumes "in_condition cols keys = Inr c" and "\<forall>k\<in>set keys. length k = length cols"
  shows "cond_ok c"
proof -
  let ?tuple = "''('' @ placeholders (length cols) @ '')''"
  have "closed ?tuple (length cols)" using closed_paren [OF closed_placeholders] by simp
  then have "closed (join '', '' (map (\<lambda>_. ?tuple) keys)) (sum_list (map (\<lambda>_. length cols) keys))"
    by (intro closed_join closed_seps) (simp add: list_all2_conv_all_nth)
  moreover have "sum_list (map (\<lambda>_. length cols) keys) = length (concat keys)"
    using assms(2) by (simp add: length_concat cong: map_cong)
  ultimately have j: "closed (join '', '' (map (\<lambda>_. ?tuple) keys)) (length (concat keys))" by simp
  have many: "closed (''('' @ join '', '' (map quote_ident cols) @ '') IN ('' @
      join '', '' (map (\<lambda>_. ?tuple) keys) @ '')'') (length (concat keys))"
    using lex_closed_append [OF j, of "Suc 0" 0 "'')''"] by (simp add: closed_def code_step_def)
  have one: "closed (quote_ident x @ '' IN ('' @ placeholders n @ '')'') n" for x n
    by (simp add: closed_def code_step_def)
  have "(if keys = [] then Inr (cond ''1=0'' [])
      else (case cols of
              [c] \<Rightarrow>
                if [] \<in> set keys then Inl (Go_Panic ''index out of range'')
                else Inr (cond (quote_ident c @ '' IN ('' @ placeholders (length keys) @ '')'') (map hd keys))
            | _ \<Rightarrow> Inr (cond (''('' @ join '', '' (map quote_ident cols) @ '') IN ('' @
                          join '', '' (map (\<lambda>_. ?tuple) keys) @ '')'') (concat keys)))) = Inr c"
    using assms(1) unfolding in_condition_def Let_def .
  then consider "c = cond ''1=0'' []"
    | x where "c = cond (quote_ident x @ '' IN ('' @ placeholders (length keys) @ '')'') (map hd keys)"
    | "c = cond (''('' @ join '', '' (map quote_ident cols) @ '') IN ('' @
        join '', '' (map (\<lambda>_. ?tuple) keys) @ '')'') (concat keys)"
    by (cases cols rule: list.exhaust; cases "tl cols") (auto split: if_splits)
  then show ?thesis
    by cases (use one many in \<open>simp_all add: cond_ok_def closed_one\<close>)
qed



section \<open>Rows\<close>

text \<open>Rows hold the readable columns and nothing else. A row that a statement returns has exactly
  one entry for each selected column, under the column's SQL name, holding the normalised driver value
  of its own position.\<close>

lemma scan_row_columns:
  assumes "scan_row b cols vals = Inr r" and "distinct (map col_name cols)" and "i < length cols"
  shows "dom (gget r) = set (map col_name cols) \<and> length vals = length cols \<and>
    convert_value (b_stdlib b) (cols ! i) (vals ! i) = Inr (gidx r (col_name (cols ! i)))"
proof -
  from assms(1) obtain kvs where len: "length vals = length cols"
    and kvs: "mapr (\<lambda>(c, v). rbind (convert_value (b_stdlib b) c v) (\<lambda>x. Inr (col_name c, x))) (zip cols vals) = Inr kvs"
    and r: "r = foldl (\<lambda>m (k, v). gput k v m) [] kvs"
    by (auto simp: scan_row_def split: if_splits sum.splits)
  have all: "length kvs = length cols" "\<And>j. j < length cols \<Longrightarrow> fst (kvs ! j) = col_name (cols ! j) \<and>
      convert_value (b_stdlib b) (cols ! j) (vals ! j) = Inr (snd (kvs ! j))"
    using kvs len by (auto simp: mapr_Inr_iff list_all2_conv_all_nth) (metis fst_conv, metis snd_conv)
  have names: "map fst kvs = map col_name cols"
    using all by (intro nth_equalityI) simp_all
  have "gget r = map_of kvs"
  proof -
    have "distinct (map fst (rev kvs))" using names assms(2) by (metis distinct_rev rev_map)
    then show ?thesis using names assms(2) unfolding r foldl_gput_gget
      by (simp add: map_of_inject_set)
  qed
  moreover from this have "gget r (col_name (cols ! i)) = Some (snd (kvs ! i))"
    using all assms(2,3) names by (metis eq_key_imp_eq_value map_of_eq_Some_iff nth_mem prod.collapse)
  ultimately show ?thesis
    using all(2) [OF assms(3)] len names by (simp add: gidx_def dom_map_of_conv_image_fst flip: set_map)
qed

end
