(* ===== verification/Mutations.thy ===== *)
theory Mutations
  imports Queries
begin

text \<open>
  The write path (\<open>schema/hooks.go\<close>, the second half of \<open>schema/sqlgen.go\<close>, the mutation
  resolvers of \<open>schema/builder.go\<close>): the values of a write, the statements, the lifecycle hooks and
  the transaction around them.

  The database is a parameter over an abstract state: queries read a state; \<open>d_exec\<close> runs a
  statement in a transaction, on its working state; a transaction that is not committed, or whose
  commit fails, leaves the state as it was. A hook may run statements of its own in the transaction
  (it changes the working state), change the event it is shown, and abort with an error.
\<close>

section \<open>Events and hooks\<close>

datatype mutation_op = Op_Insert | Op_Update | Op_Delete

instantiation mutation_op :: enum
begin

definition enum_mutation_op :: "mutation_op list" where
  "enum_mutation_op = [Op_Insert, Op_Update, Op_Delete]"

definition enum_all_mutation_op :: "(mutation_op \<Rightarrow> bool) \<Rightarrow> bool" where
  "enum_all_mutation_op P \<longleftrightarrow> P Op_Insert \<and> P Op_Update \<and> P Op_Delete"

definition enum_ex_mutation_op :: "(mutation_op \<Rightarrow> bool) \<Rightarrow> bool" where
  "enum_ex_mutation_op P \<longleftrightarrow> P Op_Insert \<or> P Op_Update \<or> P Op_Delete"

instance
proof
  show "(UNIV :: mutation_op set) = set enum_class.enum"
    by (auto simp: enum_mutation_op_def intro: mutation_op.exhaust)
  show "enum_class.enum_all P \<longleftrightarrow> Ball UNIV P" for P :: "mutation_op \<Rightarrow> bool"
    by (metis enum_all_mutation_op_def mutation_op.exhaust UNIV_I)
  show "enum_class.enum_ex P \<longleftrightarrow> Bex UNIV P" for P :: "mutation_op \<Rightarrow> bool"
    by (metis enum_ex_mutation_op_def mutation_op.exhaust UNIV_I)
qed (simp add: enum_mutation_op_def)

end

lemma all_mutation_op: "(\<forall>op. P op) \<longleftrightarrow> P Op_Insert \<and> P Op_Update \<and> P Op_Delete"
  unfolding enum_all_mutation_op_def [symmetric] by simp

definition op_name :: "mutation_op \<Rightarrow> string" where
  "op_name op = (case op of Op_Insert \<Rightarrow> ''insert'' | Op_Update \<Rightarrow> ''update'' | Op_Delete \<Rightarrow> ''delete'')"

record mutation_event =
  ev_op :: mutation_op
  ev_table :: string
  ev_role :: string
  ev_claims :: "gval gmap"
  ev_values :: "row list"
  ev_affected :: int

record 's sqldb =
  d_query :: "'s \<Rightarrow> query_db"
  d_begin :: "'s \<Rightarrow> gerr option"
  d_exec :: "'s \<Rightarrow> string \<Rightarrow> gval list \<Rightarrow> 's \<times> (int \<times> int) res"
  d_commit :: "'s \<Rightarrow> gerr option"

type_synonym 's hook = "'s \<Rightarrow> mutation_event \<Rightarrow> 's \<times> mutation_event \<times> gerr option"

record 's hooks =
  h_before :: "'s hook list gmap"
  h_after :: "'s hook list gmap"

definition hook_key :: "string \<Rightarrow> mutation_op \<Rightarrow> string" where
  "hook_key table op = table @ CHR 0x00 # op_name op"

definition hooks_at :: "'s hook list gmap \<Rightarrow> string \<Rightarrow> 's hook list" where
  "hooks_at m k = (case gget m k of None \<Rightarrow> [] | Some hs \<Rightarrow> hs)"

fun run_hooks :: "'s hook list \<Rightarrow> 's \<Rightarrow> mutation_event \<Rightarrow> 's \<times> mutation_event res" where
  "run_hooks [] s ev = (s, Inr ev)"
| "run_hooks (h # hs) s ev =
     (case h s ev of
        (s', ev', Some e) \<Rightarrow> (s', Inl e)
      | (s', ev', None) \<Rightarrow> run_hooks hs s' ev')"

text \<open>\<open>runHookList\<close>: the wildcard entry first, then the table's. Both keys are read from the event,
  the second one as the wildcard hooks left it.\<close>

definition run_hook_list :: "'s hook list gmap \<Rightarrow> 's \<Rightarrow> mutation_event \<Rightarrow> 's \<times> mutation_event res" where
  "run_hook_list m s ev =
     (if m = [] then (s, Inr ev)
      else (case run_hooks (hooks_at m (hook_key ''*'' (ev_op ev))) s ev of
              (s', Inl e) \<Rightarrow> (s', Inl e)
            | (s', Inr ev') \<Rightarrow> run_hooks (hooks_at m (hook_key (ev_table ev') (ev_op ev'))) s' ev'))"

definition run_before :: "'s hooks option \<Rightarrow> 's \<Rightarrow> mutation_event \<Rightarrow> 's \<times> mutation_event res" where
  "run_before h s ev = (case h of None \<Rightarrow> (s, Inr ev) | Some h \<Rightarrow> run_hook_list (h_before h) s ev)"

definition run_after :: "'s hooks option \<Rightarrow> 's \<Rightarrow> mutation_event \<Rightarrow> 's \<times> mutation_event res" where
  "run_after h s ev = (case h of None \<Rightarrow> (s, Inr ev) | Some h \<Rightarrow> run_hook_list (h_after h) s ev)"

section \<open>The values of a write\<close>

definition preset_columns :: "op_access \<Rightarrow> string set" where
  "preset_columns oa = pre_name ` set (oa_presets oa)"

definition writable :: "table_info \<Rightarrow> op_access \<Rightarrow> string \<Rightarrow> column option" where
  "writable ti oa field =
     (case ti_field_to_col ti field of
        None \<Rightarrow> None
      | Some col \<Rightarrow>
          if col_name col \<notin> oa_colset oa \<or> col_name col \<in> preset_columns oa \<or> col_generated col then None
          else Some col)"

definition client_values :: "builder \<Rightarrow> table_info \<Rightarrow> op_access \<Rightarrow> gval gmap \<Rightarrow> (string \<times> gval) list res" where
  "client_values b ti oa obj =
     mapr (\<lambda>(field, v). case writable ti oa field of
         None \<Rightarrow> Inl (Write_Err (Not_Writable field))
       | Some col \<Rightarrow> rbind (bind_value (b_stdlib b) col v) (\<lambda>x. Inr (col_name col, x))) obj"

definition preset_values :: "op_access \<Rightarrow> identity \<Rightarrow> (string \<times> gval) list res" where
  "preset_values oa idn =
     mapr (\<lambda>p. rbind (preset_value p (id_claims idn)) (\<lambda>v. Inr (pre_name p, v))) (oa_presets oa)"

text \<open>The map \<open>byCol\<close> that \<open>mergedRowValues\<close> and \<open>setClause\<close> build: client fields, then presets.\<close>

definition by_col :: "builder \<Rightarrow> table_info \<Rightarrow> op_access \<Rightarrow> gval gmap \<Rightarrow> identity \<Rightarrow> row res" where
  "by_col b ti oa obj idn =
     rbind (client_values b ti oa obj) (\<lambda>cs.
     rbind (preset_values oa idn) (\<lambda>ps.
       Inr (foldl (\<lambda>m (k, v). gput k v m) [] (cs @ ps))))"

definition written_columns :: "table_info \<Rightarrow> row \<Rightarrow> column list" where
  "written_columns ti m = filter (\<lambda>c. gget m (col_name c) \<noteq> None) (tbl_columns (ti_table ti))"

definition merged_row_values :: "builder \<Rightarrow> table_info \<Rightarrow> op_access \<Rightarrow> gval gmap \<Rightarrow> identity
    \<Rightarrow> (column list \<times> gval list) res" where
  "merged_row_values b ti oa obj idn =
     rbind (by_col b ti oa obj idn) (\<lambda>m.
       Inr (written_columns ti m, map (\<lambda>c. gidx m (col_name c)) (written_columns ti m)))"

definition set_clause :: "builder \<Rightarrow> table_info \<Rightarrow> op_access \<Rightarrow> gval gmap \<Rightarrow> identity
    \<Rightarrow> (string \<times> gval list \<times> row) res" where
  "set_clause b ti oa obj idn =
     rbind (by_col b ti oa obj idn) (\<lambda>m.
       if m = [] then Inl (Write_Err Set_Empty)
       else Inr (join '', '' (map (\<lambda>c. quote_ident (col_name c) @ '' = ?'') (written_columns ti m)),
                 map (\<lambda>c. gidx m (col_name c)) (written_columns ti m), m))"

section \<open>Transactions\<close>

text \<open>\<open>execInTx\<close>, and the frame of \<open>runInsert\<close>: \<open>BeginTx\<close>, a deferred \<open>Rollback\<close>, the body, \<open>Commit\<close>.\<close>

definition exec_in_tx :: "builder \<Rightarrow> 's sqldb \<Rightarrow> 's \<Rightarrow> ('s \<Rightarrow> 's \<times> 'a res) \<Rightarrow> 's \<times> 'a res" where
  "exec_in_tx b db s fn =
     (case d_begin db s of
        Some e \<Rightarrow> (s, Inl (db_err b e))
      | None \<Rightarrow>
          (case fn s of
             (s', Inl e) \<Rightarrow> (s, Inl e)
           | (s', Inr x) \<Rightarrow>
               (case d_commit db s' of
                  Some e \<Rightarrow> (s, Inl (db_err b e))
                | None \<Rightarrow> (s', Inr x))))"

text \<open>Sequencing inside a transaction.\<close>

definition tx_bind :: "'s \<times> 'a res \<Rightarrow> ('s \<Rightarrow> 'a \<Rightarrow> 's \<times> 'b res) \<Rightarrow> 's \<times> 'b res" where
  "tx_bind m f = (case m of (s, Inl e) \<Rightarrow> (s, Inl e) | (s, Inr x) \<Rightarrow> f s x)"

definition exec_stmt :: "builder \<Rightarrow> 's sqldb \<Rightarrow> 's \<Rightarrow> string \<times> gval list \<Rightarrow> 's \<times> (int \<times> int) res" where
  "exec_stmt b db s st =
     (case d_exec db s (fst st) (snd st) of
        (s', Inl e) \<Rightarrow> (s', Inl (db_err b e))
      | (s', Inr r) \<Rightarrow> (s', Inr r))"

fun exec_all :: "builder \<Rightarrow> 's sqldb \<Rightarrow> 's \<Rightarrow> (string \<times> gval list) list \<Rightarrow> int \<Rightarrow> int \<Rightarrow> 's \<times> (int \<times> int) res" where
  "exec_all b db s [] affected last_id = (s, Inr (affected, last_id))"
| "exec_all b db s (st # sts) affected last_id =
     tx_bind (exec_stmt b db s st) (\<lambda>s' (n, i). exec_all b db s' sts (wrap64 (affected + n)) i)"

section \<open>Statements\<close>

definition insert_stmt :: "builder \<Rightarrow> table_info \<Rightarrow> column list \<times> gval list \<Rightarrow> string \<times> gval list" where
  "insert_stmt b ti m =
     (''INSERT INTO '' @ qualified_table b (ti_table ti) @ '' ('' @
        join '', '' (map (\<lambda>c. quote_ident (col_name c)) (fst m)) @ '') VALUES ('' @
        placeholders (length (fst m)) @ '')'', snd m)"

definition row_map :: "column list \<times> gval list \<Rightarrow> row" where
  "row_map m = foldl (\<lambda>r (c, v). gput (col_name c) v r) [] (zip (fst m) (snd m))"

definition merge_object :: "builder \<Rightarrow> table_info \<Rightarrow> op_access \<Rightarrow> identity \<Rightarrow> gval \<Rightarrow> (column list \<times> gval list) res" where
  "merge_object b ti oa idn item =
     (case item of
        VMap obj \<Rightarrow>
          rbind (merged_row_values b ti oa obj idn) (\<lambda>m.
            if fst m = [] then Inl (Write_Err (Insert_No_Columns (tbl_name (ti_table ti)))) else Inr m)
      | _ \<Rightarrow> Inl (Write_Err Insert_Not_Object))"

definition denied :: "builder \<Rightarrow> table_info \<Rightarrow> string \<Rightarrow> gerr" where
  "denied b ti op = Write_Err (Not_Permitted op (tbl_name (ti_table ti)) (b_role b))"

definition mutation_ev :: "builder \<Rightarrow> table_info \<Rightarrow> identity \<Rightarrow> mutation_op \<Rightarrow> row list \<Rightarrow> mutation_event" where
  "mutation_ev b ti idn op values =
     \<lparr>ev_op = op, ev_table = tbl_name (ti_table ti), ev_role = b_role b, ev_claims = id_claims idn,
      ev_values = values, ev_affected = 0\<rparr>"

definition run_insert :: "builder \<Rightarrow> 's sqldb \<Rightarrow> 's hooks option \<Rightarrow> table_info \<Rightarrow> identity \<Rightarrow> gval list \<Rightarrow> 's
    \<Rightarrow> 's \<times> (int \<times> int \<times> row) res" where
  "run_insert b db hs ti idn objects s =
     (case ta_insert (ti_access ti) of
        None \<Rightarrow> (s, Inl (denied b ti ''insert''))
      | Some oa \<Rightarrow>
          if objects = [] then (s, Inl (Write_Err Objects_Empty))
          else (case mapr (merge_object b ti oa idn) objects of
            Inl e \<Rightarrow> (s, Inl e)
          | Inr merged \<Rightarrow>
              exec_in_tx b db s (\<lambda>s.
                tx_bind (run_before hs s (mutation_ev b ti idn Op_Insert (map row_map merged))) (\<lambda>s ev.
                tx_bind (exec_all b db s (map (insert_stmt b ti) merged) 0 0) (\<lambda>s (affected, last_id).
                tx_bind (run_after hs s (ev\<lparr>ev_affected := affected\<rparr>)) (\<lambda>s ev.
                  (s, Inr (affected, last_id, row_map (last merged)))))))))"

definition update_stmt :: "builder \<Rightarrow> table_info \<Rightarrow> op_access \<Rightarrow> identity \<Rightarrow> gval gmap \<Rightarrow> condition option
    \<Rightarrow> (string \<times> gval list \<times> row) res" where
  "update_stmt b ti oa idn set_values w =
     rbind (set_clause b ti oa set_values idn) (\<lambda>(set_sql, set_args, m).
     rbind (rbac_cond oa idn) (\<lambda>fc.
       let c = combine_conds [w, fc]
       in Inr (''UPDATE '' @ qualified_table b (ti_table ti) @ '' SET '' @ set_sql @ '' WHERE '' @ c_sql c,
               set_args @ c_args c, m)))"

definition delete_stmt :: "builder \<Rightarrow> table_info \<Rightarrow> op_access \<Rightarrow> identity \<Rightarrow> condition option
    \<Rightarrow> (string \<times> gval list) res" where
  "delete_stmt b ti oa idn w =
     rbind (rbac_cond oa idn) (\<lambda>fc.
       let c = combine_conds [w, fc]
       in Inr (''DELETE FROM '' @ qualified_table b (ti_table ti) @ '' WHERE '' @ c_sql c, c_args c))"

text \<open>The body of the transaction of \<open>runUpdate\<close> and \<open>runDelete\<close>.\<close>

definition tx_body :: "builder \<Rightarrow> 's sqldb \<Rightarrow> 's hooks option \<Rightarrow> mutation_event \<Rightarrow> string \<times> gval list \<Rightarrow> 's
    \<Rightarrow> 's \<times> int res" where
  "tx_body b db hs ev st s =
     tx_bind (run_before hs s ev) (\<lambda>s ev.
     tx_bind (exec_stmt b db s st) (\<lambda>s (n, _).
     tx_bind (run_after hs s (ev\<lparr>ev_affected := n\<rparr>)) (\<lambda>s ev. (s, Inr n))))"

definition run_update :: "builder \<Rightarrow> 's sqldb \<Rightarrow> 's hooks option \<Rightarrow> table_info \<Rightarrow> identity \<Rightarrow> gval gmap
    \<Rightarrow> condition option \<Rightarrow> 's \<Rightarrow> 's \<times> int res" where
  "run_update b db hs ti idn set_values w s =
     (case ta_update (ti_access ti) of
        None \<Rightarrow> (s, Inl (denied b ti ''update''))
      | Some oa \<Rightarrow>
          (case update_stmt b ti oa idn set_values w of
             Inl e \<Rightarrow> (s, Inl e)
           | Inr (q, args, m) \<Rightarrow>
               exec_in_tx b db s (tx_body b db hs (mutation_ev b ti idn Op_Update [m]) (q, args))))"

definition run_delete :: "builder \<Rightarrow> 's sqldb \<Rightarrow> 's hooks option \<Rightarrow> table_info \<Rightarrow> identity \<Rightarrow> condition option
    \<Rightarrow> 's \<Rightarrow> 's \<times> int res" where
  "run_delete b db hs ti idn w s =
     (case ta_delete (ti_access ti) of
        None \<Rightarrow> (s, Inl (denied b ti ''delete''))
      | Some oa \<Rightarrow>
          (case delete_stmt b ti oa idn w of
             Inl e \<Rightarrow> (s, Inl e)
           | Inr st \<Rightarrow> exec_in_tx b db s (tx_body b db hs (mutation_ev b ti idn Op_Delete []) st)))"

section \<open>What can be written\<close>

definition by_client :: "builder \<Rightarrow> table_info \<Rightarrow> op_access \<Rightarrow> gval gmap \<Rightarrow> string \<Rightarrow> gval \<Rightarrow> bool" where
  "by_client b ti oa obj n x \<longleftrightarrow>
     n \<notin> preset_columns oa \<and> n \<in> oa_colset oa \<and>
     (\<exists>field v col. (field, v) \<in> set obj \<and> ti_field_to_col ti field = Some col \<and> col_name col = n \<and>
        \<not> col_generated col \<and> bind_value (b_stdlib b) col v = Inr x)"

definition by_preset :: "op_access \<Rightarrow> identity \<Rightarrow> string \<Rightarrow> gval \<Rightarrow> bool" where
  "by_preset oa idn n x \<longleftrightarrow> (\<exists>p\<in>set (oa_presets oa). pre_name p = n \<and> preset_value p (id_claims idn) = Inr x)"

lemma client_values_in: "client_values b ti oa obj = Inr cs \<Longrightarrow> (n, x) \<in> set cs \<Longrightarrow> by_client b ti oa obj n x"
  by (fastforce simp: client_values_def writable_def by_client_def split: option.splits if_splits dest: mapr_in)

lemma preset_values_in: "preset_values oa idn = Inr ps \<Longrightarrow> (n, x) \<in> set ps \<Longrightarrow> by_preset oa idn n x"
  by (fastforce simp: preset_values_def by_preset_def dest: mapr_in)

lemma mapr_map_fst: "mapr (\<lambda>p. rbind (f p) (\<lambda>v. Inr (g p, v))) qs = Inr ps \<Longrightarrow> map fst ps = map g qs"
  by (induction qs arbitrary: ps) auto

lemma preset_values_names:
  assumes "preset_values oa idn = Inr ps"
  shows "fst ` set ps = preset_columns oa"
  using mapr_map_fst [OF assms [unfolded preset_values_def]]
  by (metis image_set preset_columns_def)

lemma by_col_entry:
  assumes "by_col b ti oa obj idn = Inr m"
  shows "gget m n = Some x \<Longrightarrow> if n \<in> preset_columns oa then by_preset oa idn n x else by_client b ti oa obj n x"
    and "n \<in> preset_columns oa \<Longrightarrow> gget m n \<noteq> None"
proof -
  from assms obtain cs ps where cs: "client_values b ti oa obj = Inr cs" "preset_values oa idn = Inr ps"
    "m = foldl (\<lambda>m (k, v). gput k v m) [] (cs @ ps)" by (auto simp: by_col_def)
  have m: "gget m = map_of (rev cs) ++ map_of (rev ps)"
    unfolding cs(3) foldl_gput_gget by simp
  have ps: "map_of (rev ps) n = None \<longleftrightarrow> n \<notin> preset_columns oa"
    using preset_values_names [OF cs(2)] by (simp add: map_of_eq_None_iff)
  show "n \<in> preset_columns oa \<Longrightarrow> gget m n \<noteq> None"
    using ps by (auto simp: m map_add_def split: option.splits)
  assume x: "gget m n = Some x"
  show "if n \<in> preset_columns oa then by_preset oa idn n x else by_client b ti oa obj n x"
    using x ps preset_values_in [OF cs(2)] client_values_in [OF cs(1)]
    by (auto simp: m map_add_def split: option.splits dest!: map_of_SomeD)
qed

definition write_values :: "builder \<Rightarrow> table_info \<Rightarrow> op_access \<Rightarrow> gval gmap \<Rightarrow> identity \<Rightarrow> column list \<Rightarrow> gval list \<Rightarrow> bool" where
  "write_values b ti oa obj idn cols vals \<longleftrightarrow>
     merged_row_values b ti oa obj idn = Inr (cols, vals) \<or>
     (\<exists>q m. set_clause b ti oa obj idn = Inr (q, vals, m) \<and> cols = written_columns ti m)"

lemma write_values_by_col:
  "write_values b ti oa obj idn cols vals \<Longrightarrow>
     \<exists>m. by_col b ti oa obj idn = Inr m \<and> cols = written_columns ti m \<and> vals = map (\<lambda>c. gidx m (col_name c)) cols"
  by (auto simp: write_values_def merged_row_values_def set_clause_def split: if_splits)



section \<open>Atomicity\<close>

interpretation tx: all_or_nothing "\<lambda>s. exec_in_tx b db s fn" for b db fn
  by unfold_locales (auto simp: exec_in_tx_def split: res_splits)

interpretation inserts: granted_op "run_insert b db hs ti idn objects" "ta_insert (ti_access ti) \<noteq> None"
  for b db hs ti idn objects
  by unfold_locales (auto simp: run_insert_def dest: tx.error_keeps split: option.splits sum.splits if_splits)

interpretation updates: granted_op "run_update b db hs ti idn set_values w" "ta_update (ti_access ti) \<noteq> None"
  for b db hs ti idn set_values w
  by unfold_locales (auto simp: run_update_def dest: tx.error_keeps split: res_splits)

interpretation deletes: granted_op "run_delete b db hs ti idn w" "ta_delete (ti_access ti) \<noteq> None"
  for b db hs ti idn w
  by unfold_locales (auto simp: run_delete_def dest: tx.error_keeps split: res_splits)

lemma exec_in_tx_ok: "exec_in_tx b db s fn = (s', Inr x) \<longleftrightarrow> d_begin db s = None \<and> fn s = (s', Inr x) \<and> d_commit db s' = None"
  by (auto simp: exec_in_tx_def split: res_splits)

lemma tx_bind_ok: "tx_bind m f = (s', Inr y) \<longleftrightarrow> (\<exists>s x. m = (s, Inr x) \<and> f s x = (s', Inr y))"
  by (auto simp: tx_bind_def split: prod.splits sum.splits)

lemma exec_stmt_ok: "exec_stmt b db s st = (s', Inr r) \<longleftrightarrow> d_exec db s (fst st) (snd st) = (s', Inr r)"
  by (auto simp: exec_stmt_def split: prod.splits sum.splits)


text \<open>A database that records the statements and fails at the second one.\<close>

definition demo_db :: "(string \<times> gval list) list sqldb" where
  "demo_db = \<lparr>d_query = (\<lambda>s q args. Inr []), d_begin = (\<lambda>s. None),
     d_exec = (\<lambda>s q args. (s @ [(q, args)], if s = [] then Inr (1, 7) else Inl (Ext_Error ''deadlock''))),
     d_commit = (\<lambda>s. None)\<rparr>"

abbreviation demo_id :: identity where
  "demo_id \<equiv> \<lparr>id_role = ''user'', id_claims = [(''sub'', VStr ''u1'')]\<rparr>"


section \<open>Statements and hooks\<close>

lemma set_list_closed:
  "closed (join '', '' (map (\<lambda>c. quote_ident (col_name c) @ '' = ?'') cols)) (length cols)"
proof -
  have "closed (quote_ident n @ '' = ?'') 1" for n by (intro closed_append0 quote_closed closed_seps)
  then have "closed (join '', '' (map (\<lambda>c. quote_ident (col_name c) @ '' = ?'') cols)) (sum_list (replicate (length cols) 1))"
    by (intro closed_join closed_seps) (simp add: list_all2_conv_all_nth)
  then show ?thesis by (simp add: sum_list_replicate)
qed

lemma cond_closed: "cond_ok c \<Longrightarrow> closed (c_sql c) (length (c_args c))"
  by (simp add: cond_ok_def)

lemma stmt_cond_ok:
  "filters_wf oa \<Longrightarrow> \<forall>c. w = Some c \<longrightarrow> cond_ok c \<Longrightarrow> rbac_cond oa idn = Inr fc \<Longrightarrow> \<forall>c. Some c \<in> set [w, fc] \<longrightarrow> cond_ok c"
  using rbac_cond_ok by auto

lemma update_guarded:
  assumes wf: "filters_wf oa" and w: "\<forall>c. w = Some c \<longrightarrow> cond_ok c"
    and "update_stmt b ti oa idn set_values w = Inr (q, args, m)"
  shows "guarded oa idn q args"
proof -
  let ?c = "\<lambda>fc. combine_conds [w, fc]"
  obtain st sargs fc where u: "set_clause b ti oa set_values idn = Inr (st, sargs, m)" "rbac_cond oa idn = Inr fc"
    "q = (''UPDATE '' @ qualified_table b (ti_table ti) @ '' SET '' @ st) @ '' WHERE '' @ c_sql (?c fc) @ []"
    "args = sargs @ c_args (?c fc)"
    using assms(3) by (auto simp: update_stmt_def Let_def)
  from u(1) have st: "closed st (length sargs)"
    using set_list_closed by (auto simp: set_clause_def split: if_splits)
  have "closed q (length args)"
    unfolding closed_def u(3,4)
    by (simp add: code_step_def lex_closed_append [OF st] lex_closed [OF cond_closed [OF combine_ok [OF stmt_cond_ok [OF wf w u(2)]]]])
  then show ?thesis
    unfolding u(3) by (intro guardedI [OF wf u(2) _ stmt_cond_ok [OF wf w u(2)]]) (simp_all add: where_ends_def)
qed

lemma delete_guarded:
  assumes wf: "filters_wf oa" and w: "\<forall>c. w = Some c \<longrightarrow> cond_ok c"
    and "delete_stmt b ti oa idn w = Inr (q, args)"
  shows "guarded oa idn q args"
proof -
  obtain fc where u: "rbac_cond oa idn = Inr fc"
    "q = (''DELETE FROM '' @ qualified_table b (ti_table ti)) @ '' WHERE '' @ c_sql (combine_conds [w, fc]) @ []"
    "args = c_args (combine_conds [w, fc])"
    using assms(3) by (auto simp: delete_stmt_def Let_def)
  have "closed q (length args)"
    unfolding closed_def u(2,3)
    by (simp add: code_step_def lex_closed [OF cond_closed [OF combine_ok [OF stmt_cond_ok [OF wf w u(1)]]]])
  then show ?thesis
    unfolding u(2) by (intro guardedI [OF wf u(1) _ stmt_cond_ok [OF wf w u(1)]]) (simp_all add: where_ends_def)
qed

text \<open>C5: updates and deletes are guarded. The statement of an update or a delete is a closed text with
  as many placeholders as arguments, and the operation's row filter, rendered for the caller, is a
  top-level conjunct of its \<open>WHERE\<close> condition, whatever condition the client or the primary key
  adds.\<close>

theorem mutations_guarded:
  assumes "filters_wf oa" and "\<forall>c. w = Some c \<longrightarrow> cond_ok c"
  shows "(update_stmt b ti oa idn set_values w = Inr (q, args, m) \<longrightarrow> guarded oa idn q args) \<and>
    (delete_stmt b ti oa idn w = Inr (q, args) \<longrightarrow> guarded oa idn q args)"
  using update_guarded [OF assms] delete_guarded [OF assms] by blast

theorem mutations_guarded_witness:
  "\<exists>q args m. update_stmt demo_builder demo_info demo_op demo_id [(''meta'', VNil)]
     (Some (cond ''`id` = ?'' [VInt64 3])) = Inr (q, args, m) \<and> length args = 4 \<and> guarded demo_op demo_id q args"
proof -
  let ?w = "Some (cond ''`id` = ?'' [VInt64 3])"
  have "(case update_stmt demo_builder demo_info demo_op demo_id [(''meta'', VNil)] ?w of
           Inl _ \<Rightarrow> False | Inr (q, args, m) \<Rightarrow> length args = 4)"
    by code_simp
  then obtain q args m where q: "update_stmt demo_builder demo_info demo_op demo_id [(''meta'', VNil)] ?w = Inr (q, args, m)"
    "length args = 4" by (auto split: sum.splits)
  have wf: "filters_wf demo_op"
    by (simp add: filters_wf_def demo_op_def filter_wf_def code_step_def)
  have w: "\<forall>c. ?w = Some c \<longrightarrow> cond_ok c"
    by (simp add: cond_ok_def closed_def code_step_def)
  have "guarded demo_op demo_id q args"
    using mutations_guarded [OF wf w, THEN conjunct1, rule_format, OF q(1)] .
  then show ?thesis by (intro exI conjI) (rule q(1), rule q(2))
qed

text \<open>The run of several statements, as a fold over the database.\<close>

fun stmts_run :: "'s sqldb \<Rightarrow> 's \<Rightarrow> (string \<times> gval list) list \<Rightarrow> 's option" where
  "stmts_run db s [] = Some s"
| "stmts_run db s (st # sts) =
     (case d_exec db s (fst st) (snd st) of
        (s', Inl e) \<Rightarrow> None
      | (s', Inr r) \<Rightarrow> stmts_run db s' sts)"

lemma exec_all_run: "exec_all b db s sts n i = (s', Inr r) \<Longrightarrow> stmts_run db s sts = Some s'"
  by (induction b db s sts n i arbitrary: r rule: exec_all.induct)
    (auto simp: tx_bind_ok exec_stmt_ok)

lemma insert_stmt_closed: "length (snd m) = length (fst m) \<Longrightarrow> closed (fst (insert_stmt b ti m)) (length (snd (insert_stmt b ti m)))"
  using lex_closed_append [OF sqlid.ident_list [of "map col_name (fst m)"]]
  by (simp add: insert_stmt_def closed_def code_step_def comp_def)

lemma merge_object_length: "merge_object b ti oa idn item = Inr m \<Longrightarrow> length (snd m) = length (fst m)"
  by (cases item) (auto simp: merge_object_def merged_row_values_def split: if_splits)

text \<open>C10: a successful insert does what it announces, in order. The before-hooks see every row of the
  batch, presets merged in, and none of them is written yet; then exactly one statement per object is
  executed, in the order of the objects, built from the values computed before the hooks ran; then the
  after-hooks run, with the number of rows; then the transaction commits. Each statement is closed and
  binds one value per column.\<close>

theorem run_insert_steps:
  assumes "run_insert b db hs ti idn objects s = (s', Inr (n, last_id, values))"
  shows "\<exists>oa merged s1 ev1 s2 ev2.
    ta_insert (ti_access ti) = Some oa \<and> objects \<noteq> [] \<and>
    list_all2 (\<lambda>item m. merge_object b ti oa idn item = Inr m) objects merged \<and>
    run_before hs s (mutation_ev b ti idn Op_Insert (map row_map merged)) = (s1, Inr ev1) \<and>
    stmts_run db s1 (map (insert_stmt b ti) merged) = Some s2 \<and>
    run_after hs s2 (ev1\<lparr>ev_affected := n\<rparr>) = (s', Inr ev2) \<and>
    d_begin db s = None \<and> d_commit db s' = None \<and> values = row_map (last merged) \<and>
    (\<forall>m\<in>set merged. closed (fst (insert_stmt b ti m)) (length (snd (insert_stmt b ti m))))"
proof -
  from assms obtain oa merged where oa: "ta_insert (ti_access ti) = Some oa" "objects \<noteq> []"
    "mapr (merge_object b ti oa idn) objects = Inr merged"
    "exec_in_tx b db s (\<lambda>s.
        tx_bind (run_before hs s (mutation_ev b ti idn Op_Insert (map row_map merged))) (\<lambda>s ev.
        tx_bind (exec_all b db s (map (insert_stmt b ti) merged) 0 0) (\<lambda>s (affected, last_id).
        tx_bind (run_after hs s (ev\<lparr>ev_affected := affected\<rparr>)) (\<lambda>s ev.
          (s, Inr (affected, last_id, row_map (last merged))))))) = (s', Inr (n, last_id, values))"
    by (auto simp: run_insert_def split: option.splits if_splits sum.splits)
  then obtain s1 ev1 s2 ev2 where run: "run_before hs s (mutation_ev b ti idn Op_Insert (map row_map merged)) = (s1, Inr ev1)"
    "exec_all b db s1 (map (insert_stmt b ti) merged) 0 0 = (s2, Inr (n, last_id))"
    "run_after hs s2 (ev1\<lparr>ev_affected := n\<rparr>) = (s', Inr ev2)" "values = row_map (last merged)"
    "d_begin db s = None" "d_commit db s' = None"
    by (auto simp: exec_in_tx_ok tx_bind_ok)
  have "length (snd m) = length (fst m)" if "m \<in> set merged" for m
    using mapr_in [OF oa(3) that] merge_object_length by blast
  then have "\<forall>m\<in>set merged. closed (fst (insert_stmt b ti m)) (length (snd (insert_stmt b ti m)))"
    using insert_stmt_closed by blast
  with oa(1,2) oa(3) [unfolded mapr_Inr_iff] run exec_all_run [OF run(2)] show ?thesis by blast
qed

theorem run_insert_steps_witness:
  "\<exists>merged s2. stmts_run demo_db [] (map (insert_stmt demo_builder demo_info) merged) = Some s2 \<and>
     run_insert demo_builder demo_db None demo_info demo_id [VMap [(''id'', VInt64 1)]] [] =
       (s2, Inr (1, 7, [(''id'', VInt64 1), (''owner'', VStr ''u1'')]))"
proof -
  have "(case run_insert demo_builder demo_db None demo_info demo_id [VMap [(''id'', VInt64 1)]] [] of
      (_, r) \<Rightarrow> r = Inr (1, 7, [(''id'', VInt64 1), (''owner'', VStr ''u1'')]))"
    by code_simp
  then obtain s' where r: "run_insert demo_builder demo_db None demo_info demo_id [VMap [(''id'', VInt64 1)]] [] =
      (s', Inr (1, 7, [(''id'', VInt64 1), (''owner'', VStr ''u1'')]))"
    by (auto split: prod.splits)
  from run_insert_steps [OF this] show ?thesis using r
    by (auto simp: run_before_def run_after_def)
qed

text \<open>Hooks run in order and the first failure stops the mutation. Hooks that leave the event's
  table and operation alone run as one list, those of the wildcard entry before those of the table;
  when one of them fails, no later hook runs, and neither does the statement.\<close>

lemma hooks_in_order:
  assumes "\<forall>h\<in>set (hooks_at m (hook_key ''*'' (ev_op ev))). \<forall>s e. ev_table (fst (snd (h s e))) = ev_table e \<and>
      ev_op (fst (snd (h s e))) = ev_op e"
  shows "run_hook_list m s ev =
      run_hooks (hooks_at m (hook_key ''*'' (ev_op ev)) @ hooks_at m (hook_key (ev_table ev) (ev_op ev))) s ev \<and>
    (run_hooks hs1 s ev = (s', Inl e) \<longrightarrow> run_hooks (hs1 @ hs2) s ev = (s', Inl e)) \<and>
    (run_before (Some \<lparr>h_before = m, h_after = m'\<rparr>) s ev = (s', Inl e) \<longrightarrow>
       tx_body b db (Some \<lparr>h_before = m, h_after = m'\<rparr>) ev st s = (s', Inl e))"
proof -
  have app: "run_hooks (xs @ ys) s ev = (case run_hooks xs s ev of (s', Inl e) \<Rightarrow> (s', Inl e) | (s', Inr ev') \<Rightarrow> run_hooks ys s' ev')"
    for xs ys :: "'a hook list" and s ev
    by (induction xs s ev rule: run_hooks.induct) (auto split: prod.splits option.splits)
  have keep: "run_hooks xs s ev = (s', Inr ev') \<Longrightarrow>
      \<forall>h\<in>set xs. \<forall>s e. ev_table (fst (snd (h s e))) = ev_table e \<and> ev_op (fst (snd (h s e))) = ev_op e \<Longrightarrow>
      ev_table ev' = ev_table ev \<and> ev_op ev' = ev_op ev" for xs :: "'a hook list" and s ev s' ev'
  proof (induction xs s ev rule: run_hooks.induct)
    case (2 h hs s ev)
    obtain s1 ev1 r where h: "h s ev = (s1, ev1, r)" by (cases "h s ev") auto
    with "2.prems"(1) have r: "r = None" "run_hooks hs s1 ev1 = (s', Inr ev')" by (auto split: option.splits)
    have "ev_table ev1 = ev_table ev \<and> ev_op ev1 = ev_op ev"
      using "2.prems"(2) h by (metis fst_conv list.set_intros(1) snd_conv)
    moreover have "ev_table ev' = ev_table ev1 \<and> ev_op ev' = ev_op ev1"
      using "2.IH" [OF h [symmetric] refl r(1) r(2)] "2.prems"(2) by simp
    ultimately show ?case by simp
  qed simp
  have "run_hook_list m s ev =
      run_hooks (hooks_at m (hook_key ''*'' (ev_op ev)) @ hooks_at m (hook_key (ev_table ev) (ev_op ev))) s ev"
  proof (cases "m = []")
    case False
    obtain s1 r where r: "run_hooks (hooks_at m (hook_key ''*'' (ev_op ev))) s ev = (s1, r)"
      by (cases "run_hooks (hooks_at m (hook_key ''*'' (ev_op ev))) s ev")
    show ?thesis
    proof (cases r)
      case (Inr ev1)
      then show ?thesis using keep [OF r [unfolded Inr] assms] r False by (simp add: run_hook_list_def app)
    qed (simp add: run_hook_list_def app r False)
  qed (simp add: run_hook_list_def hooks_at_def)
  then show ?thesis by (auto simp: app tx_body_def tx_bind_def)
qed

definition demo_hook :: "string \<Rightarrow> bool \<Rightarrow> (string \<times> gval list) list hook" where
  "demo_hook name fails s ev = (s @ [(name, [])], ev, if fails then Some (Ext_Error name) else None)"

definition demo_hooks :: "(string \<times> gval list) list hook list gmap" where
  "demo_hooks = [(hook_key ''notes'' Op_Delete, [demo_hook ''table'' True, demo_hook ''late'' False]),
     (hook_key ''*'' Op_Delete, [demo_hook ''any'' False])]"

section \<open>Mutation resolvers\<close>

text \<open>The conditions by which a row just inserted is read back.\<close>

definition inserted_pk_cond :: "table_info \<Rightarrow> int \<Rightarrow> row \<Rightarrow> condition option" where
  "inserted_pk_cond ti last_id values =
     (let pk = tbl_pk (ti_table ti);
          auto = (case pk of
                    [p] \<Rightarrow> (case tbl_colmap (ti_table ti) p of
                              Some col \<Rightarrow> if col_auto_inc col \<and> last_id \<noteq> 0 then Some col else None
                            | None \<Rightarrow> None)
                  | _ \<Rightarrow> None)
      in case auto of
           Some col \<Rightarrow> Some (cond (quote_ident (col_name col) @ '' = ?'') [VInt64 last_id])
         | None \<Rightarrow>
             if list_all (\<lambda>p. gidx values p \<noteq> VNil) pk
             then Some (cond (join '' AND '' (map (\<lambda>p. quote_ident p @ '' = ?'') pk)) (map (gidx values) pk))
             else None)"

definition no_args :: list_args where
  "no_args = \<lparr>la_where = None, la_order = None, la_limit = None, la_offset = None\<rparr>"

definition arg_map :: "gval gmap \<Rightarrow> string \<Rightarrow> gval gmap" where
  "arg_map args k = (case gidx args k of VMap m \<Rightarrow> m | _ \<Rightarrow> [])"

definition arg_list :: "gval gmap \<Rightarrow> string \<Rightarrow> gval list" where
  "arg_list args k = (case gidx args k of VList xs \<Rightarrow> xs | _ \<Rightarrow> [])"

definition first_row :: "row list res \<Rightarrow> row option res" where
  "first_row r = rbind r (\<lambda>rows. Inr (case rows of [] \<Rightarrow> None | row # _ \<Rightarrow> Some row))"

definition insert_field :: "builder \<Rightarrow> 's sqldb \<Rightarrow> 's hooks option \<Rightarrow> table_info \<Rightarrow> identity \<Rightarrow> gval gmap \<Rightarrow> 's
    \<Rightarrow> 's \<times> int res" where
  "insert_field b db hs ti idn args s =
     (case run_insert b db hs ti idn (arg_list args ''objects'') s of
        (s', Inl e) \<Rightarrow> (s', Inl e)
      | (s', Inr (n, _, _)) \<Rightarrow> (s', Inr n))"

definition insert_one_field :: "builder \<Rightarrow> 's sqldb \<Rightarrow> 's hooks option \<Rightarrow> table_info \<Rightarrow> identity \<Rightarrow> gval gmap \<Rightarrow> 's
    \<Rightarrow> 's \<times> row option res" where
  "insert_one_field b db hs ti idn args s =
     (case run_insert b db hs ti idn [gidx args ''object''] s of
        (s', Inl e) \<Rightarrow> (s', Inl e)
      | (s', Inr (_, last_id, values)) \<Rightarrow>
          (case inserted_pk_cond ti last_id values of
             None \<Rightarrow> (s', Inr None)
           | Some c \<Rightarrow> (s', first_row (run_select b (d_query db s') ti idn no_args (Some c) True))))"

definition update_field :: "builder \<Rightarrow> 's sqldb \<Rightarrow> 's hooks option \<Rightarrow> table_info \<Rightarrow> identity \<Rightarrow> gval gmap \<Rightarrow> 's
    \<Rightarrow> 's \<times> int res" where
  "update_field b db hs ti idn args s =
     (case where_sql b ti (arg_map args ''where'') of
        Inl e \<Rightarrow> (s, Inl e)
      | Inr c \<Rightarrow> run_update b db hs ti idn (arg_map args ''_set'') (Some c) s)"

definition update_by_pk_field :: "builder \<Rightarrow> 's sqldb \<Rightarrow> 's hooks option \<Rightarrow> table_info \<Rightarrow> identity \<Rightarrow> gval gmap \<Rightarrow> 's
    \<Rightarrow> 's \<times> row option res" where
  "update_by_pk_field b db hs ti idn args s =
     (case pk_cond b ti args of
        Inl e \<Rightarrow> (s, Inl e)
      | Inr c \<Rightarrow>
          (case run_update b db hs ti idn (arg_map args ''_set'') (Some c) s of
             (s', Inl e) \<Rightarrow> (s', Inl e)
           | (s', Inr n) \<Rightarrow>
               if n = 0 then (s', Inr None)
               else (s', first_row (run_select b (d_query db s') ti idn no_args (Some c) True))))"

definition delete_field :: "builder \<Rightarrow> 's sqldb \<Rightarrow> 's hooks option \<Rightarrow> table_info \<Rightarrow> identity \<Rightarrow> gval gmap \<Rightarrow> 's
    \<Rightarrow> 's \<times> int res" where
  "delete_field b db hs ti idn args s =
     (case where_sql b ti (arg_map args ''where'') of
        Inl e \<Rightarrow> (s, Inl e)
      | Inr c \<Rightarrow> run_delete b db hs ti idn (Some c) s)"

definition delete_by_pk_field :: "builder \<Rightarrow> 's sqldb \<Rightarrow> 's hooks option \<Rightarrow> table_info \<Rightarrow> identity \<Rightarrow> gval gmap \<Rightarrow> 's
    \<Rightarrow> 's \<times> row option res" where
  "delete_by_pk_field b db hs ti idn args s =
     (case pk_cond b ti args of
        Inl e \<Rightarrow> (s, Inl e)
      | Inr c \<Rightarrow>
          (case ta_delete (ti_access ti) of
             None \<Rightarrow> (s, Inl (Go_Panic ''nil operation''))
           | Some oa \<Rightarrow>
               (case rbind (rbac_cond oa idn) (\<lambda>dc.
                        run_select b (d_query db s) ti idn no_args (Some (combine_conds [Some c, dc])) True) of
                  Inl e \<Rightarrow> (s, Inl e)
                | Inr rows \<Rightarrow>
                    (case run_delete b db hs ti idn (Some c) s of
                       (s', Inl e) \<Rightarrow> (s', Inl e)
                     | (s', Inr n) \<Rightarrow>
                         (s', Inr (if n = 0 then None else case rows of [] \<Rightarrow> None | row # _ \<Rightarrow> Some row))))))"

lemma rbind_pure: "rbind m (\<lambda>x. Inr (f x)) = Inr c \<Longrightarrow> \<exists>x. c = f x"
  by auto

lemma pk_cond_ok: "pk_cond b ti args = Inr c \<Longrightarrow> cond_ok c"
proof -
  assume pk: "pk_cond b ti args = Inr c"
  from rbind_pure [OF pk [unfolded pk_cond_def]] obtain cs :: "(column \<times> gval) list" where c: "c = cond (join '' AND '' (map (\<lambda>(col, x). quote_ident (col_name col) @ '' = ?'') cs)) (map snd cs)"
    by blast
  have "(\<lambda>(col, x). quote_ident (col_name col) @ '' = ?'') = (\<lambda>p :: column \<times> gval. quote_ident (col_name (fst p)) @ '' = ?'')"
    by auto
  then show ?thesis
    using sqlid.quoted_equalities [of "map (\<lambda>p. col_name (fst p)) cs"] by (simp add: c cond_ok_def comp_def)
qed



end
