(* ===== verification/DataLoader.thy ===== *)
theory DataLoader
  imports Queries
begin

text \<open>
  The relationship loaders (\<open>schema/dataloader.go\<close>): signatures of key tuples, the grouping of
  batch results, the multi-round batcher with its four fields of state, and the request's set of
  loaders. A loader is used under its mutex, so its operations are atomic steps; \<open>loader_reach\<close> are
  the states any interleaving of them leads to.
\<close>

section \<open>Signatures and grouping\<close>

definition key_sig :: "stdlib \<Rightarrow> gval list \<Rightarrow> string" where
  "key_sig sl key =
     (case json_encode sl (VList key) of Inl _ \<Rightarrow> sl_go_syntax sl (VList key) | Inr s \<Rightarrow> s)"

definition row_key :: "string list \<Rightarrow> row \<Rightarrow> gval list" where
  "row_key cols r = map (gidx r) cols"

type_synonym groups = "row list gmap"

definition group_at :: "groups \<Rightarrow> string \<Rightarrow> row list" where
  "group_at g s = (case gget g s of None \<Rightarrow> [] | Some rows \<Rightarrow> rows)"

definition group_by_columns :: "stdlib \<Rightarrow> row list \<Rightarrow> string list \<Rightarrow> groups" where
  "group_by_columns sl rows cols =
     foldl (\<lambda>g r. let s = key_sig sl (row_key cols r) in gput s (group_at g s @ [r]) g) [] rows"

definition json_or_null :: "stdlib \<Rightarrow> gval option \<Rightarrow> string res" where
  "json_or_null sl v = (case v of None \<Rightarrow> Inr ''null'' | Some v \<Rightarrow> json_encode sl v)"

definition json_field :: "string \<Rightarrow> string \<Rightarrow> string" where
  "json_field k v = [CHR 0x22] @ k @ [CHR 0x22, CHR '':''] @ v"

definition args_signature :: "stdlib \<Rightarrow> list_args \<Rightarrow> string" where
  "args_signature sl la =
     (case rbind (json_or_null sl (map_option VMap (la_where la))) (\<lambda>w.
           rbind (json_or_null sl (map_option VList (la_order la))) (\<lambda>os.
           rbind (json_or_null sl (map_option VInt (la_limit la))) (\<lambda>l.
           rbind (json_or_null sl (map_option VInt (la_offset la))) (\<lambda>off.
             Inr (''{'' @ join '','' [json_field ''w'' w, json_field ''o'' os, json_field ''l'' l, json_field ''f'' off] @ ''}''))))) of
        Inr s \<Rightarrow> s
      | Inl _ \<Rightarrow> sl_go_syntax sl (VList [VMap (case la_where la of Some w \<Rightarrow> w | None \<Rightarrow> []), VList (order_items la)]))"

definition columns_readable :: "table_info \<Rightarrow> string list \<Rightarrow> bool" where
  "columns_readable ti cols =
     (case ta_select (ti_access ti) of None \<Rightarrow> False | Some oa \<Rightarrow> list_all (\<lambda>c. c \<in> oa_colset oa) cols)"

definition loader_key :: "string \<Rightarrow> string \<Rightarrow> string \<Rightarrow> string" where
  "loader_key direction constr arg_sig = join [CHR 0x00] [direction, constr, arg_sig]"

section \<open>The loader\<close>

type_synonym load_fn = "gval list list \<Rightarrow> groups res"

record loader =
  ld_seen :: "string set"
  ld_pending :: "gval list list"
  ld_loaded :: "string set"
  ld_by_key :: groups
  ld_err :: "gerr option"

definition new_loader :: loader where
  "new_loader = \<lparr>ld_seen = {}, ld_pending = [], ld_loaded = {}, ld_by_key = [], ld_err = None\<rparr>"

definition enqueue :: "stdlib \<Rightarrow> gval list \<Rightarrow> loader \<Rightarrow> loader" where
  "enqueue sl key l =
     (let s = key_sig sl key
      in if s \<in> ld_seen l then l
         else l\<lparr>ld_seen := insert s (ld_seen l), ld_pending := ld_pending l @ [key]\<rparr>)"

definition add_groups :: "groups \<Rightarrow> groups \<Rightarrow> groups" where
  "add_groups res g = foldl (\<lambda>g (s, rows). gput s rows g) g res"

definition fetch :: "stdlib \<Rightarrow> load_fn \<Rightarrow> gval list \<Rightarrow> loader \<Rightarrow> loader \<times> row list res" where
  "fetch sl load_fn key l =
     (let s = key_sig sl key
      in case ld_err l of
           Some e \<Rightarrow> (l, Inl e)
         | None \<Rightarrow>
             if s \<notin> ld_loaded l \<and> ld_pending l \<noteq> [] then
               (case load_fn (ld_pending l) of
                  Inl e \<Rightarrow> (l\<lparr>ld_pending := [], ld_err := Some e\<rparr>, Inl e)
                | Inr res \<Rightarrow>
                    let l' = l\<lparr>ld_pending := [],
                               ld_loaded := ld_loaded l \<union> set (map (key_sig sl) (ld_pending l)),
                               ld_by_key := add_groups res (ld_by_key l)\<rparr>
                    in (l', Inr (group_at (ld_by_key l') s)))
             else (l, Inr (group_at (ld_by_key l) s)))"

text \<open>The request's loaders: \<open>getOrCreate\<close>, with the value that \<open>make\<close> returns.\<close>

definition get_or_create :: "string \<Rightarrow> 'l \<Rightarrow> 'l gmap \<Rightarrow> 'l gmap \<times> 'l" where
  "get_or_create key made ls =
     (case gget ls key of
        Some l \<Rightarrow> (ls, l)
      | None \<Rightarrow> (gput key made ls, made))"

text \<open>The batches a fetch sends to the database.\<close>

definition flushed :: "stdlib \<Rightarrow> gval list \<Rightarrow> loader \<Rightarrow> gval list list list" where
  "flushed sl key l =
     (if ld_err l = None \<and> key_sig sl key \<notin> ld_loaded l \<and> ld_pending l \<noteq> [] then [ld_pending l] else [])"

section \<open>Reachable states\<close>

inductive loader_reach :: "stdlib \<Rightarrow> load_fn \<Rightarrow> loader \<Rightarrow> gval list list list \<Rightarrow> bool" for sl load_fn where
  init: "loader_reach sl load_fn new_loader []"
| enqueue: "loader_reach sl load_fn l log \<Longrightarrow> loader_reach sl load_fn (enqueue sl key l) log"
| fetch: "loader_reach sl load_fn l log \<Longrightarrow>
    loader_reach sl load_fn (fst (fetch sl load_fn key l)) (log @ flushed sl key l)"

text \<open>A batch function answers each key of the batch as a query for that key alone would, and
  returns groups for keys of the batch only.\<close>

locale batch_load =
  fixes sl :: stdlib and load_fn :: load_fn and direct :: "string \<Rightarrow> row list"
  assumes load_group: "load_fn ks = Inr g \<Longrightarrow> k \<in> set ks \<Longrightarrow> group_at g (key_sig sl k) = direct (key_sig sl k)"
    and load_only: "load_fn ks = Inr g \<Longrightarrow> s \<in> dom (gget g) \<Longrightarrow> s \<in> key_sig sl ` set ks"
    and load_distinct: "load_fn ks = Inr g \<Longrightarrow> gmap_ok g"
begin

definition sigs :: "gval list list \<Rightarrow> string list" where
  "sigs ks = map (key_sig sl) ks"

lemma sigs_append [simp]: "sigs (ks @ ks') = sigs ks @ sigs ks'" "sigs [] = []" "sigs [k] = [key_sig sl k]"
  by (simp_all add: sigs_def)

definition inv :: "loader \<Rightarrow> gval list list list \<Rightarrow> bool" where
  "inv l log \<longleftrightarrow>
     distinct (sigs (concat log) @ sigs (ld_pending l)) \<and>
     ld_seen l = set (sigs (concat log)) \<union> set (sigs (ld_pending l)) \<and>
     ld_loaded l \<subseteq> set (sigs (concat log)) \<and>
     (ld_err l = None \<longrightarrow> ld_loaded l = set (sigs (concat log))) \<and>
     (\<forall>s\<in>ld_loaded l. group_at (ld_by_key l) s = direct s) \<and>
     dom (gget (ld_by_key l)) \<subseteq> ld_loaded l"

lemma add_groups_at:
  "gmap_ok res \<Longrightarrow> gget (add_groups res g) = gget g ++ gget res"
  by (simp add: add_groups_def foldl_gput_gget map_of_rev_distinct)

lemma inv_init: "inv new_loader []"
  by (simp add: inv_def new_loader_def)

lemma inv_enqueue: "inv l log \<Longrightarrow> inv (enqueue sl key l) log"
  by (auto simp: inv_def enqueue_def Let_def)

lemma fetch_cases:
  obtains (failed) e where "ld_err l = Some e" "fetch sl load_fn key l = (l, Inl e)" "flushed sl key l = []"
  | (served) "ld_err l = None" "key_sig sl key \<in> ld_loaded l \<or> ld_pending l = []"
      "fetch sl load_fn key l = (l, Inr (group_at (ld_by_key l) (key_sig sl key)))" "flushed sl key l = []"
  | (broken) e where "ld_err l = None" "load_fn (ld_pending l) = Inl e"
      "fetch sl load_fn key l = (l\<lparr>ld_pending := [], ld_err := Some e\<rparr>, Inl e)" "flushed sl key l = [ld_pending l]"
  | (loaded) res l' where "ld_err l = None" "load_fn (ld_pending l) = Inr res"
      "l' = l\<lparr>ld_pending := [], ld_loaded := ld_loaded l \<union> set (sigs (ld_pending l)),
         ld_by_key := add_groups res (ld_by_key l)\<rparr>"
      "fetch sl load_fn key l = (l', Inr (group_at (ld_by_key l') (key_sig sl key)))" "flushed sl key l = [ld_pending l]"
proof (cases "ld_err l")
  case (Some e)
  then show ?thesis using failed by (simp add: fetch_def flushed_def)
next
  case None
  show ?thesis
  proof (cases "key_sig sl key \<in> ld_loaded l \<or> ld_pending l = []")
    case True
    then show ?thesis using served None by (auto simp: fetch_def flushed_def Let_def)
  next
    case False
    then show ?thesis using broken loaded None
      by (cases "load_fn (ld_pending l)") (auto simp: fetch_def flushed_def Let_def sigs_def)
  qed
qed

lemma groups_added:
  assumes "load_fn ks = Inr res" "dom (gget g) \<inter> set (sigs ks) = {}"
  shows "s \<in> set (sigs ks) \<Longrightarrow> group_at (add_groups res g) s = direct s"
    and "s \<notin> set (sigs ks) \<Longrightarrow> group_at (add_groups res g) s = group_at g s"
    and "dom (gget (add_groups res g)) \<subseteq> dom (gget g) \<union> set (sigs ks)"
proof -
  note at = add_groups_at [OF load_distinct [OF assms(1)], of g]
  have dom: "dom (gget res) \<subseteq> set (sigs ks)" using load_only [OF assms(1)] by (auto simp: sigs_def)
  show "dom (gget (add_groups res g)) \<subseteq> dom (gget g) \<union> set (sigs ks)"
    using dom by (auto simp: at)
  show "s \<notin> set (sigs ks) \<Longrightarrow> group_at (add_groups res g) s = group_at g s"
    using dom by (auto simp: at group_at_def map_add_def split: option.splits)
  assume s: "s \<in> set (sigs ks)"
  then have "group_at res s = direct s" using load_group [OF assms(1)] by (auto simp: sigs_def)
  moreover have "gget g s = None" using s assms(2) by auto
  ultimately show "group_at (add_groups res g) s = direct s"
    by (auto simp: at group_at_def map_add_def split: option.splits)
qed

lemma inv_fetch: "inv l log \<Longrightarrow> inv (fst (fetch sl load_fn key l)) (log @ flushed sl key l)"
proof (cases rule: fetch_cases [of l key])
  case (loaded res l')
  assume i: "inv l log"
  then have d: "ld_loaded l \<inter> set (sigs (ld_pending l)) = {}" "dom (gget (ld_by_key l)) \<subseteq> ld_loaded l"
    unfolding inv_def distinct_append by blast+
  then have "dom (gget (ld_by_key l)) \<inter> set (sigs (ld_pending l)) = {}" by blast
  note g = groups_added [OF loaded(2) this]
  have "\<forall>s\<in>ld_loaded l \<union> set (sigs (ld_pending l)). group_at (add_groups res (ld_by_key l)) s = direct s"
    using g(1,2) d(1) i unfolding inv_def by (metis Int_iff UnE empty_iff)
  moreover have "dom (gget (add_groups res (ld_by_key l))) \<subseteq> ld_loaded l \<union> set (sigs (ld_pending l))"
    using g(3) d(2) by blast
  ultimately show ?thesis
    using i loaded(1) by (auto simp: inv_def loaded(3-5))
qed (auto simp: inv_def)

lemma reach_inv: "loader_reach sl load_fn l log \<Longrightarrow> inv l log"
  by (induction rule: loader_reach.induct) (blast intro: inv_init inv_enqueue inv_fetch)+

lemma fetch_direct:
  assumes "loader_reach sl load_fn l log" "key_sig sl key \<in> ld_seen l"
    and "fetch sl load_fn key l = (l', Inr rows)"
  shows "rows = direct (key_sig sl key)"
proof -
  have i: "inv l log" using reach_inv [OF assms(1)] .
  then have i': "inv l' (log @ flushed sl key l)" using inv_fetch [OF i, of key] assms(3) by simp
  show ?thesis
  proof (cases rule: fetch_cases [of l key])
    case served
    then have "key_sig sl key \<in> ld_loaded l" using assms(2) i by (auto simp: inv_def)
    with i served assms(3) show ?thesis by (simp add: inv_def)
  next
    case (loaded res m)
    have m: "l' = m" "rows = group_at (ld_by_key l') (key_sig sl key)"
      using assms(3) unfolding loaded(4) by auto
    have "key_sig sl key \<in> ld_loaded m" using assms(2) i loaded by (auto simp: inv_def)
    with i' m show ?thesis by (simp add: inv_def)
  qed (use assms(3) in simp_all)
qed

lemma batches_distinct: "loader_reach sl load_fn l log \<Longrightarrow> distinct (sigs (concat log))"
  using reach_inv by (auto simp: inv_def)

end

section \<open>Batches grouped from rows\<close>

definition rows_at :: "stdlib \<Rightarrow> string list \<Rightarrow> row list \<Rightarrow> string \<Rightarrow> row list" where
  "rows_at sl cols rows s = filter (\<lambda>r. key_sig sl (row_key cols r) = s) rows"

text \<open>The rows of a relation whose join columns match one of the keys, in their order: what the
  statement of \<open>runSelectByKeys\<close> selects.\<close>

definition rows_with :: "stdlib \<Rightarrow> string list \<Rightarrow> row list \<Rightarrow> gval list list \<Rightarrow> row list" where
  "rows_with sl cols rows ks = filter (\<lambda>r. key_sig sl (row_key cols r) \<in> key_sig sl ` set ks) rows"

lemma group_by_snoc:
  "group_by_columns sl (rows @ [r]) cols =
     (let g = group_by_columns sl rows cols; s = key_sig sl (row_key cols r) in gput s (group_at g s @ [r]) g)"
  by (simp add: group_by_columns_def Let_def)

lemma group_by_columns_at: "group_at (group_by_columns sl rows cols) s = rows_at sl cols rows s"
proof (induction rows rule: rev_induct)
  case (snoc r rows)
  then show ?case
    by (auto simp: group_by_snoc Let_def rows_at_def group_at_def split: option.splits)
qed (simp add: group_by_columns_def group_at_def rows_at_def)

lemma group_by_columns_dom: "dom (gget (group_by_columns sl rows cols)) = (\<lambda>r. key_sig sl (row_key cols r)) ` set rows"
  by (induction rows rule: rev_induct) (auto simp: group_by_snoc Let_def group_by_columns_def)

lemma group_by_columns_ok: "gmap_ok (group_by_columns sl rows cols)"
  by (induction rows rule: rev_induct) (auto simp: group_by_snoc Let_def gmap_ok_gput, simp add: group_by_columns_def gmap_ok_def)

text \<open>\<open>rows_at\<close> of a batch is \<open>rows_at\<close> of the relation, for the keys of the batch.\<close>

lemma rows_at_with: "k \<in> set ks \<Longrightarrow> rows_at sl cols (rows_with sl cols rows ks) (key_sig sl k) = rows_at sl cols rows (key_sig sl k)"
  by (auto simp: rows_at_def rows_with_def intro: filter_cong)

definition batch_fn :: "stdlib \<Rightarrow> (gval list list \<Rightarrow> row list res) \<Rightarrow> string list \<Rightarrow> load_fn" where
  "batch_fn sl query cols ks = rbind (query ks) (\<lambda>rows. Inr (group_by_columns sl rows cols))"

lemma rows_with_keys: "r \<in> set (rows_with sl cols rows ks) \<Longrightarrow> key_sig sl (row_key cols r) \<in> key_sig sl ` set ks"
  by (simp add: rows_with_def)

text \<open>A relation as the batched query sees it: it answers with its rows, or fails.\<close>

definition relation_query :: "(gval list list \<Rightarrow> gerr option) \<Rightarrow> stdlib \<Rightarrow> string list \<Rightarrow> row list \<Rightarrow> gval list list \<Rightarrow> row list res" where
  "relation_query fault sl cols rows ks =
     (case fault ks of Some e \<Rightarrow> Inl e | None \<Rightarrow> Inr (rows_with sl cols rows ks))"

lemma batch_fn_Inr:
  "batch_fn sl (relation_query fault sl cols rows) cols ks = Inr g \<longleftrightarrow>
     fault ks = None \<and> g = group_by_columns sl (rows_with sl cols rows ks) cols"
  by (auto simp: batch_fn_def relation_query_def split: option.splits)

interpretation grouped: batch_load sl "batch_fn sl (relation_query fault sl cols rows) cols" "rows_at sl cols rows"
  for sl fault cols rows
  by unfold_locales
    (use rows_with_keys in \<open>auto simp: batch_fn_Inr group_by_columns_at rows_at_with group_by_columns_ok group_by_columns_dom\<close>)

section \<open>Waves\<close>

text \<open>The thunks of one breadth-first wave, fired one after the other: the state they leave, their
  results, and the batches they sent.\<close>

fun fetch_all :: "stdlib \<Rightarrow> load_fn \<Rightarrow> gval list list \<Rightarrow> loader \<Rightarrow> loader \<times> row list res list \<times> gval list list list" where
  "fetch_all sl fn [] l = (l, [], [])"
| "fetch_all sl fn (k # ks) l =
     (let (l1, r) = fetch sl fn k l; (l2, rs, bs) = fetch_all sl fn ks l1
      in (l2, r # rs, flushed sl k l @ bs))"

definition enqueue_all :: "stdlib \<Rightarrow> gval list list \<Rightarrow> loader \<Rightarrow> loader" where
  "enqueue_all sl ks l = foldl (\<lambda>l k. enqueue sl k l) l ks"

lemma enqueue_all_Nil [simp]: "enqueue_all sl [] l = l"
  by (simp add: enqueue_all_def)

lemma enqueue_all_Cons [simp]: "enqueue_all sl (k # ks) l = enqueue_all sl ks (enqueue sl k l)"
  by (simp add: enqueue_all_def)

lemma enqueue_fields [simp]:
  "ld_seen (enqueue sl k l) = insert (key_sig sl k) (ld_seen l)"
  "ld_loaded (enqueue sl k l) = ld_loaded l" "ld_err (enqueue sl k l) = ld_err l"
  by (auto simp: enqueue_def Let_def)

lemma enqueue_all_fields [simp]:
  "ld_seen (enqueue_all sl ks l) = ld_seen l \<union> key_sig sl ` set ks"
  "ld_loaded (enqueue_all sl ks l) = ld_loaded l" "ld_err (enqueue_all sl ks l) = ld_err l"
  by (induction ks arbitrary: l) auto

lemma enqueue_all_reach: "loader_reach sl fn l log \<Longrightarrow> loader_reach sl fn (enqueue_all sl ks l) log"
  by (induction ks arbitrary: l) (auto intro: loader_reach.enqueue)

lemma fetch_all_reach:
  "loader_reach sl fn l log \<Longrightarrow> fetch_all sl fn ks l = (l', rs, bs) \<Longrightarrow> loader_reach sl fn l' (log @ bs)"
proof (induction ks arbitrary: l log rs bs)
  case (Cons k ks)
  obtain l1 r where f: "fetch sl fn k l = (l1, r)" by fastforce
  obtain rs' bs' where g: "fetch_all sl fn ks l1 = (l', rs', bs')" "bs = flushed sl k l @ bs'"
    using Cons.prems(2) f by (auto split: prod.splits)
  have "loader_reach sl fn l1 (log @ flushed sl k l)"
    using loader_reach.fetch [OF Cons.prems(1), of k] f by simp
  from Cons.IH [OF this g(1)] show ?case by (simp add: g(2))
qed simp

text \<open>Nothing pending, nothing sent.\<close>

lemma flushed_idle: "ld_pending l = [] \<Longrightarrow> flushed sl k l = []"
  by (simp add: flushed_def)

lemma fetch_idle: "ld_pending l = [] \<Longrightarrow> ld_pending (fst (fetch sl fn k l)) = []"
  by (auto simp: fetch_def Let_def split: option.splits sum.splits)

lemma fetch_flushes: "flushed sl k l \<noteq> [] \<Longrightarrow> ld_pending (fst (fetch sl fn k l)) = []"
  by (auto simp: fetch_def flushed_def Let_def split: option.splits sum.splits if_splits)

lemma fetch_all_idle: "ld_pending l = [] \<Longrightarrow> fetch_all sl fn ks l = (l', rs, bs) \<Longrightarrow> bs = []"
proof (induction ks arbitrary: l rs bs)
  case (Cons k ks)
  then show ?case using fetch_idle [of l sl fn k] by (auto simp: flushed_idle split: prod.splits)
qed simp

lemma fetch_all_batches:
  "fetch_all sl fn ks l = (l', rs, bs) \<Longrightarrow> length bs \<le> 1"
proof (induction ks arbitrary: l rs bs)
  case (Cons k ks)
  obtain l1 r where f: "fetch sl fn k l = (l1, r)" by fastforce
  obtain rs' bs' where g: "fetch_all sl fn ks l1 = (l', rs', bs')" "bs = flushed sl k l @ bs'"
    using Cons.prems f by (auto split: prod.splits)
  show ?case
  proof (cases "flushed sl k l = []")
    case True
    then show ?thesis using Cons.IH [OF g(1)] g(2) by simp
  next
    case False
    then have "ld_pending l1 = []" using fetch_flushes [OF False, of fn] f by simp
    then have "bs' = []" using fetch_all_idle g(1) by blast
    then show ?thesis using g(2) by (simp add: flushed_def)
  qed
qed simp

text \<open>Without a fault every fetch of a known key succeeds.\<close>

lemma fetch_seen: "ld_seen (fst (fetch sl fn k l)) = ld_seen l"
  by (auto simp: fetch_def Let_def split: option.splits sum.splits)

lemma fetch_ok:
  "ld_err l = None \<Longrightarrow> \<forall>ks. is_ok (fn ks) \<Longrightarrow> ld_err (fst (fetch sl fn k l)) = None \<and> is_ok (snd (fetch sl fn k l))"
  by (auto simp: fetch_def Let_def is_ok_def split: option.splits sum.splits)

lemma faultless: "is_ok (batch_fn sl (relation_query (\<lambda>_. None) sl cols rows) cols ks)"
  by (simp add: batch_fn_def relation_query_def)

lemma fetch_all_rows:
  fixes cols rows sl
  defines "fn \<equiv> batch_fn sl (relation_query (\<lambda>_. None) sl cols rows) cols"
  assumes "loader_reach sl fn l log" "ld_err l = None" "key_sig sl ` set ks \<subseteq> ld_seen l"
    and "fetch_all sl fn ks l = (l', rs, bs)"
  shows "rs = map (\<lambda>k. Inr (rows_at sl cols rows (key_sig sl k))) ks"
  using assms(2-)
proof (induction ks arbitrary: l log rs bs)
  case (Cons k ks)
  obtain l1 r where f: "fetch sl fn k l = (l1, r)" by fastforce
  obtain rs' bs' where g: "fetch_all sl fn ks l1 = (l', rs', bs')" "rs = r # rs'"
    using Cons.prems(4) f by (auto split: prod.splits)
  have ok: "ld_err l1 = None" "is_ok r"
    using fetch_ok [OF Cons.prems(2), of fn sl k] f by (simp_all add: fn_def faultless)
  obtain rows' where r: "r = Inr rows'" using ok(2) by (auto simp: is_ok_iff)
  have "rows' = rows_at sl cols rows (key_sig sl k)"
    by (rule grouped.fetch_direct [OF Cons.prems(1) [unfolded fn_def] _ f [unfolded fn_def r]]) (use Cons.prems(3) in simp)
  moreover have "loader_reach sl fn l1 (log @ flushed sl k l)"
    using loader_reach.fetch [OF Cons.prems(1), of k] f by simp
  moreover have "ld_seen l1 = ld_seen l" using fetch_seen [of sl fn k l] f by simp
  ultimately show ?case using Cons.IH [OF _ ok(1) _ g(1)] Cons.prems(3) g(2) r by auto
qed simp

section \<open>What the loaders guarantee\<close>

text \<open>In every state that enqueues and fetches can reach, a fetch of an enqueued key either
  returns exactly the rows of the relation with that key, in their order, or reports an error; and no
  key is ever sent to the database twice, whichever queries failed.\<close>

lemma loader_serves_direct:
  assumes "loader_reach sl (batch_fn sl (relation_query fault sl cols rows) cols) l log"
    and "key_sig sl key \<in> ld_seen l"
  shows "(\<forall>rs. snd (fetch sl (batch_fn sl (relation_query fault sl cols rows) cols) key l) = Inr rs \<longrightarrow>
            rs = filter (\<lambda>r. key_sig sl (row_key cols r) = key_sig sl key) rows)
    \<and> distinct (map (key_sig sl) (concat (log @ flushed sl key l)))"
proof -
  let ?fn = "batch_fn sl (relation_query fault sl cols rows) cols"
  have "rs = rows_at sl cols rows (key_sig sl key)" if "snd (fetch sl ?fn key l) = Inr rs" for rs
    by (rule grouped.fetch_direct [OF assms, of "fst (fetch sl ?fn key l)"]) (simp add: that [symmetric])
  moreover have "distinct (map (key_sig sl) (concat (log @ flushed sl key l)))"
    using grouped.batches_distinct [OF loader_reach.fetch [OF assms(1), of key]] by (simp add: grouped.sigs_def)
  ultimately show ?thesis by (auto simp: rows_at_def)
qed

definition demo_children :: "row list" where
  "demo_children = [[(''id'', VInt64 10), (''owner'', VInt64 1)], [(''id'', VInt64 11), (''owner'', VInt64 2)],
     [(''id'', VInt64 12), (''owner'', VInt64 1)]]"

definition demo_load :: load_fn where
  "demo_load = batch_fn demo_stdlib (relation_query (\<lambda>_. None) demo_stdlib [''owner''] demo_children) [''owner'']"

lemma demo_load_reach:
  "loader_reach demo_stdlib demo_load (enqueue_all demo_stdlib [[VInt64 1], [VInt64 2], [VInt64 1]] new_loader) []"
  by (rule enqueue_all_reach [OF loader_reach.init])

text \<open>C19: A wave of relationship fields (every key enqueued, then every thunk fired) sends at most
  one statement to the database, sends no key that an earlier wave sent, and gives each parent exactly
  its rows, in order: batching changes the number of queries and not the answers. The loader may have
  served any number of waves before, as it does for recursive relationships.\<close>

theorem wave_one_batch:
  fixes cols rows sl
  defines "fn \<equiv> batch_fn sl (relation_query (\<lambda>_. None) sl cols rows) cols"
  assumes "loader_reach sl fn l log" "ld_err l = None"
    and "fetch_all sl fn ks (enqueue_all sl ks l) = (l', rs, bs)"
  shows "rs = map (\<lambda>k. Inr (filter (\<lambda>r. key_sig sl (row_key cols r) = key_sig sl k) rows)) ks
    \<and> length bs \<le> 1 \<and> distinct (map (key_sig sl) (concat (log @ bs)))"
proof (intro conjI)
  have r: "loader_reach sl fn (enqueue_all sl ks l) log" using enqueue_all_reach assms(2) .
  show "rs = map (\<lambda>k. Inr (filter (\<lambda>r. key_sig sl (row_key cols r) = key_sig sl k) rows)) ks"
    using fetch_all_rows [OF r [unfolded fn_def] _ _ assms(4) [unfolded fn_def]] assms(3) by (simp add: rows_at_def)
  show "length bs \<le> 1" using fetch_all_batches [OF assms(4)] .
  show "distinct (map (key_sig sl) (concat (log @ bs)))"
    using grouped.batches_distinct [OF fetch_all_reach [OF r assms(4), unfolded fn_def]] by (simp add: grouped.sigs_def)
qed

lemma demo_wave:
  "snd (snd (fetch_all demo_stdlib demo_load [[VInt64 1], [VInt64 2], [VInt64 1]]
     (enqueue_all demo_stdlib [[VInt64 1], [VInt64 2], [VInt64 1]] new_loader))) = [[[VInt64 1], [VInt64 2]]]"
  by code_simp

theorem wave_one_batch_witness:
  "\<exists>l' rs. fetch_all demo_stdlib demo_load [[VInt64 1], [VInt64 2], [VInt64 1]]
       (enqueue_all demo_stdlib [[VInt64 1], [VInt64 2], [VInt64 1]] new_loader) = (l', rs, [[[VInt64 1], [VInt64 2]]])
     \<and> rs = map (\<lambda>k. Inr (filter (\<lambda>r. key_sig demo_stdlib (row_key [''owner''] r) = key_sig demo_stdlib k) demo_children))
         [[VInt64 1], [VInt64 2], [VInt64 1]]"
proof -
  obtain l' rs where f: "fetch_all demo_stdlib demo_load [[VInt64 1], [VInt64 2], [VInt64 1]]
      (enqueue_all demo_stdlib [[VInt64 1], [VInt64 2], [VInt64 1]] new_loader) = (l', rs, [[[VInt64 1], [VInt64 2]]])"
    using demo_wave by (metis prod.collapse)
  have e: "ld_err new_loader = None" by (simp add: new_loader_def)
  from wave_one_batch [OF loader_reach.init e f [unfolded demo_load_def]] f show ?thesis by blast
qed

end
