(* ===== verification/Depth.thy ===== *)
theory Depth
  imports Gate_Values
begin

text \<open>
  The query depth limit (\<open>server/depth.go\<close>). The parser is a parameter; its documents are the parts
  of the syntax tree that the check looks at. The map \<open>computing\<close> is an argument: each call removes
  what it inserted before it returns, so its value on return is its value on entry.
\<close>

section \<open>Documents\<close>

text \<open>A missing selection set (a nil pointer) is \<open>None\<close>.\<close>

datatype selection =
    FieldNode "string option" "selection list option"
  | InlineFragment "selection list option"
  | FragmentSpread "string option"

type_synonym sel_set = "selection list option"

datatype query_def =
    OperationDefinition sel_set
  | FragmentDefinition "string option" sel_set
  | TypeDefinition

type_synonym document = "query_def list"

definition doc_fragments :: "document \<Rightarrow> sel_set gmap" where
  "doc_fragments doc =
     foldl (\<lambda>m d. case d of FragmentDefinition (Some n) ss \<Rightarrow> gput n ss m | _ \<Rightarrow> m) [] doc"

definition doc_operations :: "document \<Rightarrow> sel_set list" where
  "doc_operations doc = concat (map (\<lambda>d. case d of OperationDefinition ss \<Rightarrow> [ss] | _ \<Rightarrow> []) doc)"

section \<open>The check\<close>

type_synonym depth_memo = "string \<rightharpoonup> int"

text \<open>The fragments not under way, which bound the recursion.\<close>

definition open_fragments :: "sel_set gmap \<Rightarrow> string set \<Rightarrow> nat" where
  "open_fragments fr busy = card (set (map fst fr) - busy)"

lemma open_fragments_less:
  "gget fr n = Some ss \<Longrightarrow> n \<notin> busy \<Longrightarrow> open_fragments fr (insert n busy) < open_fragments fr busy"
proof -
  assume "gget fr n = Some ss" "n \<notin> busy"
  then have n: "n \<in> set (map fst fr) - busy" by (auto dest: map_of_SomeD intro: rev_image_eqI)
  have "set (map fst fr) - insert n busy = set (map fst fr) - busy - {n}" by auto
  then show ?thesis unfolding open_fragments_def using card_Diff1_less [OF _ n] by simp
qed

function (sequential) depth_of_set :: "sel_set gmap \<Rightarrow> string set \<Rightarrow> depth_memo \<Rightarrow> sel_set \<Rightarrow> depth_memo \<times> int"
  and depth_loop :: "sel_set gmap \<Rightarrow> string set \<Rightarrow> depth_memo \<Rightarrow> int \<Rightarrow> selection list \<Rightarrow> depth_memo \<times> int"
  and depth_of_sel :: "sel_set gmap \<Rightarrow> string set \<Rightarrow> depth_memo \<Rightarrow> selection \<Rightarrow> depth_memo \<times> int"
  and fragment_depth :: "sel_set gmap \<Rightarrow> string set \<Rightarrow> depth_memo \<Rightarrow> string \<Rightarrow> depth_memo \<times> int" where
  "depth_of_set fr busy memo None = (memo, 0)"
| "depth_of_set fr busy memo (Some ss) = depth_loop fr busy memo 0 ss"
| "depth_loop fr busy memo mx [] = (memo, mx)"
| "depth_loop fr busy memo mx (s # ss) =
     (case depth_of_sel fr busy memo s of
        (memo', d) \<Rightarrow> depth_loop fr busy memo' (if mx < d then d else mx) ss)"
| "depth_of_sel fr busy memo (FieldNode nm ss) = (case depth_of_set fr busy memo ss of (memo', d) \<Rightarrow> (memo', 1 + d))"
| "depth_of_sel fr busy memo (InlineFragment ss) = depth_of_set fr busy memo ss"
| "depth_of_sel fr busy memo (FragmentSpread None) = (memo, 0)"
| "depth_of_sel fr busy memo (FragmentSpread (Some name)) = fragment_depth fr busy memo name"
| "fragment_depth fr busy memo name =
     (case memo name of
        Some d \<Rightarrow> (memo, d)
      | None \<Rightarrow>
          if name \<in> busy then (memo, 0)
          else (case gget fr name of
                  None \<Rightarrow> (memo, 0)
                | Some ss \<Rightarrow>
                    (case depth_of_set fr (insert name busy) memo ss of
                       (memo', d) \<Rightarrow> (memo'(name \<mapsto> d), d))))"
  by pat_completeness auto

termination
proof (relation "measures
    [\<lambda>x. case x of Inl (Inl (fr, busy, _)) \<Rightarrow> open_fragments fr busy
        | Inl (Inr (fr, busy, _)) \<Rightarrow> open_fragments fr busy
        | Inr (Inl (fr, busy, _)) \<Rightarrow> open_fragments fr busy
        | Inr (Inr (fr, busy, _)) \<Rightarrow> open_fragments fr busy,
     \<lambda>x. case x of Inl (Inl (_, _, _, ss)) \<Rightarrow> 2 * size_option (size_list size) ss
        | Inl (Inr (_, _, _, _, ss)) \<Rightarrow> 2 * size_list size ss
        | Inr (Inl (_, _, _, s)) \<Rightarrow> 2 * size s + 1
        | Inr (Inr _) \<Rightarrow> 0]")
qed (auto simp: open_fragments_less)

text \<open>The loop over the operations.\<close>

definition check_op :: "sel_set gmap \<Rightarrow> int \<Rightarrow> depth_memo \<times> unit res \<Rightarrow> sel_set \<Rightarrow> depth_memo \<times> unit res" where
  "check_op fr max_depth st ss =
     (case st of
        (memo, Inl e) \<Rightarrow> (memo, Inl e)
      | (memo, Inr _) \<Rightarrow>
          (case depth_of_set fr {} memo ss of
             (memo', d) \<Rightarrow>
               (memo', if max_depth < d then Inl (Server_Err (Depth_Exceeded d max_depth)) else Inr ())))"

definition check_depth :: "(string \<Rightarrow> document option) \<Rightarrow> string \<Rightarrow> int \<Rightarrow> unit res" where
  "check_depth parse query max_depth =
     (if max_depth < 0 then Inr ()
      else (case parse query of
              None \<Rightarrow> Inr ()
            | Some doc \<Rightarrow>
                snd (foldl (check_op (doc_fragments doc) max_depth) (Map.empty, Inr ()) (doc_operations doc))))"

section \<open>Nesting\<close>

text \<open>\<open>deep fr ss k\<close>: some path through the selections \<open>ss\<close>, following fragments, passes \<open>k\<close> fields.\<close>

definition sels :: "sel_set \<Rightarrow> selection list" where
  "sels ss = (case ss of None \<Rightarrow> [] | Some l \<Rightarrow> l)"

lemma sels_simps [simp]: "sels None = []" "sels (Some l) = l"
  by (simp_all add: sels_def)

inductive deep :: "sel_set gmap \<Rightarrow> selection list \<Rightarrow> nat \<Rightarrow> bool" for fr where
  deep_0: "deep fr ss 0"
| deep_field: "FieldNode nm b \<in> set ss \<Longrightarrow> deep fr (sels b) k \<Longrightarrow> deep fr ss (Suc k)"
| deep_inline: "InlineFragment b \<in> set ss \<Longrightarrow> deep fr (sels b) k \<Longrightarrow> deep fr ss k"
| deep_spread: "FragmentSpread (Some n) \<in> set ss \<Longrightarrow> gget fr n = Some b \<Longrightarrow> deep fr (sels b) k \<Longrightarrow> deep fr ss k"

lemma deep_mono: "deep fr ss k \<Longrightarrow> set ss \<subseteq> set ss' \<Longrightarrow> deep fr ss' k"
  by (induction arbitrary: ss' rule: deep.induct) (blast intro: deep.intros)+

inductive_cases deep_NilE: "deep fr [] k"

lemma deep_Nil [simp]: "deep fr [] k \<longleftrightarrow> k = 0"
  by (auto intro: deep_0 elim: deep_NilE)

lemma deep_Cons: "deep fr (s # ss) k \<longleftrightarrow> deep fr [s] k \<or> deep fr ss k"
  by (subst (1 2 3) deep.simps) auto

inductive_simps deep_at:
  "deep fr [FieldNode nm b] k"
  "deep fr [InlineFragment b] k"
  "deep fr [FragmentSpread m] k"

lemma deep_single:
  "deep fr [FieldNode nm b] k \<longleftrightarrow> k = 0 \<or> (\<exists>j. k = Suc j \<and> deep fr (sels b) j)"
  "deep fr [InlineFragment b] k \<longleftrightarrow> k = 0 \<or> deep fr (sels b) k"
  "deep fr [FragmentSpread None] k \<longleftrightarrow> k = 0"
  "deep fr [FragmentSpread (Some n)] k \<longleftrightarrow> k = 0 \<or> (\<exists>b. gget fr n = Some b \<and> deep fr (sels b) k)"
  by (auto simp: deep_at)

section \<open>Fragments and cycles\<close>

inductive spread_in :: "selection list \<Rightarrow> string \<Rightarrow> bool" where
  "FragmentSpread (Some n) \<in> set ss \<Longrightarrow> spread_in ss n"
| "FieldNode nm b \<in> set ss \<Longrightarrow> spread_in (sels b) n \<Longrightarrow> spread_in ss n"
| "InlineFragment b \<in> set ss \<Longrightarrow> spread_in (sels b) n \<Longrightarrow> spread_in ss n"

inductive_simps spread_at:
  "spread_in [] n"
  "spread_in [FieldNode nm b] n"
  "spread_in [InlineFragment b] n"
  "spread_in [FragmentSpread m] n"

lemma spread_in_simps:
  "\<not> spread_in [] n"
  "spread_in (s # ss) n \<longleftrightarrow> spread_in [s] n \<or> spread_in ss n"
  "spread_in [FieldNode nm b] n \<longleftrightarrow> spread_in (sels b) n"
  "spread_in [InlineFragment b] n \<longleftrightarrow> spread_in (sels b) n"
  "spread_in [FragmentSpread m] n \<longleftrightarrow> m = Some n"
proof -
  show "spread_in (s # ss) n \<longleftrightarrow> spread_in [s] n \<or> spread_in ss n"
    by (subst (1 2 3) spread_in.simps) auto
qed (auto simp: spread_at)

definition frag_edges :: "sel_set gmap \<Rightarrow> (string \<times> string) set" where
  "frag_edges fr = {(m, n). \<exists>b. gget fr m = Some b \<and> spread_in (sels b) n}"

text \<open>A number is exact when it is the largest depth.\<close>

definition exact :: "sel_set gmap \<Rightarrow> selection list \<Rightarrow> int \<Rightarrow> bool" where
  "exact fr ss d \<longleftrightarrow> (\<forall>k. deep fr ss k \<longleftrightarrow> int k \<le> d)"

definition memo_exact :: "sel_set gmap \<Rightarrow> depth_memo \<Rightarrow> bool" where
  "memo_exact fr memo \<longleftrightarrow> (\<forall>n d. memo n = Some d \<longrightarrow> (\<exists>b. gget fr n = Some b \<and> exact fr (sels b) d))"

text \<open>The fragments under way lead to every spread that is still to be read.\<close>

definition under_way :: "sel_set gmap \<Rightarrow> string set \<Rightarrow> selection list \<Rightarrow> bool" where
  "under_way fr busy ss \<longleftrightarrow> (\<forall>c\<in>busy. \<forall>n. spread_in ss n \<longrightarrow> (c, n) \<in> (frag_edges fr)\<^sup>+)"

lemma exact_nonneg: "exact fr ss d \<Longrightarrow> 0 \<le> d"
  using deep_0 [of fr ss] by (auto simp: exact_def)

lemma exact_simps:
  "exact fr [] 0"
  "exact fr (sels b) d \<Longrightarrow> exact fr [FieldNode nm b] (1 + d)"
  "exact fr (sels b) d \<Longrightarrow> exact fr [InlineFragment b] d"
  "exact fr [FragmentSpread None] 0"
  "gget fr n = None \<Longrightarrow> exact fr [FragmentSpread (Some n)] 0"
  "gget fr n = Some b \<Longrightarrow> exact fr (sels b) d \<Longrightarrow> exact fr [FragmentSpread (Some n)] d"
proof -
  assume b: "exact fr (sels b) d"
  then have nn: "0 \<le> d" and d: "deep fr (sels b) k \<longleftrightarrow> int k \<le> d" for k
    using exact_nonneg by (auto simp: exact_def)
  show "exact fr [FieldNode nm b] (1 + d)"
    unfolding exact_def
  proof
    fix k show "deep fr [FieldNode nm b] k \<longleftrightarrow> int k \<le> 1 + d"
      using nn by (cases k) (simp_all add: deep_single d)
  qed
  show "exact fr [InlineFragment b] d" using nn by (auto simp: exact_def deep_single d)
  show "exact fr [FragmentSpread (Some n)] d" if "gget fr n = Some b"
    using nn that by (auto simp: exact_def deep_single d)
qed (simp_all add: exact_def deep_single)

lemma exact_Cons:
  assumes "exact fr [s] d" "deep fr ss k \<or> int k \<le> (if mx < d then d else mx) \<longleftrightarrow> int k \<le> d'"
  shows "deep fr (s # ss) k \<or> int k \<le> mx \<longleftrightarrow> int k \<le> d'"
proof -
  have "deep fr [s] k \<longleftrightarrow> int k \<le> d" using assms(1) by (simp add: exact_def)
  moreover have "int k \<le> (if mx < d then d else mx) \<longleftrightarrow> int k \<le> d \<or> int k \<le> mx" by auto
  ultimately show ?thesis using assms(2) deep_Cons by blast
qed

lemma exact_loop: "\<forall>k. deep fr ss k \<or> int k \<le> 0 \<longleftrightarrow> int k \<le> d \<Longrightarrow> exact fr ss d"
  using deep_0 unfolding exact_def by (metis of_nat_le_0_iff)

lemma memo_exact_upd:
  "memo_exact fr memo \<Longrightarrow> gget fr n = Some b \<Longrightarrow> exact fr (sels b) d \<Longrightarrow> memo_exact fr (memo(n \<mapsto> d))"
  by (auto simp: memo_exact_def)

lemma under_way_simps:
  "under_way fr busy (s # ss) \<longleftrightarrow> under_way fr busy [s] \<and> under_way fr busy ss"
  "under_way fr busy [FieldNode nm b] \<longleftrightarrow> under_way fr busy (sels b)"
  "under_way fr busy [InlineFragment b] \<longleftrightarrow> under_way fr busy (sels b)"
  unfolding under_way_def spread_in_simps(2) [of s ss] spread_in_simps(3,4) by blast+

lemma under_way_enter:
  assumes "under_way fr busy [FragmentSpread (Some n)]" "gget fr n = Some b"
  shows "under_way fr (insert n busy) (sels b)"
proof -
  have e: "(n, m) \<in> frag_edges fr" if "spread_in (sels b) m" for m
    using that assms(2) by (auto simp: frag_edges_def)
  have "(c, n) \<in> (frag_edges fr)\<^sup>+" if "c \<in> busy" for c
    using assms(1) that by (auto simp: under_way_def spread_in_simps(5))
  with e show ?thesis by (auto simp: under_way_def intro: trancl_into_trancl)
qed

lemma under_way_free:
  assumes "acyclic (frag_edges fr)" "under_way fr busy [FragmentSpread (Some n)]"
  shows "n \<notin> busy"
  using assms by (auto simp: under_way_def spread_in_simps(5) acyclic_def)

lemma depth_exact:
  assumes "acyclic (frag_edges fr)"
  shows "memo_exact fr memo \<Longrightarrow> under_way fr busy (sels b) \<Longrightarrow>
      (case depth_of_set fr busy memo b of (memo', d) \<Rightarrow> memo_exact fr memo' \<and> exact fr (sels b) d)"
    and "memo_exact fr memo \<Longrightarrow> under_way fr busy ss \<Longrightarrow> 0 \<le> mx \<Longrightarrow>
      (case depth_loop fr busy memo mx ss of (memo', d) \<Rightarrow>
         memo_exact fr memo' \<and> (\<forall>k. deep fr ss k \<or> int k \<le> mx \<longleftrightarrow> int k \<le> d))"
    and "memo_exact fr memo \<Longrightarrow> under_way fr busy [s] \<Longrightarrow>
      (case depth_of_sel fr busy memo s of (memo', d) \<Rightarrow> memo_exact fr memo' \<and> exact fr [s] d)"
    and "memo_exact fr memo \<Longrightarrow> under_way fr busy [FragmentSpread (Some n)] \<Longrightarrow>
      (case fragment_depth fr busy memo n of (memo', d) \<Rightarrow>
         memo_exact fr memo' \<and> exact fr [FragmentSpread (Some n)] d)"
  using assms
proof (induction fr busy memo b and fr busy memo mx ss and fr busy memo s and fr busy memo n
    rule: depth_of_set_depth_loop_depth_of_sel_fragment_depth.induct)
  case (2 fr busy memo ss)
  then have "case depth_loop fr busy memo 0 ss of (memo', d) \<Rightarrow>
      memo_exact fr memo' \<and> (\<forall>k. deep fr ss k \<or> int k \<le> 0 \<longleftrightarrow> int k \<le> d)" by simp
  then show ?case using exact_loop by (auto split: prod.splits)
next
  case (4 fr busy memo mx s ss)
  obtain memo1 d where s: "depth_of_sel fr busy memo s = (memo1, d)" by fastforce
  obtain memo2 d' where ss: "depth_loop fr busy memo1 (if mx < d then d else mx) ss = (memo2, d')" by fastforce
  have u: "under_way fr busy [s]" "under_way fr busy ss" using under_way_simps(1) [THEN iffD1, OF "4.prems"(2)] by blast+
  have 1: "memo_exact fr memo1" "exact fr [s] d" using "4.IH"(1) [OF "4.prems"(1) u(1)] "4.prems"(4) s by simp_all
  have 2: "memo_exact fr memo2" "\<And>k. deep fr ss k \<or> int k \<le> (if mx < d then d else mx) \<longleftrightarrow> int k \<le> d'"
    using "4.IH"(2) [OF s [symmetric] 1(1) u(2) _ "4.prems"(4)] "4.prems"(3) ss by auto
  then show ?case using 2(1) exact_Cons [OF 1(2) 2(2)] s ss by simp
next
  case (9 fr busy memo name)
  have free: "name \<notin> busy" using under_way_free "9.prems" by blast
  show ?case
  proof (cases "memo name")
    case (Some d)
    then obtain b where "gget fr name = Some b" "exact fr (sels b) d" using "9.prems"(1) by (auto simp: memo_exact_def)
    then show ?thesis using Some "9.prems"(1) by (simp add: exact_simps(6))
  next
    case None
    show ?thesis
    proof (cases "gget fr name")
      case None
      then show ?thesis using \<open>memo name = None\<close> free "9.prems"(1) by (simp add: exact_simps(5))
    next
      case (Some b)
      obtain memo1 d where f: "depth_of_set fr (insert name busy) memo b = (memo1, d)" by fastforce
      have "memo_exact fr memo1 \<and> exact fr (sels b) d"
        using "9.IH" [OF None free Some "9.prems"(1) under_way_enter [OF "9.prems"(2) Some] "9.prems"(3)] f by simp
      then show ?thesis
        using None free Some f by (auto intro: memo_exact_upd exact_simps(6))
    qed
  qed
qed (auto simp: exact_simps under_way_simps(2,3) split: prod.splits)

section \<open>The work of the check\<close>

text \<open>The selections a call reads, counted once per call of \<open>depth_of_sel\<close>.\<close>

function (sequential) visits_set :: "sel_set gmap \<Rightarrow> string set \<Rightarrow> depth_memo \<Rightarrow> sel_set \<Rightarrow> nat"
  and visits_loop :: "sel_set gmap \<Rightarrow> string set \<Rightarrow> depth_memo \<Rightarrow> selection list \<Rightarrow> nat"
  and visits_sel :: "sel_set gmap \<Rightarrow> string set \<Rightarrow> depth_memo \<Rightarrow> selection \<Rightarrow> nat"
  and visits_fragment :: "sel_set gmap \<Rightarrow> string set \<Rightarrow> depth_memo \<Rightarrow> string \<Rightarrow> nat" where
  "visits_set fr busy memo None = 0"
| "visits_set fr busy memo (Some ss) = visits_loop fr busy memo ss"
| "visits_loop fr busy memo [] = 0"
| "visits_loop fr busy memo (s # ss) =
     visits_sel fr busy memo s + visits_loop fr busy (fst (depth_of_sel fr busy memo s)) ss"
| "visits_sel fr busy memo (FieldNode nm ss) = 1 + visits_set fr busy memo ss"
| "visits_sel fr busy memo (InlineFragment ss) = 1 + visits_set fr busy memo ss"
| "visits_sel fr busy memo (FragmentSpread None) = 1"
| "visits_sel fr busy memo (FragmentSpread (Some name)) = 1 + visits_fragment fr busy memo name"
| "visits_fragment fr busy memo name =
     (if memo name \<noteq> None \<or> name \<in> busy then 0
      else (case gget fr name of
              None \<Rightarrow> 0
            | Some ss \<Rightarrow> visits_set fr (insert name busy) memo ss))"
  by pat_completeness auto
termination
proof (relation "measures
    [\<lambda>x. case x of Inl (Inl (fr, busy, _)) \<Rightarrow> open_fragments fr busy
        | Inl (Inr (fr, busy, _)) \<Rightarrow> open_fragments fr busy
        | Inr (Inl (fr, busy, _)) \<Rightarrow> open_fragments fr busy
        | Inr (Inr (fr, busy, _)) \<Rightarrow> open_fragments fr busy,
     \<lambda>x. case x of Inl (Inl (_, _, _, ss)) \<Rightarrow> 2 * size_option (size_list size) ss
        | Inl (Inr (_, _, _, ss)) \<Rightarrow> 2 * size_list size ss
        | Inr (Inl (_, _, _, s)) \<Rightarrow> 2 * size s + 1
        | Inr (Inr _) \<Rightarrow> 0]")
qed (auto simp: open_fragments_less)

text \<open>The selections written in a selection set.\<close>

fun sel_count :: "selection \<Rightarrow> nat" where
  "sel_count (FieldNode nm None) = 1"
| "sel_count (FieldNode nm (Some ss)) = 1 + sum_list (map sel_count ss)"
| "sel_count (InlineFragment None) = 1"
| "sel_count (InlineFragment (Some ss)) = 1 + sum_list (map sel_count ss)"
| "sel_count (FragmentSpread n) = 1"

definition set_count :: "sel_set \<Rightarrow> nat" where
  "set_count ss = sum_list (map sel_count (sels ss))"

lemma sel_count_simps [simp]:
  "sel_count (FieldNode nm b) = 1 + set_count b" "sel_count (InlineFragment b) = 1 + set_count b"
  "set_count None = 0" "set_count (Some ss) = sum_list (map sel_count ss)"
  by (cases b; simp add: set_count_def)+

text \<open>The selections of the fragments that are neither known nor under way.\<close>

definition unread :: "sel_set gmap \<Rightarrow> string set \<Rightarrow> depth_memo \<Rightarrow> nat" where
  "unread fr busy memo = (\<Sum>n \<in> dom (gget fr) - busy - dom memo. set_count (the (gget fr n)))"

lemma unread_enter:
  assumes "gget fr n = Some b" "n \<notin> busy" "memo n = None"
  shows "unread fr busy memo = set_count b + unread fr (insert n busy) memo"
proof -
  have "dom (gget fr) - busy - dom memo = insert n (dom (gget fr) - insert n busy - dom memo)"
    using assms by auto
  then show ?thesis using assms(1) finite_dom_map_of [of fr] by (simp add: unread_def)
qed

lemma unread_leave: "unread fr busy (memo(n \<mapsto> d)) = unread fr (insert n busy) memo"
proof -
  have "dom (gget fr) - busy - dom (memo(n \<mapsto> d)) = dom (gget fr) - insert n busy - dom memo" by auto
  then show ?thesis by (simp only: unread_def)
qed

lemma visits_bound:
  "visits_set fr busy memo b + unread fr busy (fst (depth_of_set fr busy memo b)) \<le> set_count b + unread fr busy memo"
  "visits_loop fr busy memo ss + unread fr busy (fst (depth_loop fr busy memo mx ss))
     \<le> sum_list (map sel_count ss) + unread fr busy memo"
  "visits_sel fr busy memo s + unread fr busy (fst (depth_of_sel fr busy memo s)) \<le> sel_count s + unread fr busy memo"
  "visits_fragment fr busy memo n + unread fr busy (fst (fragment_depth fr busy memo n)) \<le> unread fr busy memo"
proof (induction fr busy memo b and fr busy memo mx ss and fr busy memo s and fr busy memo n
    rule: depth_of_set_depth_loop_depth_of_sel_fragment_depth.induct)
  case (4 fr busy memo mx s ss)
  obtain memo1 d where s: "depth_of_sel fr busy memo s = (memo1, d)" by fastforce
  from "4.IH"(1) "4.IH"(2) [OF s [symmetric]] show ?case by (simp add: s)
next
  case (9 fr busy memo name)
  show ?case
  proof (cases "memo name = None \<and> name \<notin> busy \<and> gget fr name \<noteq> None")
    case True
    then obtain b where b: "gget fr name = Some b" by blast
    obtain memo1 d where f: "depth_of_set fr (insert name busy) memo b = (memo1, d)" by fastforce
    from True "9.IH" [OF _ _ b] have "visits_set fr (insert name busy) memo b + unread fr (insert name busy) memo1
        \<le> set_count b + unread fr (insert name busy) memo" by (simp add: f)
    with True b f show ?thesis
      by (simp add: unread_enter unread_leave unread_leave [unfolded fun_upd_def])
  next
    case False
    then show ?thesis by (auto split: option.splits)
  qed
qed (auto split: prod.splits)

section \<open>What the limit guarantees\<close>

lemma check_op_error: "foldl (check_op fr m) (memo, Inl e) ops = (memo, Inl e)"
  by (induction ops) (simp_all add: check_op_def)

lemma check_ops_exact:
  assumes "acyclic (frag_edges fr)" "memo_exact fr memo"
  shows "snd (foldl (check_op fr m) (memo, Inr ()) ops) = Inr () \<longleftrightarrow> (\<forall>ss\<in>set ops. \<forall>k. deep fr (sels ss) k \<longrightarrow> int k \<le> m)"
  using assms(2)
proof (induction ops arbitrary: memo)
  case (Cons ss ops)
  obtain memo1 d where s: "depth_of_set fr {} memo ss = (memo1, d)" by fastforce
  have 1: "memo_exact fr memo1" "exact fr (sels ss) d"
    using depth_exact(1) [OF assms(1) Cons.prems, of "{}" ss] s by (simp_all add: under_way_def)
  then have d: "m < d \<longleftrightarrow> \<not> (\<forall>k. deep fr (sels ss) k \<longrightarrow> int k \<le> m)"
    using exact_nonneg [OF 1(2)] by (metis exact_def linorder_not_less nat_0_le order.strict_trans1 order_refl)
  have step: "check_op fr m (memo, Inr ()) ss =
      (memo1, if m < d then Inl (Server_Err (Depth_Exceeded d m)) else Inr ())" by (simp add: check_op_def s)
  show ?case
  proof (cases "m < d")
    case True
    then show ?thesis using d by (auto simp: step check_op_error)
  next
    case False
    then show ?thesis using d Cons.IH [OF 1(1)] by (simp add: step)
  qed
qed simp

text \<open>C20: For a document without fragment cycles, the depth check with its memo accepts exactly the
  documents no operation of which nests more fields than the limit, counting through inline fragments
  and fragment spreads. (Cyclic documents are refused by the validator.)\<close>

theorem check_depth_exact:
  assumes "0 \<le> m" "parse q = Some doc" "acyclic (frag_edges (doc_fragments doc))"
  shows "check_depth parse q m = Inr () \<longleftrightarrow>
    (\<forall>ss\<in>set (doc_operations doc). \<forall>k. deep (doc_fragments doc) (sels ss) k \<longrightarrow> int k \<le> m)"
  using assms check_ops_exact [OF assms(3), of Map.empty] by (simp add: check_depth_def memo_exact_def)

definition demo_document :: document where
  "demo_document =
     [OperationDefinition (Some [FieldNode (Some ''f'') (Some [FragmentSpread (Some ''A''), FragmentSpread (Some ''A'')])]),
      FragmentDefinition (Some ''A'') (Some [FieldNode (Some ''f'') (Some [FragmentSpread (Some ''B''), InlineFragment (Some [FragmentSpread (Some ''B'')])])]),
      FragmentDefinition (Some ''B'') (Some [FieldNode (Some ''g'') None])]"

theorem check_depth_exact_witness:
  "(check_depth (\<lambda>_. Some demo_document) [] 2 = Inr () \<longleftrightarrow>
      (\<forall>ss\<in>set (doc_operations demo_document). \<forall>k. deep (doc_fragments demo_document) (sels ss) k \<longrightarrow> int k \<le> 2))
   \<and> check_depth (\<lambda>_. Some demo_document) [] 2 = Inl (Server_Err (Depth_Exceeded 3 2))
   \<and> check_depth (\<lambda>_. Some demo_document) [] 3 = Inr ()"
proof (intro conjI)
  have fr: "doc_fragments demo_document = [(''A'', Some [FieldNode (Some ''f'') (Some [FragmentSpread (Some ''B''), InlineFragment (Some [FragmentSpread (Some ''B'')])])]),
      (''B'', Some [FieldNode (Some ''g'') None])]" by code_simp
  have "frag_edges (doc_fragments demo_document) \<subseteq> measure (\<lambda>n. if n = ''A'' then 0 else 1)"
    unfolding fr frag_edges_def
    by (auto simp: spread_in_simps(1,3-5) spread_in_simps(2) [of _ "_ # _"] split: if_splits)
  then have a: "acyclic (frag_edges (doc_fragments demo_document))"
    by (rule acyclic_subset [rotated]) (rule wf_acyclic, rule wf_measure)
  show "check_depth (\<lambda>_. Some demo_document) [] 2 = Inr () \<longleftrightarrow>
      (\<forall>ss\<in>set (doc_operations demo_document). \<forall>k. deep (doc_fragments demo_document) (sels ss) k \<longrightarrow> int k \<le> 2)"
    by (rule check_depth_exact [OF _ refl a]) simp
qed code_simp+

definition visits_op :: "sel_set gmap \<Rightarrow> depth_memo \<times> nat \<Rightarrow> sel_set \<Rightarrow> depth_memo \<times> nat" where
  "visits_op fr st ss =
     (case st of (memo, n) \<Rightarrow> (fst (depth_of_set fr {} memo ss), n + visits_set fr {} memo ss))"

lemma visits_ops:
  "snd (foldl (visits_op fr) (memo, n) ops) + unread fr {} (fst (foldl (visits_op fr) (memo, n) ops))
     \<le> n + sum_list (map set_count ops) + unread fr {} memo"
proof (induction ops arbitrary: memo n)
  case (Cons ss ops)
  show ?case
    using Cons.IH [of "fst (depth_of_set fr {} memo ss)" "n + visits_set fr {} memo ss"] visits_bound(1) [of fr "{}" memo ss]
    by (simp add: visits_op_def)
qed simp


end
