(* ===== verification/Auth.thy ===== *)
theory Auth
  imports SqlGen Config
begin

text \<open>
  Authentication (\<open>auth/auth.go\<close>) and the role lookup with its cache (\<open>auth/rolelookup.go\<close>). The
  token library (parsing with its options, signing), the reader of key files and the database are
  parameters; a header, a token and a claim are what the request carries. Times are nanoseconds.
\<close>

section \<open>The verifier\<close>

datatype public_key = Rsa_Key string | Ecdsa_Key string | Other_Key string

datatype verify_key = Hmac_Secret string | Public_Key public_key

text \<open>The file system and the decoders of \<open>encoding/pem\<close> and \<open>crypto/x509\<close>.\<close>

record key_reader =
  kr_read :: "string \<Rightarrow> string res"
  kr_pem :: "string \<Rightarrow> (string \<times> string) option"
  kr_certificate :: "string \<Rightarrow> public_key res"
  kr_pkcs1 :: "string \<Rightarrow> public_key res"
  kr_pkix :: "string \<Rightarrow> public_key res"

definition load_public_key :: "key_reader \<Rightarrow> string \<Rightarrow> public_key res" where
  "load_public_key kr path =
     rbind (kr_read kr path) (\<lambda>raw.
       case kr_pem kr raw of
         None \<Rightarrow> Inl (Ext_Error (''no PEM block found in '' @ path))
       | Some (block, bytes) \<Rightarrow>
           if block = ''CERTIFICATE'' then kr_certificate kr bytes
           else if block = ''RSA PUBLIC KEY'' then kr_pkcs1 kr bytes
           else kr_pkix kr bytes)"

record parser_opts =
  po_methods :: "string list"
  po_exp_required :: bool
  po_leeway :: "int option"
  po_issuer :: "string option"
  po_audience :: "string option"

type_synonym token_parser = "parser_opts \<Rightarrow> verify_key \<Rightarrow> string \<Rightarrow> gval gmap res"

text \<open>A \<open>RoleResolver\<close> and the state it keeps.\<close>

type_synonym 'c resolver = "gval gmap \<Rightarrow> 'c \<Rightarrow> 'c \<times> string res"

record 'c verifier =
  vf_cfg :: jwt
  vf_key :: verify_key
  vf_opts :: parser_opts
  vf_roles :: "string set"
  vf_resolver :: "'c resolver option"

definition duration_of_seconds :: "int \<Rightarrow> int" where
  "duration_of_seconds s = wrap64 (s * 1000000000)"

definition verifier_key :: "key_reader \<Rightarrow> jwt \<Rightarrow> verify_key res" where
  "verifier_key kr cfg =
     (if has_prefix (jwt_algorithm cfg) ''HS'' then Inr (Hmac_Secret (jwt_secret cfg))
      else case load_public_key kr (jwt_key_file cfg) of
             Inl e \<Rightarrow> Inl (Key_File e)
           | Inr (Rsa_Key k) \<Rightarrow>
               if has_prefix (jwt_algorithm cfg) ''RS'' then Inr (Public_Key (Rsa_Key k))
               else Inl (Auth_Err (Key_Algorithm_Mismatch ''RSA'' (jwt_algorithm cfg)))
           | Inr (Ecdsa_Key k) \<Rightarrow>
               if has_prefix (jwt_algorithm cfg) ''ES'' then Inr (Public_Key (Ecdsa_Key k))
               else Inl (Auth_Err (Key_Algorithm_Mismatch ''EC'' (jwt_algorithm cfg)))
           | Inr (Other_Key k) \<Rightarrow> Inl (Auth_Err Unsupported_Key))"

definition verifier_opts :: "jwt \<Rightarrow> parser_opts" where
  "verifier_opts cfg =
     \<lparr>po_methods = [jwt_algorithm cfg], po_exp_required = True,
      po_leeway = (if 0 < jwt_leeway cfg then Some (duration_of_seconds (jwt_leeway cfg)) else None),
      po_issuer = (if jwt_issuer cfg \<noteq> [] then Some (jwt_issuer cfg) else None),
      po_audience = (if jwt_audience cfg \<noteq> [] then Some (jwt_audience cfg) else None)\<rparr>"

definition new_verifier ::
    "key_reader \<Rightarrow> jwt \<Rightarrow> string list \<Rightarrow> 'c resolver option \<Rightarrow> 'c verifier res" where
  "new_verifier kr cfg role_names resolver =
     rbind (verifier_key kr cfg) (\<lambda>key.
       Inr \<lparr>vf_cfg = cfg, vf_key = key, vf_opts = verifier_opts cfg, vf_roles = set role_names,
            vf_resolver = resolver\<rparr>)"

section \<open>Identifying a request\<close>

text \<open>The HTTP status of a refusal and its error.\<close>

type_synonym refusal = "nat \<times> gerr"

definition is_bearer :: "string \<Rightarrow> bool" where
  "is_bearer header = (7 \<le> length header \<and> to_lower (take 7 header) = ''bearer '')"

definition identify :: "token_parser \<Rightarrow> 'c verifier \<Rightarrow> string \<Rightarrow> 'c \<Rightarrow> 'c \<times> (refusal + identity)" where
  "identify parse v header c =
     (if header = [] then
        (if jwt_anonymous (vf_cfg v) = [] then (c, Inl (401, Auth_Err Missing_Authorization))
         else (c, Inr \<lparr>id_role = jwt_anonymous (vf_cfg v), id_claims = []\<rparr>))
      else if \<not> is_bearer header then (c, Inl (401, Auth_Err Not_Bearer))
      else case parse (vf_opts v) (vf_key v) (trim_space (drop 7 header)) of
             Inl e \<Rightarrow> (c, Inl (401, Invalid_Token e))
           | Inr claims \<Rightarrow>
               (case vf_resolver v of
                  Some resolver \<Rightarrow>
                    (case resolver claims c of
                       (c', Inl e) \<Rightarrow> (c', Inl (403, e))
                     | (c', Inr role) \<Rightarrow>
                         if role \<notin> vf_roles v then (c', Inl (403, Auth_Err (Role_Not_Configured role)))
                         else (c', Inr \<lparr>id_role = role, id_claims = claims\<rparr>))
                | None \<Rightarrow>
                    (case lookup_claim claims (jwt_role_claim (vf_cfg v)) of
                       None \<Rightarrow> (c, Inl (403, Auth_Err (No_Role_Claim (jwt_role_claim (vf_cfg v)))))
                     | Some (VStr role) \<Rightarrow>
                         if role \<notin> vf_roles v then (c, Inl (403, Auth_Err (Role_Not_Configured role)))
                         else (c, Inr \<lparr>id_role = role, id_claims = claims\<rparr>)
                     | Some _ \<Rightarrow> (c, Inl (403, Auth_Err (Role_Claim_Not_String (jwt_role_claim (vf_cfg v))))))))"

section \<open>The role lookup\<close>

definition auth_quote_ident :: "string \<Rightarrow> string" where
  "auth_quote_ident name = ''`'' @ concat (map (\<lambda>c. if c = CHR ''`'' then ''``'' else [c]) name) @ ''`''"

definition lookup_query :: "role_lookup \<Rightarrow> string" where
  "lookup_query cfg =
     ''SELECT '' @ auth_quote_ident (rl_role_column cfg) @ '' FROM '' @ auth_quote_ident (rl_schema cfg) @ ''.'' @
     auth_quote_ident (rl_table cfg) @ '' WHERE '' @ auth_quote_ident (rl_id_column cfg) @ '' = ? LIMIT 1''"

text \<open>The first row of the lookup statement: an error, no row, or a role that may be NULL.\<close>

type_synonym role_db = "string \<Rightarrow> gval \<Rightarrow> string option option res"

record cache_entry =
  ce_role :: string
  ce_expires :: int

type_synonym role_cache = "string \<Rightarrow> cache_entry option"

definition id_value :: "role_lookup \<Rightarrow> gval gmap \<Rightarrow> gval res" where
  "id_value cfg claims =
     (case lookup_claim claims (rl_id_claim cfg) of
        None \<Rightarrow> Inl (Auth_Err (No_Id_Claim (rl_id_claim cfg)))
      | Some (VStr s) \<Rightarrow> if s = [] then Inl (Auth_Err (Id_Claim_Empty (rl_id_claim cfg))) else Inr (VStr s)
      | Some (VFloat f) \<Rightarrow> (case float_int f of Some n \<Rightarrow> Inr (VInt64 n) | None \<Rightarrow> Inr (VFloat f))
      | Some _ \<Rightarrow> Inl (Auth_Err (Id_Claim_Bad_Type (rl_id_claim cfg))))"

definition id_key :: "stdlib \<Rightarrow> gval \<Rightarrow> string" where
  "id_key sl v = (case v of VStr s \<Rightarrow> s | VInt64 n \<Rightarrow> show_int n | VFloat f \<Rightarrow> sl_float_g sl f | _ \<Rightarrow> [])"

definition lookup_ttl :: "role_lookup \<Rightarrow> int" where
  "lookup_ttl cfg = duration_of_seconds (rl_cache_seconds cfg)"

definition cache_get :: "int \<Rightarrow> int \<Rightarrow> string \<Rightarrow> role_cache \<Rightarrow> string option" where
  "cache_get ttl now key cache =
     (if 0 < ttl then
        (case cache key of
           None \<Rightarrow> None
         | Some e \<Rightarrow> if now < ce_expires e then Some (ce_role e) else None)
      else None)"

definition cache_put :: "int \<Rightarrow> int \<Rightarrow> string \<Rightarrow> string \<Rightarrow> role_cache \<Rightarrow> role_cache" where
  "cache_put ttl now key role cache =
     (if 0 < ttl then cache(key \<mapsto> \<lparr>ce_role = role, ce_expires = now + ttl\<rparr>) else cache)"

definition query_role :: "stdlib \<Rightarrow> role_db \<Rightarrow> role_lookup \<Rightarrow> gval \<Rightarrow> string res" where
  "query_role sl db cfg v =
     (case db (lookup_query cfg) v of
        Inl e \<Rightarrow> Inl (Role_Lookup_Failed e)
      | Inr None \<Rightarrow> Inl (Auth_Err (No_Identity (rl_id_claim cfg) (id_key sl v)))
      | Inr (Some None) \<Rightarrow> Inl (Auth_Err (No_Role_Assigned (id_key sl v)))
      | Inr (Some (Some role)) \<Rightarrow>
          if role = [] then Inl (Auth_Err (No_Role_Assigned (id_key sl v))) else Inr role)"

text \<open>A call, which reads the clock at \<open>now\<close> for the cache and at \<open>now'\<close> behind the query.\<close>

definition resolve_role :: "stdlib \<Rightarrow> role_db \<Rightarrow> role_lookup \<Rightarrow> int \<Rightarrow> int \<Rightarrow> role_cache resolver" where
  "resolve_role sl db cfg now now' claims cache =
     (case id_value cfg claims of
        Inl e \<Rightarrow> (cache, Inl e)
      | Inr v \<Rightarrow>
          (case cache_get (lookup_ttl cfg) now (id_key sl v) cache of
             Some role \<Rightarrow> (cache, Inr role)
           | None \<Rightarrow>
               (case query_role sl db cfg v of
                  Inl e \<Rightarrow> (cache, Inl e)
                | Inr role \<Rightarrow> (cache_put (lookup_ttl cfg) now' (id_key sl v) role cache, Inr role))))"

section \<open>Signing\<close>

definition put_new :: "string \<Rightarrow> gval \<Rightarrow> gval gmap \<Rightarrow> gval gmap" where
  "put_new k v m = (if gget m k = None then gput k v m else m)"

definition signed_claims :: "jwt \<Rightarrow> int \<Rightarrow> gval gmap \<Rightarrow> gval gmap" where
  "signed_claims cfg now claims =
     (let m = foldl (\<lambda>m (k, v). gput k v m) [] claims;
          m = put_new ''iat'' (VInt64 now) m;
          m = put_new ''exp'' (VInt64 (now + 86400)) m;
          m = (if jwt_issuer cfg \<noteq> [] then gput ''iss'' (VStr (jwt_issuer cfg)) m else m)
      in if jwt_audience cfg \<noteq> [] then gput ''aud'' (VStr (jwt_audience cfg)) m else m)"

definition sign_token :: "(string \<Rightarrow> gval gmap \<Rightarrow> string \<Rightarrow> string res) \<Rightarrow> jwt \<Rightarrow> int \<Rightarrow> gval gmap \<Rightarrow> string res" where
  "sign_token sign cfg now claims =
     (if \<not> has_prefix (jwt_algorithm cfg) ''HS'' then Inl (Auth_Err (Cannot_Sign (jwt_algorithm cfg)))
      else sign (jwt_algorithm cfg) (signed_claims cfg now claims) (jwt_secret cfg))"

section \<open>The lookup statement\<close>

lemma auth_quote_is: "auth_quote_ident = quote_ident"
  by (simp add: fun_eq_iff auth_quote_ident_def quote_ident_def)

interpretation authid: ident_quoting auth_quote_ident
  unfolding auth_quote_is by unfold_locales (rule sqlid.quote_closed, rule sqlid.quote_reads, erule sqlid.quote_inj)

lemma lookup_query_closed: "closed (lookup_query cfg) 1"
proof -
  have "closed '' = ? LIMIT 1'' 1" "closed ''SELECT '' 0" "closed '' FROM '' 0" "closed '' WHERE '' 0"
    by (simp_all add: closed_def code_step_def)
  then show ?thesis
    unfolding lookup_query_def by (intro closed_append0 authid.quote_closed closed_seps)
qed

section \<open>Who is let in\<close>

text \<open>The kind of key that belongs to an algorithm.\<close>

definition key_fits :: "key_reader \<Rightarrow> jwt \<Rightarrow> verify_key \<Rightarrow> bool" where
  "key_fits kr cfg key =
     (case key of
        Hmac_Secret s \<Rightarrow> has_prefix (jwt_algorithm cfg) ''HS'' \<and> s = jwt_secret cfg
      | Public_Key (Rsa_Key k) \<Rightarrow> has_prefix (jwt_algorithm cfg) ''RS'' \<and> load_public_key kr (jwt_key_file cfg) = Inr (Rsa_Key k)
      | Public_Key (Ecdsa_Key k) \<Rightarrow> has_prefix (jwt_algorithm cfg) ''ES'' \<and> load_public_key kr (jwt_key_file cfg) = Inr (Ecdsa_Key k)
      | Public_Key (Other_Key k) \<Rightarrow> False)"

lemma verifier_key_fits: "verifier_key kr cfg = Inr key \<Longrightarrow> key_fits kr cfg key"
  by (auto simp: verifier_key_def key_fits_def split: if_splits sum.splits public_key.splits)

text \<open>The role of verified claims: from the resolver when there is one, else from the role claim.\<close>

definition role_from :: "'c verifier \<Rightarrow> gval gmap \<Rightarrow> 'c \<Rightarrow> string \<Rightarrow> bool" where
  "role_from v claims c role =
     (case vf_resolver v of
        Some resolver \<Rightarrow> snd (resolver claims c) = Inr role
      | None \<Rightarrow> lookup_claim claims (jwt_role_claim (vf_cfg v)) = Some (VStr role))"

lemma identify_iff:
  "snd (identify parse v header c) = Inr idn \<longleftrightarrow>
     (if header = [] then jwt_anonymous (vf_cfg v) \<noteq> [] \<and> idn = \<lparr>id_role = jwt_anonymous (vf_cfg v), id_claims = []\<rparr>
      else is_bearer header \<and> parse (vf_opts v) (vf_key v) (trim_space (drop 7 header)) = Inr (id_claims idn) \<and>
        id_role idn \<in> vf_roles v \<and> role_from v (id_claims idn) c (id_role idn))"
  by (cases idn)
    (auto simp: identify_def role_from_def split: sum.splits option.splits gval.splits prod.splits)

text \<open>C22: A caller is identified without a token exactly when an anonymous role is configured, and then as
  that role with no claims. With a token, only when the header is a bearer token that the token library
  accepts under the one configured algorithm, with the kind of key that algorithm calls for (no
  algorithm confusion), with an expiry, and with the configured issuer and audience; the role is then
  the one of the resolver or the role claim, and is one of the configured roles.\<close>

theorem identify_verified:
  assumes "new_verifier kr cfg role_names resolver = Inr v"
  shows "snd (identify parse v header c) = Inr idn \<longleftrightarrow>
    (header = [] \<and> jwt_anonymous cfg \<noteq> [] \<and> idn = \<lparr>id_role = jwt_anonymous cfg, id_claims = []\<rparr>) \<or>
    (header \<noteq> [] \<and> is_bearer header \<and>
      (\<exists>po key. po_methods po = [jwt_algorithm cfg] \<and> po_exp_required po \<and>
         (jwt_issuer cfg \<noteq> [] \<longrightarrow> po_issuer po = Some (jwt_issuer cfg)) \<and>
         (jwt_audience cfg \<noteq> [] \<longrightarrow> po_audience po = Some (jwt_audience cfg)) \<and>
         po = vf_opts v \<and> key = vf_key v \<and> key_fits kr cfg key \<and>
         parse po key (trim_space (drop 7 header)) = Inr (id_claims idn)) \<and>
      id_role idn \<in> set role_names \<and>
      (case resolver of
         Some f \<Rightarrow> snd (f (id_claims idn) c) = Inr (id_role idn)
       | None \<Rightarrow> lookup_claim (id_claims idn) (jwt_role_claim cfg) = Some (VStr (id_role idn))))"
proof -
  obtain key where key: "verifier_key kr cfg = Inr key"
    and v: "v = \<lparr>vf_cfg = cfg, vf_key = key, vf_opts = verifier_opts cfg, vf_roles = set role_names, vf_resolver = resolver\<rparr>"
    using assms by (auto simp: new_verifier_def)
  have "key_fits kr cfg key" using key by (rule verifier_key_fits)
  moreover have "po_methods (verifier_opts cfg) = [jwt_algorithm cfg]" "po_exp_required (verifier_opts cfg)"
    "jwt_issuer cfg \<noteq> [] \<longrightarrow> po_issuer (verifier_opts cfg) = Some (jwt_issuer cfg)"
    "jwt_audience cfg \<noteq> [] \<longrightarrow> po_audience (verifier_opts cfg) = Some (jwt_audience cfg)"
    by (simp_all add: verifier_opts_def)
  ultimately show ?thesis by (cases resolver) (auto simp: identify_iff v role_from_def)
qed

definition demo_keys :: key_reader where
  "demo_keys = \<lparr>kr_read = (\<lambda>_. Inl (Ext_Error ''no file'')), kr_pem = (\<lambda>_. None),
     kr_certificate = (\<lambda>b. Inr (Rsa_Key b)), kr_pkcs1 = (\<lambda>b. Inr (Rsa_Key b)), kr_pkix = (\<lambda>b. Inr (Ecdsa_Key b))\<rparr>"

definition demo_jwt :: jwt where
  "demo_jwt = \<lparr>jwt_algorithm = ''HS256'', jwt_secret = ''secret'', jwt_key_file = [], jwt_issuer = ''iss'',
     jwt_audience = [], jwt_leeway = 0, jwt_role_claim = ''role'',
     jwt_role_lookup = \<lparr>rl_table = [], rl_schema = [], rl_id_claim = [], rl_id_column = [],
         rl_role_column = [], rl_username = None, rl_password = None, rl_cache_seconds = 0\<rparr>,
     jwt_anonymous = []\<rparr>"

definition demo_parse :: token_parser where
  "demo_parse po key tok =
     (if po_methods po = [''HS256''] \<and> key = Hmac_Secret ''secret'' \<and> tok = ''tok''
      then Inr [(''role'', VStr ''user''), (''exp'', VInt64 99), (''iss'', VStr ''iss'')] else Inl (Ext_Error ''token is malformed''))"

definition demo_verifier :: "unit verifier" where
  "demo_verifier = \<lparr>vf_cfg = demo_jwt, vf_key = Hmac_Secret ''secret'', vf_opts = verifier_opts demo_jwt,
     vf_roles = set [''user''], vf_resolver = None\<rparr>"

theorem identify_verified_witness:
  "\<exists>idn. snd (identify demo_parse demo_verifier ''BEARER tok '' ()) = Inr idn \<and> id_role idn = ''user'' \<and>
     id_role idn \<in> set [''user''] \<and> key_fits demo_keys demo_jwt (vf_key demo_verifier)"
proof -
  have n: "new_verifier demo_keys demo_jwt [''user''] None = Inr demo_verifier"
    by (simp add: new_verifier_def verifier_key_def demo_verifier_def demo_jwt_def has_prefix_def)
  have i: "snd (identify demo_parse demo_verifier ''BEARER tok '' ()) =
      Inr \<lparr>id_role = ''user'', id_claims = [(''role'', VStr ''user''), (''exp'', VInt64 99), (''iss'', VStr ''iss'')]\<rparr>"
    by code_simp
  from identify_verified [OF n, THEN iffD1, OF i] i show ?thesis by auto
qed

section \<open>The role cache\<close>

text \<open>
  The resolver under any interleaving: the clock moves, requests ask the database as it is at that
  time (\<open>db t\<close>), and store what they read, at once or later. The log holds each answer of the database
  with the key of its id and its time.
\<close>

inductive cache_reach :: "stdlib \<Rightarrow> (int \<Rightarrow> role_db) \<Rightarrow> role_lookup \<Rightarrow> int \<Rightarrow> role_cache \<Rightarrow> (string \<times> string \<times> int) set \<Rightarrow> bool"
  for sl db cfg where
  start: "cache_reach sl db cfg t Map.empty {}"
| tick: "cache_reach sl db cfg t cache log \<Longrightarrow> t \<le> t' \<Longrightarrow> cache_reach sl db cfg t' cache log"
| answer: "cache_reach sl db cfg t cache log \<Longrightarrow> query_role sl (db t) cfg v = Inr role \<Longrightarrow>
    cache_reach sl db cfg t cache (insert (id_key sl v, role, t) log)"
| store: "cache_reach sl db cfg t cache log \<Longrightarrow> (key, role, t0) \<in> log \<Longrightarrow>
    cache_reach sl db cfg t (cache_put (lookup_ttl cfg) t key role cache) log"

text \<open>An answer of the log was the database's, and every cache entry repeats one of them.\<close>

definition answered :: "stdlib \<Rightarrow> (int \<Rightarrow> role_db) \<Rightarrow> role_lookup \<Rightarrow> string \<Rightarrow> string \<Rightarrow> int \<Rightarrow> bool" where
  "answered sl db cfg key role t0 \<longleftrightarrow> (\<exists>v. id_key sl v = key \<and> query_role sl (db t0) cfg v = Inr role)"

interpretation roles: ttl_cache "cache_get ttl" "cache_put ttl" Map.empty ttl for ttl
  by unfold_locales (auto simp: cache_get_def cache_put_def split: if_splits option.splits)

lemma cache_reach_inv:
  "cache_reach sl db cfg t cache log \<Longrightarrow>
     (\<forall>(key, role, t0)\<in>log. t0 \<le> t \<and> answered sl db cfg key role t0) \<and>
     roles.backed (lookup_ttl cfg) (answered sl db cfg) t cache"
proof (induction rule: cache_reach.induct)
  case (tick t cache log t')
  then show ?case by (fastforce intro: order.trans roles.backed_tick)
next
  case (answer t cache log v role)
  then show ?case by (auto simp: answered_def)
next
  case (store t cache log key role t0)
  then have "t0 \<le> t" "answered sl db cfg key role t0" by auto
  with store.IH show ?case by (auto intro: roles.backed_put)
qed (simp add: roles.backed_none)

lemma query_role_nonempty: "query_role sl d cfg v = Inr role \<Longrightarrow> role \<noteq> []"
  by (auto simp: query_role_def split: sum.splits option.splits if_splits)


definition demo_lookup :: role_lookup where
  "demo_lookup = \<lparr>rl_table = ''users'', rl_schema = ''app'', rl_id_claim = ''sub'', rl_id_column = ''id'',
     rl_role_column = ''role'', rl_username = None, rl_password = None, rl_cache_seconds = 60\<rparr>"

definition demo_role_db :: "int \<Rightarrow> role_db" where
  "demo_role_db t q v = (if v = VStr ''7'' then Inr (Some (Some (if t < 5 then ''user'' else ''admin''))) else Inr None)"


section \<open>Signed tokens\<close>

text \<open>What the token library documents: a token that it signed is accepted by a parser that allows the
  algorithm and expects the token's issuer and audience, as long as it has not expired and has no
  start time; text claims come back as they were.\<close>

definition token_library :: "token_parser \<Rightarrow> (string \<Rightarrow> gval gmap \<Rightarrow> string \<Rightarrow> string res) \<Rightarrow> int \<Rightarrow> bool" where
  "token_library parse sign now \<longleftrightarrow>
     (\<forall>po alg m secret tok e.
        sign alg m secret = Inr tok \<and> alg \<in> set (po_methods po) \<and> gget m ''exp'' = Some (VInt64 e) \<and> now < e \<and>
        gget m ''nbf'' = None \<and>
        (\<forall>i. po_issuer po = Some i \<longrightarrow> gget m ''iss'' = Some (VStr i)) \<and>
        (\<forall>a. po_audience po = Some a \<longrightarrow> gget m ''aud'' = Some (VStr a)) \<longrightarrow>
        (\<exists>cl. parse po (Hmac_Secret secret) tok = Inr cl \<and>
           (\<forall>k s. gget m k = Some (VStr s) \<longrightarrow> gget cl k = Some (VStr s))))"

lemma put_new_get: "gget (put_new k v m) x = (if x = k \<and> gget m k = None then Some v else gget m x)"
  by (simp add: put_new_def)

lemma signed_claims_get:
  assumes "gmap_ok claims"
  shows "gget (signed_claims cfg now claims) k =
    (if k = ''aud'' \<and> jwt_audience cfg \<noteq> [] then Some (VStr (jwt_audience cfg))
     else if k = ''iss'' \<and> jwt_issuer cfg \<noteq> [] then Some (VStr (jwt_issuer cfg))
     else if k = ''exp'' \<and> gget claims k = None then Some (VInt64 (now + 86400))
     else if k = ''iat'' \<and> gget claims k = None then Some (VInt64 now)
     else gget claims k)"
proof -
  have "gget (foldl (\<lambda>m (k, v). gput k v m) [] claims) x = gget claims x" for x
    using assms by (simp add: foldl_gput_gget map_of_rev_distinct)
  then show ?thesis by (auto simp: signed_claims_def put_new_get Let_def)
qed


definition demo_sign :: "string \<Rightarrow> gval gmap \<Rightarrow> string \<Rightarrow> string res" where
  "demo_sign alg m secret =
     (if m = signed_claims demo_jwt 10 [(''role'', VStr ''user'')] then Inr ''tok'' else Inl (Ext_Error ''cannot sign''))"

definition demo_parse_signed :: token_parser where
  "demo_parse_signed po key tok =
     (if tok = ''tok'' then Inr (signed_claims demo_jwt 10 [(''role'', VStr ''user'')]) else Inl (Ext_Error ''token is malformed''))"


end
