(* ===== verification/Connection.thy ===== *)
theory Connection
  imports Queries
begin

text \<open>
  Cursors (\<open>schema/cursor.go\<close>) and the cursor-paginated field \<open><t>_connection\<close>
  (\<open>addConnectionField\<close> in \<open>schema/builder.go\<close>), with the theorem that walking the pages visits
  every row once.
\<close>

unbundle bit_operations_syntax

section \<open>Cursors\<close>

text \<open>\<open>fmt.Sprintf("%v", v)\<close>.\<close>

lemma sort_key_value_size: "kv \<in> set (sort_key fst kvs) \<Longrightarrow> size (snd kv) < size (VMap kvs)"
  using sort_key_size [of "fst kv" "snd kv" kvs] by simp

function fmt_v :: "stdlib \<Rightarrow> gval \<Rightarrow> string" where
  "fmt_v sl VNil = ''<nil>''"
| "fmt_v sl (VBool b) = (if b then ''true'' else ''false'')"
| "fmt_v sl (VInt n) = show_int n"
| "fmt_v sl (VInt64 n) = show_int n"
| "fmt_v sl (VUint64 n) = show_int n"
| "fmt_v sl (VFloat f) = sl_float_g sl f"
| "fmt_v sl (VStr s) = s"
| "fmt_v sl (VBytes s) = ''['' @ join '' '' (map (\<lambda>c. show_nat (of_char c)) s) @ '']''"
| "fmt_v sl (VTime t) = sl_time_v sl t"
| "fmt_v sl (VList vs) = ''['' @ join '' '' (map (fmt_v sl) vs) @ '']''"
| "fmt_v sl (VMap kvs) =
     ''map['' @ join '' '' (map (\<lambda>kv. fst kv @ '':'' @ fmt_v sl (snd kv)) (sort_key fst kvs)) @ '']''"
  by pat_completeness auto
termination
  by (relation "measure (\<lambda>(sl, v). size v)")
    (auto dest: sort_key_value_size size_list_estimation' simp: less_Suc_eq_le size_list_estimation')

definition stringify_key :: "stdlib \<Rightarrow> gval \<Rightarrow> string" where
  "stringify_key sl v = (case v of VNil \<Rightarrow> [] | VBytes s \<Rightarrow> s | VStr s \<Rightarrow> s | _ \<Rightarrow> fmt_v sl v)"

text \<open>\<open>hash/fnv\<close>'s \<open>New64a\<close> and \<open>strconv.FormatUint(n, 36)\<close>.\<close>

definition fnv64a :: "string \<Rightarrow> 64 word" where
  "fnv64a s = foldl (\<lambda>h c. (h XOR word_of_nat (of_char c)) * 1099511628211) 14695981039346656037 s"

definition digit36 :: "nat \<Rightarrow> char" where
  "digit36 d = (if d < 10 then char_of (48 + d) else char_of (87 + d))"

fun show_base36 :: "nat \<Rightarrow> string" where
  "show_base36 n = (if n < 36 then [digit36 n] else show_base36 (n div 36) @ [digit36 (n mod 36)])"

declare show_base36.simps [simp del]

text \<open>\<open>b, _ := json.Marshal(v)\<close>: no bytes when the value cannot be encoded.\<close>

definition marshal :: "stdlib \<Rightarrow> gval \<Rightarrow> string" where
  "marshal sl v = (case json_encode sl v of Inl _ \<Rightarrow> [] | Inr s \<Rightarrow> s)"

definition cursor_shape :: "stdlib \<Rightarrow> string \<Rightarrow> gval gmap option \<Rightarrow> string" where
  "cursor_shape sl tab w =
     show_base36 (unat (fnv64a (marshal sl
       (VMap [(''t'', VStr tab), (''w'', case w of None \<Rightarrow> VNil | Some m \<Rightarrow> VMap m)]))))"

definition cursor_data :: "string list \<Rightarrow> string \<Rightarrow> gval" where
  "cursor_data keys shape = VMap [(''k'', VList (map VStr keys)), (''s'', VStr shape)]"

definition encode_cursor :: "stdlib \<Rightarrow> string list \<Rightarrow> string \<Rightarrow> string" where
  "encode_cursor sl keys shape = b64_url (marshal sl (cursor_data keys shape))"

text \<open>\<open>json.Unmarshal\<close> into a \<open>cursorData\<close>, from the decoded document: fields match in any case, null
  leaves a field as it is.\<close>

definition text_field :: "gval \<Rightarrow> string option" where
  "text_field v = (case v of VStr s \<Rightarrow> Some s | VNil \<Rightarrow> Some [] | _ \<Rightarrow> None)"

definition cursor_field :: "(string list \<times> string) option \<Rightarrow> string \<times> gval \<Rightarrow> (string list \<times> string) option" where
  "cursor_field c kv =
     (case c of
        None \<Rightarrow> None
      | Some (ks, s) \<Rightarrow>
          if to_lower (fst kv) = ''k'' then
            (case snd kv of
               VNil \<Rightarrow> Some ([], s)
             | VList vs \<Rightarrow> map_option (\<lambda>ks'. (ks', s)) (opts (map text_field vs))
             | _ \<Rightarrow> None)
          else if to_lower (fst kv) = ''s'' then
            (case snd kv of VNil \<Rightarrow> Some (ks, s) | VStr s' \<Rightarrow> Some (ks, s') | _ \<Rightarrow> None)
          else Some (ks, s))"

definition unmarshal_cursor :: "gval \<Rightarrow> (string list \<times> string) option" where
  "unmarshal_cursor v =
     (case v of
        VNil \<Rightarrow> Some ([], [])
      | VMap kvs \<Rightarrow> foldl cursor_field (Some ([], [])) kvs
      | _ \<Rightarrow> None)"

definition decode_cursor :: "stdlib \<Rightarrow> string \<Rightarrow> string \<Rightarrow> nat \<Rightarrow> string list res" where
  "decode_cursor sl cursor shape key_len =
     (case b64_url_decode cursor of
        None \<Rightarrow> Inl (Query_Err Invalid_Cursor)
      | Some raw \<Rightarrow>
          (case Option.bind (sl_json_decode sl raw) unmarshal_cursor of
             None \<Rightarrow> Inl (Query_Err Invalid_Cursor)
           | Some (keys, s) \<Rightarrow>
               if s \<noteq> shape then Inl (Query_Err Cursor_Shape_Mismatch)
               else if length keys \<noteq> key_len then Inl (Query_Err Invalid_Cursor)
               else Inr keys))"

lemma opts_Some [simp]: "opts (map Some xs) = Some xs"
  by (induction xs) auto

lemma unmarshal_cursor_data: "unmarshal_cursor (cursor_data keys shape) = Some (keys, shape)"
proof -
  have k: "to_lower ''k'' = ''k''" "to_lower ''s'' = ''s''" by code_simp+
  have "opts (map (text_field \<circ> VStr) keys) = Some keys" by (induction keys) (simp_all add: text_field_def)
  then show ?thesis by (simp add: unmarshal_cursor_def cursor_data_def cursor_field_def k)
qed

text \<open>What \<open>encoding/json\<close> documents of a cursor's document: decoding gives back the keys and the
  shape, which holds for keys that are valid UTF-8.\<close>

definition cursor_codec :: "stdlib \<Rightarrow> string list \<Rightarrow> string \<Rightarrow> bool" where
  "cursor_codec sl keys shape \<longleftrightarrow>
     sl_json_decode sl (marshal sl (cursor_data keys shape)) = Some (cursor_data keys shape)"

lemma decode_encode_cursor:
  "cursor_codec sl keys shape \<Longrightarrow>
     decode_cursor sl (encode_cursor sl keys shape) shape' n =
       (if shape' \<noteq> shape then Inl (Query_Err Cursor_Shape_Mismatch)
        else if length keys \<noteq> n then Inl (Query_Err Invalid_Cursor) else Inr keys)"
  by (auto simp: decode_cursor_def encode_cursor_def cursor_codec_def unmarshal_cursor_data)

section \<open>The connection field\<close>

record page =
  pg_nodes :: "row list"
  pg_has_next :: bool
  pg_end_cursor :: "string option"

definition pk_exposable :: "table_info \<Rightarrow> bool" where
  "pk_exposable ti =
     (tbl_pk (ti_table ti) \<noteq> [] \<and>
      (case ta_select (ti_access ti) of
         None \<Rightarrow> False
       | Some oa \<Rightarrow> list_all (\<lambda>pk. pk \<in> oa_colset oa) (tbl_pk (ti_table ti))))"

definition where_arg :: "gval gmap \<Rightarrow> gval gmap option" where
  "where_arg args = (case gget args ''where'' of Some (VMap m) \<Rightarrow> Some m | _ \<Rightarrow> None)"

definition first_arg :: "builder \<Rightarrow> gval gmap \<Rightarrow> int res" where
  "first_arg b args =
     (let n = (case gget args ''first'' of Some (VInt f) \<Rightarrow> f | _ \<Rightarrow> b_default_page b)
      in if n < 0 then Inl (Query_Err First_Negative)
         else Inr (if b_max_page b < n then b_max_page b else n))"

definition after_arg :: "builder \<Rightarrow> table_info \<Rightarrow> string \<Rightarrow> gval gmap \<Rightarrow> condition option res" where
  "after_arg b ti shape args =
     (case gget args ''after'' of
        Some (VStr a) \<Rightarrow>
          if a = [] then Inr None
          else rbind (decode_cursor (b_stdlib b) a shape (length (tbl_pk (ti_table ti)))) (\<lambda>keys.
                 Inr (Some (keyset_condition (tbl_pk (ti_table ti)) keys)))
      | _ \<Rightarrow> Inr None)"

definition row_keys :: "stdlib \<Rightarrow> string list \<Rightarrow> row \<Rightarrow> string list" where
  "row_keys sl pks r = map (\<lambda>pk. stringify_key sl (gidx r pk)) pks"

definition make_page :: "stdlib \<Rightarrow> string list \<Rightarrow> string \<Rightarrow> int \<Rightarrow> row list \<Rightarrow> page res" where
  "make_page sl pks shape n fetched =
     (let more = n < int (length fetched)
      in if more \<and> n < 0 then Inl (Go_Panic ''slice bounds out of range'')
         else let rows = (if more then take (nat n) fetched else fetched)
              in Inr \<lparr>pg_nodes = rows, pg_has_next = (more \<and> rows \<noteq> []),
                      pg_end_cursor = (if rows = [] then None else Some (encode_cursor sl (row_keys sl pks (last rows)) shape))\<rparr>)"

definition connection_field :: "builder \<Rightarrow> query_db \<Rightarrow> table_info \<Rightarrow> identity \<Rightarrow> gval gmap \<Rightarrow> page res" where
  "connection_field b db ti idn args =
     rbind (first_arg b args) (\<lambda>n.
     let w = where_arg args; shape = cursor_shape (b_stdlib b) (tbl_name (ti_table ti)) w in
     rbind (after_arg b ti shape args) (\<lambda>after.
     rbind (run_keyset_page b db ti idn w after (wrap64 (n + 1))) (\<lambda>rows.
       make_page (b_stdlib b) (tbl_pk (ti_table ti)) shape n rows)))"

text \<open>\<open>total_count\<close>, run only when it is selected.\<close>

definition connection_count :: "builder \<Rightarrow> query_db \<Rightarrow> table_info \<Rightarrow> identity \<Rightarrow> gval gmap \<Rightarrow> int res" where
  "connection_count b db ti idn args = run_count b db ti idn (where_arg args)"

section \<open>Walking the pages\<close>

text \<open>A client that asks for the next page as long as there is one; \<open>None\<close> when \<open>fuel\<close> pages do not
  reach the end.\<close>

fun walk :: "nat \<Rightarrow> builder \<Rightarrow> query_db \<Rightarrow> table_info \<Rightarrow> identity \<Rightarrow> gval gmap \<Rightarrow> string option \<Rightarrow> row list res option" where
  "walk 0 b db ti idn args after = None"
| "walk (Suc fuel) b db ti idn args after =
     (case connection_field b db ti idn (case after of None \<Rightarrow> args | Some a \<Rightarrow> gput ''after'' (VStr a) args) of
        Inl e \<Rightarrow> Some (Inl e)
      | Inr p \<Rightarrow>
          if pg_has_next p
          then map_option (\<lambda>r. rbind r (\<lambda>rest. Inr (pg_nodes p @ rest)))
                 (walk fuel b db ti idn args (pg_end_cursor p))
          else Some (Inr (pg_nodes p)))"

text \<open>The rows behind the row with these keys, in the order of the primary key.\<close>

definition rows_after :: "stdlib \<Rightarrow> string list \<Rightarrow> row list \<Rightarrow> string list option \<Rightarrow> row list" where
  "rows_after sl pks rows after =
     (case after of
        None \<Rightarrow> rows
      | Some ks \<Rightarrow> drop 1 (dropWhile (\<lambda>r. row_keys sl pks r \<noteq> ks) rows))"

text \<open>The database answers the keyset statements with the table's visible rows in key order.\<close>

definition keyset_db :: "builder \<Rightarrow> query_db \<Rightarrow> table_info \<Rightarrow> identity \<Rightarrow> gval gmap option \<Rightarrow> row list \<Rightarrow> bool" where
  "keyset_db b db ti idn w rows \<longleftrightarrow>
     (\<forall>after n. (after = None \<or> (\<exists>r\<in>set rows. after = Some (row_keys (b_stdlib b) (tbl_pk (ti_table ti)) r))) \<longrightarrow> 0 \<le> n \<longrightarrow>
        run_keyset_page b db ti idn w (map_option (keyset_condition (tbl_pk (ti_table ti))) after) n =
          Inr (take (nat n) (rows_after (b_stdlib b) (tbl_pk (ti_table ti)) rows after)))"

lemma row_keys_length [simp]: "length (row_keys sl pks r) = length pks"
  by (simp add: row_keys_def)

lemma rows_after_split:
  assumes "distinct (map (row_keys sl pks) (xs @ r # ys))"
  shows "rows_after sl pks (xs @ r # ys) (Some (row_keys sl pks r)) = ys"
proof -
  have "\<forall>x\<in>set xs. row_keys sl pks x \<noteq> row_keys sl pks r" using assms by (auto simp: image_iff)
  then show ?thesis by (simp add: rows_after_def dropWhile_append2)
qed

lemma encode_cursor_nonempty: "encode_cursor sl keys shape \<noteq> []"
proof -
  have "mapr (json_encode sl) (map VStr keys) = Inr (map json_string keys)" by (induction keys) simp_all
  then have "marshal sl (cursor_data keys shape) \<noteq> []" by (simp add: marshal_def cursor_data_def)
  moreover have "b64_url t \<noteq> []" if "t \<noteq> []" for t
    using that by (cases t rule: sextets.cases) (simp_all add: b64_url_def b64_encode_def)
  ultimately show ?thesis by (simp add: encode_cursor_def)
qed

text \<open>One page behind the rows \<open>xs\<close>.\<close>

definition cursor_of :: "builder \<Rightarrow> table_info \<Rightarrow> gval gmap \<Rightarrow> row list \<Rightarrow> string option" where
  "cursor_of b ti args xs =
     (if xs = [] then None
      else Some (encode_cursor (b_stdlib b) (row_keys (b_stdlib b) (tbl_pk (ti_table ti)) (last xs))
                   (cursor_shape (b_stdlib b) (tbl_name (ti_table ti)) (where_arg args))))"

definition with_after :: "string option \<Rightarrow> gval gmap \<Rightarrow> gval gmap" where
  "with_after after args = (case after of None \<Rightarrow> args | Some a \<Rightarrow> gput ''after'' (VStr a) args)"

lemma with_after_args [simp]:
  "where_arg (with_after after args) = where_arg args" "first_arg b (with_after after args) = first_arg b args"
  by (simp_all add: with_after_def where_arg_def first_arg_def split: option.splits)

lemma connection_page:
  fixes b ti args
  defines "sl \<equiv> b_stdlib b" and "pks \<equiv> tbl_pk (ti_table ti)"
  assumes db: "keyset_db b db ti idn (where_arg args) (xs @ ys)"
    and dist: "distinct (map (row_keys sl pks) (xs @ ys))"
    and codec: "\<forall>r\<in>set (xs @ ys). cursor_codec sl (row_keys sl pks r) (cursor_shape sl (tbl_name (ti_table ti)) (where_arg args))"
    and n: "first_arg b args = Inr n" "1 \<le> n" "n < 2 ^ 63 - 1" and start: "gget args ''after'' = None"
  shows "connection_field b db ti idn (with_after (cursor_of b ti args xs) args) =
    Inr \<lparr>pg_nodes = take (nat n) ys, pg_has_next = (n < int (length ys)),
         pg_end_cursor = cursor_of b ti args (take (nat n) ys)\<rparr>"
proof -
  let ?after = "if xs = [] then None else Some (row_keys sl pks (last xs))"
  let ?shape = "cursor_shape sl (tbl_name (ti_table ti)) (where_arg args)"
  have a: "after_arg b ti ?shape (with_after (cursor_of b ti args xs) args) =
      Inr (map_option (keyset_condition pks) ?after)"
  proof (cases "xs = []")
    case True
    then show ?thesis using start by (simp add: after_arg_def with_after_def cursor_of_def)
  next
    case False
    then have "cursor_codec sl (row_keys sl pks (last xs)) ?shape" using codec by simp
    from decode_encode_cursor [OF this] False show ?thesis
      by (simp add: after_arg_def with_after_def cursor_of_def encode_cursor_nonempty sl_def pks_def)
  qed
  have after: "rows_after sl pks (xs @ ys) ?after = ys"
  proof (cases xs rule: rev_cases)
    case (snoc zs z)
    then show ?thesis using rows_after_split [of sl pks zs z ys] dist by simp
  qed (simp add: rows_after_def)
  have "wrap64 (n + 1) = n + 1" using n(2,3) by (simp add: in_int64_def)
  moreover have "run_keyset_page b db ti idn (where_arg args) (map_option (keyset_condition pks) ?after) (n + 1) =
      Inr (take (nat (n + 1)) (rows_after sl pks (xs @ ys) ?after))"
  proof -
    have "?after = None \<or> (\<exists>r\<in>set (xs @ ys). ?after = Some (row_keys sl pks r))"
      using last_in_set [of xs] by auto
    moreover have "0 \<le> n + 1" using n(2) by simp
    ultimately show ?thesis
      using db unfolding keyset_db_def sl_def [symmetric] pks_def [symmetric] by blast
  qed
  ultimately have "connection_field b db ti idn (with_after (cursor_of b ti args xs) args) =
      make_page sl pks ?shape n (take (nat (n + 1)) ys)"
    using n(1) a unfolding after by (simp add: connection_field_def Let_def sl_def pks_def)
  moreover have "take (nat n) (take (nat (n + 1)) ys) = take (nat n) ys" using n(2) by simp
  moreover have "take (nat (n + 1)) ys = take (nat n) ys" if "\<not> n < int (length ys)" using that n(2) by simp
  ultimately show ?thesis
    using n(2) by (cases "n < int (length ys)") (auto simp: make_page_def Let_def cursor_of_def sl_def pks_def)
qed

lemma walk_pages:
  fixes b ti args
  defines "sl \<equiv> b_stdlib b" and "pks \<equiv> tbl_pk (ti_table ti)"
  assumes db: "keyset_db b db ti idn (where_arg args) rows"
    and dist: "distinct (map (row_keys sl pks) rows)"
    and codec: "\<forall>r\<in>set rows. cursor_codec sl (row_keys sl pks r) (cursor_shape sl (tbl_name (ti_table ti)) (where_arg args))"
    and n: "first_arg b args = Inr n" "1 \<le> n" "n < 2 ^ 63 - 1" and start: "gget args ''after'' = None"
  shows "rows = xs @ ys \<Longrightarrow> length ys \<le> fuel \<Longrightarrow>
    walk (Suc fuel) b db ti idn args (cursor_of b ti args xs) = Some (Inr ys)"
proof (induction fuel arbitrary: xs ys)
  case (0 xs ys)
  note page = connection_page [OF db [unfolded 0(1)] dist [unfolded 0(1) sl_def pks_def] codec [unfolded 0(1) sl_def pks_def] n start]
  show ?case using page 0(2) n(2) by (simp add: with_after_def [symmetric])
next
  case (Suc fuel xs ys)
  note page = connection_page [OF db [unfolded Suc.prems(1)] dist [unfolded Suc.prems(1) sl_def pks_def]
      codec [unfolded Suc.prems(1) sl_def pks_def] n start]
  show ?case
  proof (cases "n < int (length ys)")
    case False
    then show ?thesis using page by (simp add: with_after_def [symmetric])
  next
    case True
    let ?p = "take (nat n) ys" and ?rest = "drop (nat n) ys"
    have p: "?p \<noteq> []" using True n(2) by auto
    have "walk (Suc fuel) b db ti idn args (cursor_of b ti args (xs @ ?p)) = Some (Inr ?rest)"
      by (rule Suc.IH) (use Suc.prems n(2) True in auto)
    moreover have "cursor_of b ti args (xs @ ?p) = cursor_of b ti args ?p" using p by (simp add: cursor_of_def)
    ultimately show ?thesis
      using page True by (subst walk.simps) (simp add: with_after_def [symmetric] del: walk.simps)
  qed
qed

section \<open>What the connection guarantees\<close>

text \<open>Cursors carry the keys and are bound to their query: decoding the cursor of some keys under
  another filter or table reports the mismatch, under a primary key of another size an invalid cursor,
  and under the query it was made for gives exactly the keys.\<close>

lemma cursor_roundtrip:
  assumes "cursor_codec sl keys shape"
  shows "decode_cursor sl (encode_cursor sl keys shape) shape' n =
    (if shape' \<noteq> shape then Inl (Query_Err Cursor_Shape_Mismatch)
     else if length keys \<noteq> n then Inl (Query_Err Invalid_Cursor) else Inr keys)"
  by (rule decode_encode_cursor [OF assms])

definition demo_shape :: string where
  "demo_shape = cursor_shape demo_stdlib ''notes'' None"

definition demo_decode :: "string \<Rightarrow> gval option" where
  "demo_decode raw =
     map_option (\<lambda>k. cursor_data [k] demo_shape)
       (find (\<lambda>k. raw = marshal demo_stdlib (cursor_data [k] demo_shape)) [''1'', ''2'', ''3''])"

definition demo_cursor_stdlib :: stdlib where
  "demo_cursor_stdlib = demo_stdlib\<lparr>sl_json_decode := demo_decode\<rparr>"

lemma marshal_cursor:
  "marshal sl (cursor_data [k] shape) =
     CHR ''{'' # json_string ''k'' @ '':['' @ json_string k @ ''],'' @ json_string ''s'' @ '':'' @ json_string shape @ ''}''"
  by (simp add: marshal_def cursor_data_def)

lemma demo_digits: "json_string ''1'' = CHR 0x22 # ''1'' @ [CHR 0x22]" "json_string ''2'' = CHR 0x22 # ''2'' @ [CHR 0x22]"
  "json_string ''3'' = CHR 0x22 # ''3'' @ [CHR 0x22]"
  by code_simp+

lemma demo_codec:
  "k \<in> set [''1'', ''2'', ''3''] \<Longrightarrow> cursor_codec demo_cursor_stdlib [k] demo_shape"
  by (auto simp: cursor_codec_def demo_cursor_stdlib_def demo_decode_def marshal_cursor demo_digits)


definition demo_cursor_builder :: builder where
  "demo_cursor_builder = demo_builder\<lparr>b_stdlib := demo_cursor_stdlib\<rparr>"

definition demo_raw :: "gval list list" where
  "demo_raw = [[VInt64 1, VStr ''a'', VNil], [VInt64 2, VStr ''a'', VNil], [VInt64 3, VStr ''a'', VNil]]"

definition demo_rows :: "row list" where
  "demo_rows = map (\<lambda>n. [(''id'', VInt64 n), (''owner'', VStr ''a''), (''meta'', VNil)]) [1, 2, 3]"

definition demo_keyset_db :: query_db where
  "demo_keyset_db q args =
     (case args of
        [_, VInt n] \<Rightarrow> Inr (take (nat n) demo_raw)
      | [_, VStr k, VInt n] \<Rightarrow> Inr (take (nat n) (drop 1 (dropWhile (\<lambda>r. stringify_key demo_stdlib (hd r) \<noteq> k) demo_raw)))
      | _ \<Rightarrow> Inl (Ext_Error ''bad statement''))"

definition demo_caller :: identity where
  "demo_caller = \<lparr>id_role = ''user'', id_claims = [(''sub'', VStr ''a'')]\<rparr>"

definition demo_first :: "gval gmap" where
  "demo_first = [(''first'', VInt 2)]"

lemma mapr_take: "mapr f xs = Inr ys \<Longrightarrow> mapr f (take n xs) = Inr (take n ys)"
  by (induction xs arbitrary: ys n) (auto simp: take_Cons split: nat.splits)

lemma demo_scan: "mapr (scan_row demo_cursor_builder (oa_columns demo_op)) demo_raw = Inr demo_rows"
  by code_simp

lemma demo_keyset_args:
  "\<exists>q. keyset_query demo_cursor_builder demo_info demo_caller None None n =
     Inr (oa_columns demo_op, q, [VStr ''a'', VInt n])"
  "\<exists>q. keyset_query demo_cursor_builder demo_info demo_caller None (Some (keyset_condition [''id''] [k])) n =
     Inr (oa_columns demo_op, q, [VStr ''a'', VStr k, VInt n])"
proof -
  have f: "rbac_cond demo_op demo_caller = Inr (Some (cond ''owner = ?'' [VStr ''a'']))" by code_simp
  have s: "ta_select (ti_access demo_info) = Some demo_op" by (simp add: demo_info_def)
  show "\<exists>q. keyset_query demo_cursor_builder demo_info demo_caller None None n =
     Inr (oa_columns demo_op, q, [VStr ''a'', VInt n])"
    by (simp add: keyset_query_def s user_cond_def f combine_conds_def live_conds_def Let_def)
  show "\<exists>q. keyset_query demo_cursor_builder demo_info demo_caller None (Some (keyset_condition [''id''] [k])) n =
     Inr (oa_columns demo_op, q, [VStr ''a'', VStr k, VInt n])"
    by (simp add: keyset_query_def s user_cond_def f combine_conds_def live_conds_def Let_def keyset_condition_def)
qed

lemma demo_run:
  assumes "0 \<le> n"
  shows "run_keyset_page demo_cursor_builder demo_keyset_db demo_info demo_caller None None n = Inr (take (nat n) demo_rows)"
    and "k \<in> set [''1'', ''2'', ''3''] \<Longrightarrow>
      run_keyset_page demo_cursor_builder demo_keyset_db demo_info demo_caller None (Some (keyset_condition [''id''] [k])) n =
      Inr (take (nat n) (rows_after demo_cursor_stdlib [''id''] demo_rows (Some [k])))"
proof -
  obtain q where q: "keyset_query demo_cursor_builder demo_info demo_caller None None n =
      Inr (oa_columns demo_op, q, [VStr ''a'', VInt n])" using demo_keyset_args(1) by blast
  show "run_keyset_page demo_cursor_builder demo_keyset_db demo_info demo_caller None None n = Inr (take (nat n) demo_rows)"
    by (simp add: run_keyset_page_def q scan_rows_def demo_keyset_db_def mapr_take [OF demo_scan])
  assume k: "k \<in> set [''1'', ''2'', ''3'']"
  obtain q where q: "keyset_query demo_cursor_builder demo_info demo_caller None (Some (keyset_condition [''id''] [k])) n =
      Inr (oa_columns demo_op, q, [VStr ''a'', VStr k, VInt n])" using demo_keyset_args(2) by blast
  have "mapr (scan_row demo_cursor_builder (oa_columns demo_op))
      (drop 1 (dropWhile (\<lambda>r. stringify_key demo_stdlib (hd r) \<noteq> k) demo_raw)) =
      Inr (rows_after demo_cursor_stdlib [''id''] demo_rows (Some [k]))"
    if "k = ''1'' \<or> k = ''2'' \<or> k = ''3''" using that by (elim disjE; (simp only:)?; code_simp)
  then show "run_keyset_page demo_cursor_builder demo_keyset_db demo_info demo_caller None (Some (keyset_condition [''id''] [k])) n =
      Inr (take (nat n) (rows_after demo_cursor_stdlib [''id''] demo_rows (Some [k])))"
    using k by (simp add: run_keyset_page_def q scan_rows_def demo_keyset_db_def mapr_take del: drop_0 dropWhile.simps)
qed

lemma demo_keys: "map (row_keys demo_cursor_stdlib [''id'']) demo_rows = [[''1''], [''2''], [''3'']]"
  by code_simp

lemma demo_row_key: "r \<in> set demo_rows \<Longrightarrow> \<exists>k\<in>set [''1'', ''2'', ''3'']. row_keys demo_cursor_stdlib [''id''] r = [k]"
proof -
  assume "r \<in> set demo_rows"
  then have "row_keys demo_cursor_stdlib [''id''] r \<in> set (map (row_keys demo_cursor_stdlib [''id'']) demo_rows)" by simp
  then show ?thesis unfolding demo_keys by auto
qed

lemma demo_keyset_db: "keyset_db demo_cursor_builder demo_keyset_db demo_info demo_caller None demo_rows"
proof -
  have pk: "tbl_pk (ti_table demo_info) = [''id'']" "b_stdlib demo_cursor_builder = demo_cursor_stdlib"
    by (simp_all add: demo_info_def demo_table_def demo_cursor_builder_def)
  show ?thesis
    unfolding keyset_db_def pk
  proof (intro allI impI)
    fix after :: "string list option" and n :: int
    assume a: "after = None \<or> (\<exists>r\<in>set demo_rows. after = Some (row_keys demo_cursor_stdlib [''id''] r))" and n: "0 \<le> n"
    then consider "after = None" | k where "k \<in> set [''1'', ''2'', ''3'']" "after = Some [k]"
      using demo_row_key by metis
    then show "run_keyset_page demo_cursor_builder demo_keyset_db demo_info demo_caller None
        (map_option (keyset_condition [''id'']) after) n =
        Inr (take (nat n) (rows_after demo_cursor_stdlib [''id''] demo_rows after))"
    proof cases
      case 1
      then show ?thesis using demo_run(1) [OF n] by (simp add: rows_after_def)
    next
      case (2 k)
      show ?thesis using demo_run(2) [OF n 2(1)] unfolding 2(2) by (simp only: option.map)
    qed
  qed
qed


end
