(* ===== verification/Analytics.thy ===== *)
theory Analytics
  imports Connection Depth
begin

text \<open>
  Aggregates (\<open>schema/aggregate.go\<close>) and vector search (\<open>schema/vector.go\<close>): which aggregates a
  query asks for, the statements that compute them, and how the row of results is shaped.
\<close>

section \<open>Selections\<close>

text \<open>The fields of a selection set with fragments followed: name and selection set of each. The code
  has no guard against fragment cycles (the validator has refused them): then it does not return.\<close>

type_synonym flat_field = "string option \<times> sel_set"

partial_function (option) flatten_fields :: "sel_set gmap \<Rightarrow> selection list \<Rightarrow> flat_field list option" where
  "flatten_fields fr ss =
     (case ss of
        [] \<Rightarrow> Some []
      | s # rest \<Rightarrow>
          Option.bind
            (case s of
               FieldNode nm b \<Rightarrow> Some [(nm, b)]
             | InlineFragment b \<Rightarrow> flatten_fields fr (sels b)
             | FragmentSpread nm \<Rightarrow>
                 (case Option.bind nm (gget fr) of None \<Rightarrow> Some [] | Some b \<Rightarrow> flatten_fields fr (sels b)))
            (\<lambda>xs. Option.bind (flatten_fields fr rest) (\<lambda>ys. Some (xs @ ys))))"

definition field_names :: "sel_set gmap \<Rightarrow> sel_set \<Rightarrow> string list option" where
  "field_names fr ss =
     map_option (\<lambda>fs. concat (map (\<lambda>f. case fst f of None \<Rightarrow> [] | Some n \<Rightarrow> [n]) fs)) (flatten_fields fr (sels ss))"

record agg_request =
  ag_count :: bool
  ag_sum :: "column list"
  ag_avg :: "column list"
  ag_min :: "column list"
  ag_max :: "column list"

definition no_aggregates :: agg_request where
  "no_aggregates = \<lparr>ag_count = False, ag_sum = [], ag_avg = [], ag_min = [], ag_max = []\<rparr>"

definition agg_empty :: "agg_request \<Rightarrow> bool" where
  "agg_empty r = (\<not> ag_count r \<and> ag_sum r = [] \<and> ag_avg r = [] \<and> ag_min r = [] \<and> ag_max r = [])"

definition agg_columns :: "table_info \<Rightarrow> sel_set gmap \<Rightarrow> sel_set \<Rightarrow> column list option" where
  "agg_columns ti fr ss =
     map_option (\<lambda>ns. concat (map (\<lambda>n. case ti_field_to_col ti n of None \<Rightarrow> [] | Some c \<Rightarrow> [c]) ns)) (field_names fr ss)"

definition agg_select :: "table_info \<Rightarrow> sel_set gmap \<Rightarrow> agg_request option \<Rightarrow> flat_field \<Rightarrow> agg_request option" where
  "agg_select ti fr req f =
     Option.bind req (\<lambda>r.
       case f of
         (None, _) \<Rightarrow> Some r
       | (Some n, ss) \<Rightarrow>
           if n = ''count'' then Some (r\<lparr>ag_count := True\<rparr>)
           else if n = ''sum'' then map_option (\<lambda>cs. r\<lparr>ag_sum := cs\<rparr>) (agg_columns ti fr ss)
           else if n = ''avg'' then map_option (\<lambda>cs. r\<lparr>ag_avg := cs\<rparr>) (agg_columns ti fr ss)
           else if n = ''min'' then map_option (\<lambda>cs. r\<lparr>ag_min := cs\<rparr>) (agg_columns ti fr ss)
           else if n = ''max'' then map_option (\<lambda>cs. r\<lparr>ag_max := cs\<rparr>) (agg_columns ti fr ss)
           else Some r)"

text \<open>\<open>asts\<close> are the selection sets of the field's occurrences (\<open>info.FieldASTs\<close>).\<close>

definition collect_agg :: "table_info \<Rightarrow> sel_set gmap \<Rightarrow> sel_set list \<Rightarrow> agg_request option" where
  "collect_agg ti fr asts =
     foldl (\<lambda>req ss. Option.bind (flatten_fields fr (sels ss)) (\<lambda>fs. foldl (agg_select ti fr) req fs))
       (Some no_aggregates) asts"

section \<open>The aggregate statement\<close>

datatype agg_slot = CountSlot | SumSlot column | AvgSlot column | MinSlot column | MaxSlot column

definition agg_call :: "string \<Rightarrow> (column \<Rightarrow> agg_slot) \<Rightarrow> column list \<Rightarrow> (string \<times> agg_slot) list" where
  "agg_call fn slot cs = map (\<lambda>c. (fn @ ''('' @ quote_ident (col_name c) @ '')'', slot c)) cs"

text \<open>The expressions and, at the same positions, where their results go.\<close>

definition agg_plan :: "agg_request \<Rightarrow> (string \<times> agg_slot) list" where
  "agg_plan req =
     (if ag_count req \<or> agg_empty req then [(''COUNT(*)'', CountSlot)] else []) @
     agg_call ''SUM'' SumSlot (ag_sum req) @ agg_call ''AVG'' AvgSlot (ag_avg req) @
     agg_call ''MIN'' MinSlot (ag_min req) @ agg_call ''MAX'' MaxSlot (ag_max req)"

definition agg_query :: "builder \<Rightarrow> table_info \<Rightarrow> identity \<Rightarrow> gval gmap option \<Rightarrow> agg_request \<Rightarrow> (string \<times> gval list) res" where
  "agg_query b ti idn w req =
     rbind (user_cond b ti w) (\<lambda>uc.
       case ta_select (ti_access ti) of
         None \<Rightarrow> Inl (Go_Panic ''nil operation'')
       | Some sel \<Rightarrow>
           rbind (rbac_cond sel idn) (\<lambda>fc.
             let c = combine_conds [uc, fc]
             in Inr (''SELECT '' @ join '', '' (map fst (agg_plan req)) @ '' FROM '' @ qualified_table b (ti_table ti) @
                     '' WHERE '' @ c_sql c, c_args c)))"

section \<open>Results\<close>

text \<open>\<open>strconv.ParseInt(s, 10, 64)\<close> with the error dropped: 0 for text that is no number, the nearest
  bound for one out of range.\<close>

definition parse_int_or_zero :: "string \<Rightarrow> int" where
  "parse_int_or_zero s =
     (case parse_int64 s of
        Some n \<Rightarrow> n
      | None \<Rightarrow>
          (case s of
             [] \<Rightarrow> 0
           | c # cs \<Rightarrow>
               if c = CHR ''-'' then (case parse_digits cs of None \<Rightarrow> 0 | Some _ \<Rightarrow> - (2 ^ 63))
               else (case parse_digits (if c = CHR ''+'' then cs else s) of None \<Rightarrow> 0 | Some _ \<Rightarrow> 2 ^ 63 - 1)))"

text \<open>\<open>int64(f)\<close> truncates; a value that does not fit becomes the amd64 one.\<close>

definition float_trunc :: "f64 \<Rightarrow> int" where
  "float_trunc w =
     (if \<not> f64_finite w then - (2 ^ 63)
      else let (m, e) = f64_parts w;
               k = (if 0 \<le> e then int m * 2 ^ nat e else int m div 2 ^ nat (- e));
               v = (if f64_neg w then - k else k)
           in if in_int64 v then v else - (2 ^ 63))"

definition to_int64 :: "gval \<Rightarrow> int" where
  "to_int64 v = (case v of VInt64 n \<Rightarrow> n | VBytes s \<Rightarrow> parse_int_or_zero s | VFloat f \<Rightarrow> float_trunc f | _ \<Rightarrow> 0)"

text \<open>\<open>float64(n)\<close> rounds as parsing the decimal text of \<open>n\<close> does.\<close>

definition to_float :: "stdlib \<Rightarrow> gval \<Rightarrow> gval" where
  "to_float sl v =
     (let parse = (\<lambda>s. case sl_parse_float sl s of None \<Rightarrow> VNil | Some f \<Rightarrow> VFloat f)
      in case v of VFloat f \<Rightarrow> VFloat f | VInt64 n \<Rightarrow> parse (show_int n) | VBytes s \<Rightarrow> parse s | _ \<Rightarrow> VNil)"

definition agg_scalar :: "stdlib \<Rightarrow> gval \<Rightarrow> gval" where
  "agg_scalar sl v =
     (case v of VBytes s \<Rightarrow> VStr s | VInt64 n \<Rightarrow> VStr (show_int n) | VFloat f \<Rightarrow> VStr (sl_float_f sl f) | _ \<Rightarrow> VNil)"

record agg_out =
  ao_count :: int
  ao_sum :: row
  ao_avg :: row
  ao_min :: row
  ao_max :: row

definition agg_none :: agg_out where
  "agg_none = \<lparr>ao_count = 0, ao_sum = [], ao_avg = [], ao_min = [], ao_max = []\<rparr>"

definition store_slot :: "builder \<Rightarrow> agg_out \<Rightarrow> agg_slot \<times> gval \<Rightarrow> agg_out res" where
  "store_slot b out sv =
     (case sv of
        (CountSlot, v) \<Rightarrow> Inr (out\<lparr>ao_count := to_int64 v\<rparr>)
      | (SumSlot c, v) \<Rightarrow> Inr (out\<lparr>ao_sum := gput (col_name c) (agg_scalar (b_stdlib b) v) (ao_sum out)\<rparr>)
      | (AvgSlot c, v) \<Rightarrow> Inr (out\<lparr>ao_avg := gput (col_name c) (to_float (b_stdlib b) v) (ao_avg out)\<rparr>)
      | (MinSlot c, v) \<Rightarrow>
          (case convert_value (b_stdlib b) c v of
             Inl e \<Rightarrow> Inl (db_err b e)
           | Inr x \<Rightarrow> Inr (out\<lparr>ao_min := gput (col_name c) x (ao_min out)\<rparr>))
      | (MaxSlot c, v) \<Rightarrow>
          (case convert_value (b_stdlib b) c v of
             Inl e \<Rightarrow> Inl (db_err b e)
           | Inr x \<Rightarrow> Inr (out\<lparr>ao_max := gput (col_name c) x (ao_max out)\<rparr>)))"

fun store_slots :: "builder \<Rightarrow> agg_out \<Rightarrow> (agg_slot \<times> gval) list \<Rightarrow> agg_out res" where
  "store_slots b out [] = Inr out"
| "store_slots b out (sv # svs) = rbind (store_slot b out sv) (\<lambda>out'. store_slots b out' svs)"

definition run_aggregate :: "builder \<Rightarrow> query_db \<Rightarrow> table_info \<Rightarrow> identity \<Rightarrow> gval gmap option \<Rightarrow> agg_request \<Rightarrow> agg_out res" where
  "run_aggregate b db ti idn w req =
     rbind (agg_query b ti idn w req) (\<lambda>(q, args).
       case db q args of
         Inl e \<Rightarrow> Inl (db_err b e)
       | Inr [] \<Rightarrow> Inl (db_err b no_rows)
       | Inr (vals # _) \<Rightarrow>
           if length vals \<noteq> length (agg_plan req) then Inl (db_err b (Ext_Error ''sql: destination arguments in Scan''))
           else store_slots b agg_none (zip (map snd (agg_plan req)) vals))"

definition aggregate_field ::
    "builder \<Rightarrow> query_db \<Rightarrow> table_info \<Rightarrow> identity \<Rightarrow> gval gmap \<Rightarrow> sel_set gmap \<Rightarrow> sel_set list \<Rightarrow> agg_out res option" where
  "aggregate_field b db ti idn args fr asts =
     map_option (run_aggregate b db ti idn (where_arg args)) (collect_agg ti fr asts)"

section \<open>Vector search\<close>

definition vector_metric_sql :: "string \<Rightarrow> string option" where
  "vector_metric_sql =
     [''COSINE'' \<mapsto> ''VEC_COSINE_DISTANCE'', ''L2'' \<mapsto> ''VEC_L2_DISTANCE'', ''L1'' \<mapsto> ''VEC_L1_DISTANCE'',
      ''INNER_PRODUCT'' \<mapsto> ''VEC_NEGATIVE_INNER_PRODUCT'']"

definition vector_columns :: "table_info \<Rightarrow> column list" where
  "vector_columns ti =
     (case ta_select (ti_access ti) of
        None \<Rightarrow> []
      | Some oa \<Rightarrow> filter (\<lambda>c. col_data_type c = ''vector'') (oa_columns oa))"

definition nearest_query ::
    "builder \<Rightarrow> table_info \<Rightarrow> identity \<Rightarrow> column \<Rightarrow> string \<Rightarrow> string \<Rightarrow> gval gmap option \<Rightarrow> int
      \<Rightarrow> (column list \<times> string \<times> gval list) res" where
  "nearest_query b ti idn col dist to w n =
     rbind (user_cond b ti w) (\<lambda>uc.
       case ta_select (ti_access ti) of
         None \<Rightarrow> Inl (Go_Panic ''nil operation'')
       | Some sel \<Rightarrow>
           rbind (rbac_cond sel idn) (\<lambda>fc.
             let c = combine_conds [uc, fc, Some (cond (quote_ident (col_name col) @ '' IS NOT NULL'') [])]
             in Inr (oa_columns sel,
                  ''SELECT '' @ select_list (oa_columns sel) @ '', '' @ dist @ ''('' @ quote_ident (col_name col) @
                  '', ?) AS __gqlgate_dist'' @ '' FROM '' @ qualified_table b (ti_table ti) @ '' WHERE '' @ c_sql c @
                  '' ORDER BY __gqlgate_dist ASC LIMIT ?'',
                  VStr to # c_args c @ [VInt n])))"

record neighbor =
  nb_node :: row
  nb_distance :: gval

definition scan_neighbor :: "builder \<Rightarrow> column list \<Rightarrow> gval list \<Rightarrow> neighbor res" where
  "scan_neighbor b cols vals =
     (if length vals \<noteq> length cols + 1 then Inl (db_err b (Ext_Error ''sql: destination arguments in Scan''))
      else rbind (scan_row b cols (take (length cols) vals)) (\<lambda>node.
             Inr \<lparr>nb_node = node, nb_distance = to_float (b_stdlib b) (vals ! length cols)\<rparr>))"

definition run_nearest ::
    "builder \<Rightarrow> query_db \<Rightarrow> table_info \<Rightarrow> identity \<Rightarrow> column \<Rightarrow> string \<Rightarrow> string \<Rightarrow> gval gmap option \<Rightarrow> int
      \<Rightarrow> neighbor list res" where
  "run_nearest b db ti idn col dist to w n =
     rbind (nearest_query b ti idn col dist to w n) (\<lambda>(cols, q, args).
       case db q args of
         Inl e \<Rightarrow> Inl (db_err b e)
       | Inr rows \<Rightarrow> mapr (scan_neighbor b cols) rows)"

definition text_arg :: "gval gmap \<Rightarrow> string \<Rightarrow> string option" where
  "text_arg args k = (case gget args k of Some (VStr s) \<Rightarrow> Some s | _ \<Rightarrow> None)"

definition nearest_field :: "builder \<Rightarrow> query_db \<Rightarrow> table_info \<Rightarrow> identity \<Rightarrow> column \<Rightarrow> gval gmap \<Rightarrow> neighbor list res" where
  "nearest_field b db ti idn col args =
     (let to = (case text_arg args ''to'' of None \<Rightarrow> [] | Some t \<Rightarrow> t);
          metric = (case text_arg args ''metric'' of None \<Rightarrow> ''COSINE'' | Some m \<Rightarrow> m)
      in case vector_metric_sql metric of
           None \<Rightarrow> Inl (Query_Err (Unknown_Metric metric))
         | Some dist \<Rightarrow>
             rbind (first_arg b args) (\<lambda>n. run_nearest b db ti idn col dist to (where_arg args) n))"

section \<open>Both are guarded\<close>

lemma agg_exprs_closed: "closed (join '', '' (map fst (agg_plan req))) 0"
proof (rule closed_join0)
  have "closed ''SUM'' 0" "closed ''AVG'' 0" "closed ''MIN'' 0" "closed ''MAX'' 0" "closed ''COUNT(*)'' 0"
    by (simp_all add: closed_def code_step_def)
  moreover have "closed (''('' @ quote_ident n @ '')'') 0" for n by (rule closed_paren [OF quote_closed])
  ultimately show "\<forall>x\<in>set (map fst (agg_plan req)). closed x 0"
    unfolding agg_plan_def agg_call_def by (auto simp del: append_Cons intro: closed_append0)
qed (simp_all add: closed_seps)

lemma agg_query_guarded:
  assumes "agg_query b ti idn w req = Inr (q, args)"
    and "ta_select (ti_access ti) = Some sel" "filters_wf sel"
  shows "guarded sel idn q args"
proof -
  let ?pre = "''SELECT '' @ join '', '' (map fst (agg_plan req)) @ '' FROM '' @ qualified_table b (ti_table ti)"
  from assms(1,2) obtain uc fc where q: "user_cond b ti w = Inr uc" "rbac_cond sel idn = Inr fc"
    "q = ?pre @ '' WHERE '' @ c_sql (combine_conds [uc, fc]) @ []" "args = c_args (combine_conds [uc, fc])"
    by (auto simp: agg_query_def Let_def)
  have ok: "\<forall>c. Some c \<in> set [uc, fc] \<longrightarrow> cond_ok c"
    using user_cond_ok q(1) rbac_cond_ok [OF assms(3)] q(2) by auto
  have cw: "closed (c_sql (combine_conds [uc, fc])) (length (c_args (combine_conds [uc, fc])))"
    using combine_ok [OF ok] by (simp add: cond_ok_def)
  have "closed ''SELECT '' 0" "closed '' FROM '' 0" by (simp_all add: closed_def code_step_def)
  then have "closed (''SELECT '' @ join '', '' (map fst (agg_plan req)) @ '' FROM '' @ qualified_table b (ti_table ti) @
      '' WHERE '' @ c_sql (combine_conds [uc, fc])) (length args)"
    unfolding q(4) by (intro closed_append0 agg_exprs_closed qualified_closed closed_where cw)
  then have "closed q (length args)" unfolding q(3) by simp
  with guardedI [OF assms(3) q(2) _ ok, of "[]" ?pre args] q(3) show ?thesis by (simp add: where_ends_def)
qed

lemma metric_closed: "vector_metric_sql m = Some dist \<Longrightarrow> closed dist 0"
  by (auto simp: vector_metric_sql_def closed_def code_step_def split: if_splits)

lemma nearest_query_guarded:
  assumes "nearest_query b ti idn col dist to w n = Inr (cols, q, args)" "closed dist 0"
    and "ta_select (ti_access ti) = Some sel" "filters_wf sel"
  shows "cols = oa_columns sel \<and> guarded sel idn q args"
proof -
  let ?nn = "Some (cond (quote_ident (col_name col) @ '' IS NOT NULL'') [])"
  let ?e = "dist @ ''('' @ quote_ident (col_name col) @ '', ?)''"
  let ?pre = "''SELECT '' @ select_list (oa_columns sel) @ '', '' @ dist @ ''('' @ quote_ident (col_name col) @
                  '', ?) AS __gqlgate_dist'' @ '' FROM '' @ qualified_table b (ti_table ti)"
  let ?t = "'' ORDER BY __gqlgate_dist ASC LIMIT ?''"
  from assms(1,3) obtain uc fc where q: "user_cond b ti w = Inr uc" "rbac_cond sel idn = Inr fc" "cols = oa_columns sel"
    "q = ?pre @ '' WHERE '' @ c_sql (combine_conds [uc, fc, ?nn]) @ ?t" "args = VStr to # c_args (combine_conds [uc, fc, ?nn]) @ [VInt n]"
    by (auto simp: nearest_query_def Let_def)
  have nn: "cond_ok (cond (quote_ident (col_name col) @ '' IS NOT NULL'') [])"
    by (simp add: cond_ok_def closed_def code_step_def)
  have ok: "\<forall>c. Some c \<in> set [uc, fc, ?nn] \<longrightarrow> cond_ok c"
    using user_cond_ok q(1) rbac_cond_ok [OF assms(4)] q(2) nn by auto
  have cw: "closed (c_sql (combine_conds [uc, fc, ?nn])) (length (c_args (combine_conds [uc, fc, ?nn])))"
    using combine_ok [OF ok] by (simp add: cond_ok_def)
  have f: "closed ''SELECT '' 0" "closed '' FROM '' 0" "closed ?t 1" "closed '' AS __gqlgate_dist'' 0"
    by (simp_all add: closed_def code_step_def)
  have "closed (quote_ident (col_name col) @ '', ?'') 1" by (simp add: closed_def code_step_def)
  from closed_paren [OF this] have "closed ?e 1" using closed_append0 [OF assms(2)] by simp
  from closed_append [OF this f(4)] have "closed (?e @ '' AS __gqlgate_dist'') 1" by simp
  then have e: "closed (dist @ ''('' @ quote_ident (col_name col) @ '', ?) AS __gqlgate_dist'') 1" by simp
  have rest: "closed ('' FROM '' @ qualified_table b (ti_table ti) @ '' WHERE '' @ c_sql (combine_conds [uc, fc, ?nn]) @ ?t)
      (length (c_args (combine_conds [uc, fc, ?nn])) + 1)"
    by (intro closed_append0 f qualified_closed closed_where closed_append [OF cw f(3)])
  have "closed (''SELECT '' @ select_list (oa_columns sel) @ '', '' @
      (dist @ ''('' @ quote_ident (col_name col) @ '', ?) AS __gqlgate_dist'') @
      '' FROM '' @ qualified_table b (ti_table ti) @ '' WHERE '' @ c_sql (combine_conds [uc, fc, ?nn]) @ ?t)
      (1 + (length (c_args (combine_conds [uc, fc, ?nn])) + 1))"
    by (intro closed_append0 f(1) select_list_closed closed_seps(1) closed_append [OF e rest])
  then have "closed q (length args)" unfolding q(4,5) by (simp add: add.commute)
  moreover have "where_ends ?t" by (simp add: where_ends_def has_prefix_def)
  ultimately show ?thesis using guardedI [OF assms(4) q(2) _ ok, of ?t ?pre args] q(3,4) by simp
qed

text \<open>C26: Aggregates and vector searches are guarded like every other read: the statement is closed with a
  placeholder for each bound value (the query vector first), its condition has the role's row filter as
  a top-level conjunct, and a vector search selects the readable columns.\<close>

theorem analytics_guarded:
  assumes "ta_select (ti_access ti) = Some sel" "filters_wf sel"
  shows "(\<forall>w req q args. agg_query b ti idn w req = Inr (q, args) \<longrightarrow> guarded sel idn q args) \<and>
    (\<forall>metric dist col to w n cols q args. vector_metric_sql metric = Some dist \<longrightarrow>
       nearest_query b ti idn col dist to w n = Inr (cols, q, args) \<longrightarrow>
       cols = oa_columns sel \<and> hd args = VStr to \<and> guarded sel idn q args)"
proof (intro conjI allI impI)
  fix metric dist col to w n cols q args
  assume m: "vector_metric_sql metric = Some dist" and q: "nearest_query b ti idn col dist to w n = Inr (cols, q, args)"
  from nearest_query_guarded [OF q metric_closed [OF m] assms]
  show "cols = oa_columns sel" "guarded sel idn q args" by simp_all
  show "hd args = VStr to" using q assms(1) by (auto simp: nearest_query_def Let_def)
qed (rule agg_query_guarded [OF _ assms])

definition demo_agg :: agg_request where
  "demo_agg = \<lparr>ag_count = False, ag_sum = [demo_col 0 ''id'' ''bigint'' True], ag_avg = [],
     ag_min = [demo_col 1 ''owner'' ''varchar'' False], ag_max = []\<rparr>"

theorem analytics_guarded_witness:
  "\<exists>q args. agg_query demo_builder demo_info demo_caller (Some demo_where) demo_agg = Inr (q, args) \<and>
     length args = 5 \<and> guarded demo_op demo_caller q args"
proof -
  have "(case agg_query demo_builder demo_info demo_caller (Some demo_where) demo_agg of
           Inl _ \<Rightarrow> False | Inr (q, args) \<Rightarrow> length args = 5)"
    by code_simp
  then obtain q args where q: "agg_query demo_builder demo_info demo_caller (Some demo_where) demo_agg = Inr (q, args)"
    "length args = 5" by (auto split: sum.splits)
  have a: "ta_select (ti_access demo_info) = Some demo_op" by (simp add: demo_info_def)
  have b: "filters_wf demo_op" by (simp add: filters_wf_def demo_op_def filter_wf_def code_step_def)
  have "guarded demo_op demo_caller q args" using analytics_guarded [OF a b] q(1) by blast
  then show ?thesis using q by blast
qed

section \<open>The results of an aggregate\<close>

text \<open>The value an aggregate's result holds in a slot, and the value a raw result stands for.\<close>

fun slot_value :: "agg_out \<Rightarrow> agg_slot \<Rightarrow> gval option" where
  "slot_value out CountSlot = Some (VInt (ao_count out))"
| "slot_value out (SumSlot c) = gget (ao_sum out) (col_name c)"
| "slot_value out (AvgSlot c) = gget (ao_avg out) (col_name c)"
| "slot_value out (MinSlot c) = gget (ao_min out) (col_name c)"
| "slot_value out (MaxSlot c) = gget (ao_max out) (col_name c)"

fun slot_result :: "stdlib \<Rightarrow> agg_slot \<Rightarrow> gval \<Rightarrow> gval res" where
  "slot_result sl CountSlot v = Inr (VInt (to_int64 v))"
| "slot_result sl (SumSlot c) v = Inr (agg_scalar sl v)"
| "slot_result sl (AvgSlot c) v = Inr (to_float sl v)"
| "slot_result sl (MinSlot c) v = convert_value sl c v"
| "slot_result sl (MaxSlot c) v = convert_value sl c v"

text \<open>Two slots for the same expression write to the same place.\<close>

fun slot_id :: "agg_slot \<Rightarrow> string \<times> string" where
  "slot_id CountSlot = (''count'', [])"
| "slot_id (SumSlot c) = (''sum'', col_name c)"
| "slot_id (AvgSlot c) = (''avg'', col_name c)"
| "slot_id (MinSlot c) = (''min'', col_name c)"
| "slot_id (MaxSlot c) = (''max'', col_name c)"

lemma store_slot_value:
  assumes "store_slot b out (s, v) = Inr out'"
  shows "\<exists>x. slot_result (b_stdlib b) s v = Inr x \<and>
    (\<forall>s'. slot_value out' s' = (if slot_id s' = slot_id s then Some x else slot_value out s'))"
proof (cases s)
  case (MinSlot c)
  then obtain x where x: "convert_value (b_stdlib b) c v = Inr x" "out' = out\<lparr>ao_min := gput (col_name c) x (ao_min out)\<rparr>"
    using assms by (auto simp: store_slot_def split: sum.splits)
  have "slot_value out' s' = (if slot_id s' = slot_id s then Some x else slot_value out s')" for s'
    unfolding x(2) MinSlot by (cases s') simp_all
  then show ?thesis using x(1) MinSlot by simp
next
  case (MaxSlot c)
  then obtain x where x: "convert_value (b_stdlib b) c v = Inr x" "out' = out\<lparr>ao_max := gput (col_name c) x (ao_max out)\<rparr>"
    using assms by (auto simp: store_slot_def split: sum.splits)
  have "slot_value out' s' = (if slot_id s' = slot_id s then Some x else slot_value out s')" for s'
    unfolding x(2) MaxSlot by (cases s') simp_all
  then show ?thesis using x(1) MaxSlot by simp
next
  case CountSlot
  then have "slot_value out' s' = (if slot_id s' = slot_id s then Some (VInt (to_int64 v)) else slot_value out s')" for s'
    using assms by (cases s') (auto simp: store_slot_def)
  then show ?thesis using CountSlot by simp
next
  case (SumSlot c)
  then have "slot_value out' s' = (if slot_id s' = slot_id s then Some (agg_scalar (b_stdlib b) v) else slot_value out s')" for s'
    using assms by (cases s') (auto simp: store_slot_def)
  then show ?thesis using SumSlot by simp
next
  case (AvgSlot c)
  then have "slot_value out' s' = (if slot_id s' = slot_id s then Some (to_float (b_stdlib b) v) else slot_value out s')" for s'
    using assms by (cases s') (auto simp: store_slot_def)
  then show ?thesis using AvgSlot by simp
qed

lemma store_slots_value:
  "store_slots b out svs = Inr out' \<Longrightarrow>
     (\<forall>s. if slot_id s \<in> slot_id ` fst ` set svs
          then \<exists>s' v x. (s', v) \<in> set svs \<and> slot_id s' = slot_id s \<and> slot_result (b_stdlib b) s' v = Inr x \<and> slot_value out' s = Some x
          else slot_value out' s = slot_value out s)"
proof (induction svs arbitrary: out)
  case (Cons sv svs)
  obtain s0 v0 where sv: "sv = (s0, v0)" by fastforce
  obtain out1 where o: "store_slot b out (s0, v0) = Inr out1" "store_slots b out1 svs = Inr out'"
    using Cons.prems by (auto simp: sv)
  obtain x0 where x0: "slot_result (b_stdlib b) s0 v0 = Inr x0"
    "\<And>s'. slot_value out1 s' = (if slot_id s' = slot_id s0 then Some x0 else slot_value out s')"
    using store_slot_value [OF o(1)] by blast
  show ?case
  proof
    fix s
    show "if slot_id s \<in> slot_id ` fst ` set (sv # svs)
          then \<exists>s' v x. (s', v) \<in> set (sv # svs) \<and> slot_id s' = slot_id s \<and> slot_result (b_stdlib b) s' v = Inr x \<and> slot_value out' s = Some x
          else slot_value out' s = slot_value out s"
    proof (cases "slot_id s \<in> slot_id ` fst ` set svs")
      case True
      then show ?thesis using Cons.IH [OF o(2), THEN spec, of s] by auto
    next
      case False
      then have "slot_value out' s = slot_value out1 s" using Cons.IH [OF o(2), THEN spec, of s] by auto
      then show ?thesis using False x0 sv by auto
    qed
  qed
qed simp


definition demo_agg_db :: query_db where
  "demo_agg_db q args = Inr [[VBytes ''12'', VBytes ''bob'']]"


section \<open>Collecting the request\<close>

text \<open>Without fragment cycles the walk over the selections returns.\<close>

lemma flatten_fields_simps:
  "flatten_fields fr [] = Some []"
  "flatten_fields fr (s # ss) =
     Option.bind
       (case s of
          FieldNode nm b \<Rightarrow> Some [(nm, b)]
        | InlineFragment b \<Rightarrow> flatten_fields fr (sels b)
        | FragmentSpread nm \<Rightarrow>
            (case Option.bind nm (gget fr) of None \<Rightarrow> Some [] | Some b \<Rightarrow> flatten_fields fr (sels b)))
       (\<lambda>xs. Option.bind (flatten_fields fr ss) (\<lambda>ys. Some (xs @ ys)))"
  by (subst flatten_fields.simps, simp)+

definition flattens :: "sel_set gmap \<Rightarrow> selection list \<Rightarrow> bool" where
  "flattens fr ss \<longleftrightarrow> flatten_fields fr ss \<noteq> None"

lemma flattens_Cons:
  "flattens fr [] "
  "flattens fr (s # ss) \<longleftrightarrow>
     (case s of
        FieldNode nm b \<Rightarrow> True
      | InlineFragment b \<Rightarrow> flattens fr (sels b)
      | FragmentSpread nm \<Rightarrow> (\<forall>b. Option.bind nm (gget fr) = Some b \<longrightarrow> flattens fr (sels b))) \<and> flattens fr ss"
  by (auto simp: flattens_def flatten_fields_simps split: selection.splits option.splits Option.bind_splits)

lemma flattens_body:
  assumes "\<And>n b. spread_in ss n \<Longrightarrow> gget fr n = Some b \<Longrightarrow> flattens fr (sels b)"
  shows "flattens fr ss"
  using assms
proof (induction "size_list size ss" arbitrary: ss rule: less_induct)
  case less
  show ?case
  proof (cases ss)
    case (Cons s rest)
    have rest: "flattens fr rest"
    proof (rule less.hyps)
      show "size_list size rest < size_list size ss" using Cons by simp
      show "flattens fr (sels b)" if "spread_in rest n" "gget fr n = Some b" for n b
        using less.prems [OF _ that(2)] spread_in_simps(2) [THEN iffD2, OF disjI2, OF that(1), of s] Cons by simp
    qed
    moreover have "flattens fr (sels b)" if "s = InlineFragment b" for b
    proof (rule less.hyps)
      show "size_list size (sels b) < size_list size ss" using that Cons by (cases b) simp_all
      show "flattens fr (sels b')" if "spread_in (sels b) n" "gget fr n = Some b'" for n b'
        using less.prems [OF _ that(2)] that(1) \<open>s = InlineFragment b\<close> Cons spread_in.intros(3) [of b ss n] by simp
    qed
    moreover have "flattens fr (sels b)" if "s = FragmentSpread (Some n)" "gget fr n = Some b" for n b
      using less.prems [OF _ that(2)] that(1) Cons spread_in.intros(1) [of n ss] by simp
    ultimately show ?thesis
      unfolding Cons flattens_Cons by (auto split: selection.splits Option.bind_splits)
  qed (simp add: flattens_Cons)
qed

lemma frag_edges_wf:
  assumes "acyclic (frag_edges fr)"
  shows "wf ((frag_edges fr \<inter> dom (gget fr) \<times> dom (gget fr))\<inverse>)"
proof (rule finite_acyclic_wf_converse)
  show "finite (frag_edges fr \<inter> dom (gget fr) \<times> dom (gget fr))" by (simp add: finite_dom_map_of)
  show "acyclic (frag_edges fr \<inter> dom (gget fr) \<times> dom (gget fr))" by (rule acyclic_subset [OF assms]) auto
qed

lemma acyclic_flattens: "acyclic (frag_edges fr) \<Longrightarrow> flattens fr ss"
proof -
  assume a: "acyclic (frag_edges fr)"
  have "\<forall>b. gget fr n = Some b \<longrightarrow> flattens fr (sels b)" for n
  proof (induction n rule: wf_induct_rule [OF frag_edges_wf [OF a]])
    case (1 n)
    show ?case
    proof (intro allI impI)
      fix b assume b: "gget fr n = Some b"
      show "flattens fr (sels b)"
      proof (rule flattens_body)
        fix m b' assume m: "spread_in (sels b) m" "gget fr m = Some b'"
        then have "(m, n) \<in> (frag_edges fr \<inter> dom (gget fr) \<times> dom (gget fr))\<inverse>"
          using b by (auto simp: frag_edges_def)
        from 1 [OF this] m(2) show "flattens fr (sels b')" by blast
      qed
    qed
  qed
  then show ?thesis using flattens_body by blast
qed

lemma collect_agg_returns:
  assumes "acyclic (frag_edges fr)"
  shows "collect_agg ti fr asts \<noteq> None"
proof -
  have f: "\<exists>fs. flatten_fields fr ss = Some fs" for ss
    using acyclic_flattens [OF assms] by (auto simp: flattens_def)
  have c: "\<exists>cs. agg_columns ti fr ss = Some cs" for ss
    using f [of "sels ss"] by (auto simp: agg_columns_def field_names_def)
  have "\<exists>r'. agg_select ti fr (Some r) x = Some r'" for r x
    using c [of "snd x"] by (cases x; cases "fst x") (auto simp: agg_select_def)
  then have s: "\<exists>r'. foldl (agg_select ti fr) (Some r) fs = Some r'" for r fs
    by (induction fs arbitrary: r) (simp, metis foldl_Cons)
  have "\<exists>r'. foldl (\<lambda>req ss. Option.bind (flatten_fields fr (sels ss)) (\<lambda>fs. foldl (agg_select ti fr) req fs)) (Some r) asts = Some r'" for r
  proof (induction asts arbitrary: r)
    case (Cons ss asts)
    obtain fs where "flatten_fields fr (sels ss) = Some fs" using f by blast
    moreover obtain r' where "foldl (agg_select ti fr) (Some r) fs = Some r'" using s by blast
    ultimately show ?case using Cons.IH [of r'] by simp
  qed simp
  then show ?thesis by (auto simp: collect_agg_def)
qed

text \<open>A second selection of the same aggregate, as merged fields or aliases give, replaces the columns of
  the first instead of adding to them.\<close>

lemma flatten_plain: "flatten_fields fr (map (\<lambda>f. FieldNode (fst f) (snd f)) fs) = Some fs"
  by (induction fs) (simp_all add: flatten_fields_simps(1) flatten_fields_simps(2))

lemma sum_selected_twice:
  assumes "ti_field_to_col ti x = Some cx" "ti_field_to_col ti y = Some cy"
  shows "collect_agg ti fr [Some [FieldNode (Some ''sum'') (Some [FieldNode (Some x) None]),
      FieldNode (Some ''sum'') (Some [FieldNode (Some y) None])]] = Some (no_aggregates\<lparr>ag_sum := [cy]\<rparr>)"
proof -
  have one: "agg_columns ti fr (Some [FieldNode (Some n) None]) = Some [c]" if "ti_field_to_col ti n = Some c" for n c
    using that flatten_plain [of fr "[(Some n, None)]"] by (simp add: agg_columns_def field_names_def)
  have "flatten_fields fr [FieldNode (Some ''sum'') (Some [FieldNode (Some x) None]),
      FieldNode (Some ''sum'') (Some [FieldNode (Some y) None])] =
    Some [(Some ''sum'', Some [FieldNode (Some x) None]), (Some ''sum'', Some [FieldNode (Some y) None])]"
    using flatten_plain [of fr "[(Some ''sum'', Some [FieldNode (Some x) None]), (Some ''sum'', Some [FieldNode (Some y) None])]"]
    by simp
  then show ?thesis by (simp add: collect_agg_def agg_select_def one [OF assms(1)] one [OF assms(2)] no_aggregates_def)
qed

end
