(* ===== verification/Schema_Build.thy ===== *)
theory Schema_Build
  imports Mutations Analytics DataLoader Naming
begin

text \<open>
  The generated schema of one role (\<open>schema/builder.go\<close>, with the type parts of \<open>aggregate.go\<close> and
  \<open>vector.go\<close>): which root fields, object types and input types it has, and which resolver stands
  behind each field. Types are kept by name; \<open>graphql.NewSchema\<close> is a parameter. Descriptions are
  left out.
\<close>

section \<open>Types and fields\<close>

datatype gtype = Named string | NonNull gtype | ListOf gtype

text \<open>The resolver closures of the builder, with the variables they capture.\<close>

datatype resolver =
    Role_Name
  | Column_Of string
  | Source_Key string
  | Ref_Row foreign_key bool
  | Child_Rows foreign_key bool
  | Aggregate_Of string
  | Nearest_Of string column
  | By_PK string
  | Connection_Of string
  | Insert_Many string
  | Insert_One string
  | Update_Many string
  | Update_One string
  | Delete_Many string
  | Delete_One string
  | Custom string

record out_field =
  f_type :: gtype
  f_args :: "gtype gmap"
  f_resolve :: resolver

type_synonym out_fields = "out_field gmap"

text \<open>\<open>schema.CustomField\<close>; a nil \<open>Field\<close> is \<open>None\<close>.\<close>

record custom_field =
  cf_name :: string
  cf_operation :: string
  cf_roles :: "string list"
  cf_field :: "out_field option"

definition scalar_name :: "gscalar \<Rightarrow> string" where
  "scalar_name s =
     (case s of
        SBoolean \<Rightarrow> ''Boolean'' | SInt \<Rightarrow> ''Int'' | SBigInt \<Rightarrow> ''BigInt'' | SFloat \<Rightarrow> ''Float''
      | SDecimal \<Rightarrow> ''Decimal'' | SDate \<Rightarrow> ''Date'' | SDateTime \<Rightarrow> ''DateTime'' | SJSON \<Rightarrow> ''JSON''
      | SBytes \<Rightarrow> ''Bytes'' | SVector \<Rightarrow> ''Vector'' | SString \<Rightarrow> ''String'')"

abbreviation scalar_type :: "column \<Rightarrow> gtype" where
  "scalar_type c \<equiv> Named (scalar_name (scalar_for c))"

definition field_of :: "table_info \<Rightarrow> string \<Rightarrow> string" where
  "field_of ti c = (case ti_col_to_field ti c of None \<Rightarrow> [] | Some f \<Rightarrow> f)"

section \<open>Table views\<close>

definition new_table_info :: "string \<Rightarrow> table \<Rightarrow> table_access \<Rightarrow> table_info" where
  "new_table_info tn t ta =
     \<lparr>ti_table = t, ti_access = ta, ti_type_name = graphql_name tn,
      ti_field_to_col = map_of (rev (map (\<lambda>c. (graphql_name (col_name c), c)) (tbl_columns t))),
      ti_col_to_field = map_of (rev (map (\<lambda>c. (col_name c, graphql_name (col_name c))) (tbl_columns t)))\<rparr>"

type_synonym table_infos = "table_info gmap"

fun add_infos :: "catalog \<Rightarrow> access \<Rightarrow> table_infos \<Rightarrow> string list \<Rightarrow> table_infos res" where
  "add_infos cat acc infos [] = Inr infos"
| "add_infos cat acc infos (tn # tns) =
     (case access_table acc tn of
        None \<Rightarrow> add_infos cat acc infos tns
      | Some ta \<Rightarrow>
          (case gget (cat_tables cat) tn of
             None \<Rightarrow> Inl (Go_Panic ''nil table'')
           | Some t \<Rightarrow>
               add_infos cat acc (gput tn (new_table_info tn t ta) infos) tns))"

section \<open>Object types\<close>

definition column_field :: "column \<Rightarrow> out_field" where
  "column_field col =
     \<lparr>f_type = (if \<not> col_nullable col \<and> scalar_for col \<noteq> SJSON then NonNull (scalar_type col) else scalar_type col),
      f_args = [], f_resolve = Column_Of (col_name col)\<rparr>"

definition rel_readable :: "op_access \<Rightarrow> string list \<Rightarrow> bool" where
  "rel_readable sel cols = list_all (\<lambda>c. c \<in> oa_colset sel) cols"

definition ref_candidate :: "foreign_key \<Rightarrow> string" where
  "ref_candidate fk =
     (case fk_columns fk of
        [c] \<Rightarrow> if has_suffix c ''_id'' \<and> 3 < length c then graphql_name (trim_suffix c ''_id'')
               else graphql_name (fk_ref_table fk)
      | _ \<Rightarrow> graphql_name (fk_ref_table fk))"

definition selectable :: "table_infos \<Rightarrow> string \<Rightarrow> table_info option" where
  "selectable infos tn =
     (case gget infos tn of
        None \<Rightarrow> None
      | Some ti \<Rightarrow> if ta_select (ti_access ti) = None then None else Some ti)"

text \<open>One outgoing foreign key; \<open>None\<close> when the search for a field name does not end.\<close>

definition add_ref :: "table_infos \<Rightarrow> op_access \<Rightarrow> out_fields option \<Rightarrow> foreign_key \<Rightarrow> out_fields option" where
  "add_ref infos sel acc fk =
     Option.bind acc (\<lambda>flds.
       case selectable infos (fk_ref_table fk) of
         None \<Rightarrow> Some flds
       | Some target \<Rightarrow>
           if \<not> rel_readable sel (fk_columns fk) then Some flds
           else map_option (\<lambda>name. gput name
                    \<lparr>f_type = Named (ti_type_name target), f_args = [],
                     f_resolve = Ref_Row fk (columns_readable target (fk_ref_columns fk))\<rparr> flds)
                  (rel_field_name (map fst flds) (ref_candidate fk) fk))"

definition list_field_args :: "table_info \<Rightarrow> gtype gmap" where
  "list_field_args ti =
     [(''where'', Named (ti_type_name ti @ ''_bool_exp'')),
      (''order_by'', ListOf (NonNull (Named (ti_type_name ti @ ''_order_by'')))),
      (''limit'', Named ''Int''), (''offset'', Named ''Int'')]"

definition add_children :: "table_infos \<Rightarrow> op_access \<Rightarrow> out_fields option \<Rightarrow> foreign_key \<Rightarrow> out_fields option" where
  "add_children infos sel acc fk =
     Option.bind acc (\<lambda>flds.
       case selectable infos (fk_table fk) of
         None \<Rightarrow> Some flds
       | Some child \<Rightarrow>
           if \<not> rel_readable sel (fk_ref_columns fk) then Some flds
           else map_option (\<lambda>name. gput name
                    \<lparr>f_type = NonNull (ListOf (NonNull (Named (ti_type_name child)))), f_args = list_field_args child,
                     f_resolve = Child_Rows fk (columns_readable child (fk_columns fk))\<rparr> flds)
                  (rel_field_name (map fst flds) (graphql_name (fk_table fk)) fk))"

definition object_fields :: "table_infos \<Rightarrow> table_info \<Rightarrow> op_access \<Rightarrow> out_fields option" where
  "object_fields infos ti sel =
     foldl (add_children infos sel)
       (foldl (add_ref infos sel)
         (Some (foldl (\<lambda>fs c. gput (field_of ti (col_name c)) (column_field c) fs) [] (oa_columns sel)))
         (tbl_fks (ti_table ti)))
       (tbl_incoming (ti_table ti))"

definition source_field :: "string \<Rightarrow> gtype \<Rightarrow> string \<times> out_field" where
  "source_field k t = (k, \<lparr>f_type = t, f_args = [], f_resolve = Source_Key k\<rparr>)"

definition connection_fields :: "table_info \<Rightarrow> out_fields" where
  "connection_fields ti =
     [source_field ''nodes'' (NonNull (ListOf (NonNull (Named (ti_type_name ti))))),
      source_field ''page_info'' (NonNull (Named ''page_info'')),
      (''total_count'', \<lparr>f_type = NonNull (Named ''Int''), f_args = [], f_resolve = Source_Key ''count''\<rparr>)]"

definition is_numeric :: "column \<Rightarrow> bool" where
  "is_numeric c =
     (col_data_type c \<in> set [''tinyint'', ''smallint'', ''mediumint'', ''int'', ''integer'', ''bigint'',
        ''decimal'', ''numeric'', ''float'', ''double'', ''real'', ''year'', ''bit''])"

definition numeric_fields :: "table_info \<Rightarrow> op_access \<Rightarrow> string \<Rightarrow> out_fields" where
  "numeric_fields ti sel t =
     foldl (\<lambda>fs c. gput (field_of ti (col_name c)) \<lparr>f_type = Named t, f_args = [], f_resolve = Column_Of (col_name c)\<rparr> fs)
       [] (filter is_numeric (oa_columns sel))"

definition same_type_fields :: "table_info \<Rightarrow> op_access \<Rightarrow> out_fields" where
  "same_type_fields ti sel =
     foldl (\<lambda>fs c. gput (field_of ti (col_name c)) \<lparr>f_type = scalar_type c, f_args = [], f_resolve = Column_Of (col_name c)\<rparr> fs)
       [] (oa_columns sel)"

definition aggregate_types :: "table_info \<Rightarrow> op_access \<Rightarrow> out_fields option gmap" where
  "aggregate_types ti sel =
     (let n = ti_type_name ti
      in [(n @ ''_sum_fields'', Some (numeric_fields ti sel ''Decimal'')),
          (n @ ''_avg_fields'', Some (numeric_fields ti sel ''Float'')),
          (n @ ''_min_fields'', Some (same_type_fields ti sel)),
          (n @ ''_max_fields'', Some (same_type_fields ti sel)),
          (n @ ''_aggregate_result'', Some
             [source_field ''count'' (NonNull (Named ''Int'')), source_field ''sum'' (Named (n @ ''_sum_fields'')),
              source_field ''avg'' (Named (n @ ''_avg_fields'')), source_field ''min'' (Named (n @ ''_min_fields'')),
              source_field ''max'' (Named (n @ ''_max_fields''))])])"

definition neighbor_fields :: "table_info \<Rightarrow> out_fields" where
  "neighbor_fields ti =
     [source_field ''node'' (NonNull (Named (ti_type_name ti))), source_field ''distance'' (NonNull (Named ''Float''))]"

section \<open>Input types\<close>

definition cmp_exp :: "gscalar \<Rightarrow> gtype gmap" where
  "cmp_exp s =
     (let t = Named (scalar_name s)
      in [(''_eq'', t), (''_neq'', t), (''_is_null'', Named ''Boolean'')] @
         (if s = SJSON then [(''_contains'', t), (''_has_key'', Named ''String'')]
          else if s = SBoolean then []
          else [(''_gt'', t), (''_gte'', t), (''_lt'', t), (''_lte'', t), (''_in'', ListOf (NonNull t)), (''_nin'', ListOf (NonNull t))] @
            (if s = SString then [(''_like'', t), (''_nlike'', t), (''_regex'', t), (''_nregex'', t)] else [])))"

definition bool_exp :: "table_info \<Rightarrow> op_access \<Rightarrow> gtype gmap" where
  "bool_exp ti sel =
     (let self = Named (ti_type_name ti @ ''_bool_exp'')
      in foldl (\<lambda>fs c. gput (field_of ti (col_name c)) (Named (scalar_name (scalar_for c) @ ''_comparison_exp'')) fs)
           [(''_and'', ListOf (NonNull self)), (''_or'', ListOf (NonNull self)), (''_not'', self)] (oa_columns sel))"

definition order_by_type :: "table_info \<Rightarrow> op_access \<Rightarrow> gtype gmap" where
  "order_by_type ti sel = foldl (\<lambda>fs c. gput (field_of ti (col_name c)) (Named ''order_by'') fs) [] (oa_columns sel)"

text \<open>The columns a client may set: the granted ones that are neither preset nor generated.\<close>

definition input_columns :: "op_access \<Rightarrow> column list" where
  "input_columns oa =
     filter (\<lambda>c. \<not> (col_name c \<in> (\<lambda>p. col_name (pre_column p)) ` set (oa_presets oa) \<or> col_generated c)) (oa_columns oa)"

definition insert_input :: "table_info \<Rightarrow> op_access \<Rightarrow> gtype gmap option" where
  "insert_input ti oa =
     (let fs = foldl (\<lambda>fs c. gput (field_of ti (col_name c))
            (if \<not> col_nullable c \<and> \<not> col_has_default c \<and> \<not> col_auto_inc c then NonNull (scalar_type c) else scalar_type c) fs)
          [] (input_columns oa)
      in if fs = [] then None else Some fs)"

definition set_input :: "table_info \<Rightarrow> op_access \<Rightarrow> gtype gmap option" where
  "set_input ti oa =
     (let fs = foldl (\<lambda>fs c. gput (field_of ti (col_name c)) (scalar_type c) fs) [] (input_columns oa)
      in if fs = [] then None else Some fs)"

section \<open>Root fields\<close>

definition pk_args :: "table_info \<Rightarrow> gtype gmap res" where
  "pk_args ti =
     rbind (mapr (\<lambda>pk. case tbl_colmap (ti_table ti) pk of
                         None \<Rightarrow> Inl (Go_Panic ''nil column'')
                       | Some c \<Rightarrow> Inr (field_of ti pk, NonNull (scalar_type c))) (tbl_pk (ti_table ti)))
       (\<lambda>kvs. Inr (foldl (\<lambda>m (k, t). gput k t m) [] kvs))"

definition aggregate_root :: "table_info \<Rightarrow> out_field" where
  "aggregate_root ti =
     \<lparr>f_type = NonNull (Named (ti_type_name ti @ ''_aggregate_result'')),
      f_args = [(''where'', Named (ti_type_name ti @ ''_bool_exp''))],
      f_resolve = Aggregate_Of (tbl_name (ti_table ti))\<rparr>"

definition nearest_root :: "table_info \<Rightarrow> column \<Rightarrow> out_field" where
  "nearest_root ti c =
     \<lparr>f_type = NonNull (ListOf (NonNull (Named (ti_type_name ti @ ''_neighbor'')))),
      f_args = [(''to'', NonNull (Named ''Vector'')), (''metric'', Named ''vector_metric''), (''first'', Named ''Int''),
                (''where'', Named (ti_type_name ti @ ''_bool_exp''))],
      f_resolve = Nearest_Of (tbl_name (ti_table ti)) c\<rparr>"

definition connection_root :: "table_info \<Rightarrow> out_field" where
  "connection_root ti =
     \<lparr>f_type = NonNull (Named (ti_type_name ti @ ''_connection'')),
      f_args = [(''first'', Named ''Int''), (''after'', Named ''String''), (''where'', Named (ti_type_name ti @ ''_bool_exp''))],
      f_resolve = Connection_Of (tbl_name (ti_table ti))\<rparr>"

definition add_query_fields :: "table_info \<Rightarrow> out_fields \<Rightarrow> out_fields res" where
  "add_query_fields ti flds =
     (let n = ti_type_name ti;
          flds = gput (n @ ''_aggregate'') (aggregate_root ti) flds;
          flds = foldl (\<lambda>fs c. gput (n @ ''_nearest_by_'' @ field_of ti (col_name c)) (nearest_root ti c) fs) flds (vector_columns ti)
      in if pk_exposable ti then
           rbind (pk_args ti) (\<lambda>args.
             Inr (gput (n @ ''_connection'') (connection_root ti)
               (gput (n @ ''_by_pk'') \<lparr>f_type = Named n, f_args = args, f_resolve = By_PK (tbl_name (ti_table ti))\<rparr> flds)))
         else Inr flds)"

definition mutation_response :: gtype where
  "mutation_response = NonNull (Named ''mutation_response'')"

definition add_insert_fields :: "table_info \<Rightarrow> out_fields \<Rightarrow> out_fields" where
  "add_insert_fields ti flds =
     (let n = ti_type_name ti; tn = tbl_name (ti_table ti); input = Named (n @ ''_insert_input'')
      in case Option.bind (ta_insert (ti_access ti)) (insert_input ti) of
           None \<Rightarrow> flds
         | Some _ \<Rightarrow>
             let flds = gput (''insert_'' @ n) \<lparr>f_type = mutation_response,
                   f_args = [(''objects'', NonNull (ListOf (NonNull input)))], f_resolve = Insert_Many tn\<rparr> flds
             in if pk_exposable ti
                then gput (''insert_'' @ n @ ''_one'') \<lparr>f_type = Named n, f_args = [(''object'', NonNull input)],
                       f_resolve = Insert_One tn\<rparr> flds
                else flds)"

definition add_update_fields :: "table_info \<Rightarrow> out_fields \<Rightarrow> out_fields res" where
  "add_update_fields ti flds =
     (let n = ti_type_name ti; tn = tbl_name (ti_table ti); set = NonNull (Named (n @ ''_set_input''))
      in case (if ta_select (ti_access ti) = None then None else Option.bind (ta_update (ti_access ti)) (set_input ti)) of
           None \<Rightarrow> Inr flds
         | Some _ \<Rightarrow>
             let flds = gput (''update_'' @ n) \<lparr>f_type = mutation_response,
                   f_args = [(''where'', NonNull (Named (n @ ''_bool_exp''))), (''_set'', set)], f_resolve = Update_Many tn\<rparr> flds
             in if pk_exposable ti
                then rbind (pk_args ti) (\<lambda>args.
                       Inr (gput (''update_'' @ n @ ''_by_pk'') \<lparr>f_type = Named n, f_args = gput ''_set'' set args,
                              f_resolve = Update_One tn\<rparr> flds))
                else Inr flds)"

definition add_delete_fields :: "table_info \<Rightarrow> out_fields \<Rightarrow> out_fields res" where
  "add_delete_fields ti flds =
     (let n = ti_type_name ti; tn = tbl_name (ti_table ti)
      in if ta_delete (ti_access ti) = None \<or> ta_select (ti_access ti) = None then Inr flds
         else let flds = gput (''delete_'' @ n) \<lparr>f_type = mutation_response,
                    f_args = [(''where'', NonNull (Named (n @ ''_bool_exp'')))], f_resolve = Delete_Many tn\<rparr> flds
              in if pk_exposable ti
                 then rbind (pk_args ti) (\<lambda>args.
                        Inr (gput (''delete_'' @ n @ ''_by_pk'') \<lparr>f_type = Named n, f_args = args,
                               f_resolve = Delete_One tn\<rparr> flds))
                 else Inr flds)"

definition add_mutation_fields :: "table_info \<Rightarrow> out_fields \<Rightarrow> out_fields res" where
  "add_mutation_fields ti flds =
     rbind (add_update_fields ti (add_insert_fields ti flds)) (add_delete_fields ti)"

text \<open>The loop of pass 3.\<close>

fun root_fields :: "table_infos \<Rightarrow> out_fields \<times> out_fields \<Rightarrow> string list \<Rightarrow> (out_fields \<times> out_fields) res" where
  "root_fields infos qm [] = Inr qm"
| "root_fields infos (q, m) (tn # tns) =
     (case gget infos tn of
        None \<Rightarrow> root_fields infos (q, m) tns
      | Some ti \<Rightarrow>
          rbind (if ta_select (ti_access ti) = None then Inr q else add_query_fields ti q) (\<lambda>q'.
          rbind (add_mutation_fields ti m) (\<lambda>m'. root_fields infos (q', m') tns)))"

section \<open>Custom fields\<close>

definition cf_allows :: "custom_field \<Rightarrow> string \<Rightarrow> bool" where
  "cf_allows cf role = (cf_roles cf = [] \<or> role \<in> set (cf_roles cf))"

definition custom_fields_for :: "custom_field list \<Rightarrow> string \<Rightarrow> string \<Rightarrow> custom_field list" where
  "custom_fields_for cfs role op = filter (\<lambda>cf. cf_operation cf = op \<and> cf_allows cf role) cfs"

fun mount_custom :: "string \<Rightarrow> string \<Rightarrow> out_fields \<Rightarrow> custom_field list \<Rightarrow> out_fields res" where
  "mount_custom role op flds [] = Inr flds"
| "mount_custom role op flds (cf # cfs) =
     (case cf_field cf of
        None \<Rightarrow> Inl (Gen_Err (Bad_Custom_Field op))
      | Some f \<Rightarrow>
          if cf_name cf = [] then Inl (Gen_Err (Bad_Custom_Field op))
          else if gget flds (cf_name cf) \<noteq> None then Inl (Gen_Err (Custom_Field_Taken op (cf_name cf) role))
          else mount_custom role op (gput (cf_name cf) f flds) cfs)"

definition add_custom_fields :: "custom_field list \<Rightarrow> string \<Rightarrow> string \<Rightarrow> out_fields \<Rightarrow> out_fields res" where
  "add_custom_fields cfs role op flds = mount_custom role op flds (custom_fields_for cfs role op)"

section \<open>The schema of a role\<close>

record role_schema =
  rs_query :: out_fields
  rs_mutation :: out_fields
  rs_objects :: "out_fields option gmap"
  rs_inputs :: "gtype gmap gmap"

definition role_root :: "out_fields" where
  "role_root = [(''_role'', \<lparr>f_type = NonNull (Named ''String''), f_args = [], f_resolve = Role_Name\<rparr>)]"

text \<open>The types of one table, when the role can select it.\<close>

definition table_objects :: "table_infos \<Rightarrow> table_info \<Rightarrow> out_fields option gmap" where
  "table_objects infos ti =
     (case ta_select (ti_access ti) of
        None \<Rightarrow> []
      | Some sel \<Rightarrow>
          (ti_type_name ti, object_fields infos ti sel) # aggregate_types ti sel @
          (if vector_columns ti = [] then [] else [(ti_type_name ti @ ''_neighbor'', Some (neighbor_fields ti))]) @
          (if pk_exposable ti then [(ti_type_name ti @ ''_connection'', Some (connection_fields ti))] else []))"

definition table_inputs :: "table_info \<Rightarrow> gtype gmap gmap" where
  "table_inputs ti =
     (case ta_select (ti_access ti) of
        None \<Rightarrow> []
      | Some sel \<Rightarrow> [(ti_type_name ti @ ''_bool_exp'', bool_exp ti sel), (ti_type_name ti @ ''_order_by'', order_by_type ti sel)]) @
     (case Option.bind (ta_insert (ti_access ti)) (insert_input ti) of
        None \<Rightarrow> [] | Some fs \<Rightarrow> [(ti_type_name ti @ ''_insert_input'', fs)]) @
     (case (if ta_select (ti_access ti) = None then None else Option.bind (ta_update (ti_access ti)) (set_input ti)) of
        None \<Rightarrow> [] | Some fs \<Rightarrow> [(ti_type_name ti @ ''_set_input'', fs)])"

definition build_role :: "custom_field list \<Rightarrow> catalog \<Rightarrow> string \<Rightarrow> access \<Rightarrow> role_schema res" where
  "build_role cfs cat role acc =
     rbind (add_infos cat acc [] (cat_order cat)) (\<lambda>infos.
     rbind (root_fields infos (role_root, []) (cat_order cat)) (\<lambda>(q, m).
     rbind (add_custom_fields cfs role ''query'' q) (\<lambda>q'.
     rbind (add_custom_fields cfs role ''mutation'' m) (\<lambda>m'.
       Inr \<lparr>rs_query = q', rs_mutation = m',
            rs_objects = concat (map (\<lambda>tn. case gget infos tn of None \<Rightarrow> [] | Some ti \<Rightarrow> table_objects infos ti) (cat_order cat)),
            rs_inputs = concat (map (\<lambda>tn. case gget infos tn of None \<Rightarrow> [] | Some ti \<Rightarrow> table_inputs ti) (cat_order cat))\<rparr>))))"

text \<open>The roles in the order in which one run visits them; \<open>graphql.NewSchema\<close> may refuse a schema.\<close>

fun build_roles :: "(role_schema \<Rightarrow> 's res) \<Rightarrow> custom_field list \<Rightarrow> catalog \<Rightarrow> 's gmap \<Rightarrow> role_cfg option gmap \<Rightarrow> 's gmap res" where
  "build_roles new_schema cfs cat out [] = Inr out"
| "build_roles new_schema cfs cat out ((rn, rc) # roles) =
     rbind (resolve rn rc cat) (\<lambda>acc.
     rbind (build_role cfs cat rn acc) (\<lambda>rs.
     rbind (new_schema rs) (\<lambda>s. build_roles new_schema cfs cat (gput rn s out) roles)))"

definition build_all :: "(role_schema \<Rightarrow> 's res) \<Rightarrow> custom_field list \<Rightarrow> catalog \<Rightarrow> role_cfg option gmap \<Rightarrow> 's gmap res" where
  "build_all new_schema cfs cat roles =
     rbind (check_name_collisions cat) (\<lambda>_. build_roles new_schema cfs cat [] roles)"

section \<open>What a schema shows\<close>

lemma gget_foldl_gput:
  "gget (foldl (\<lambda>fs c. gput (k c) (v c) fs) m cs) x = Some f \<Longrightarrow> gget m x = Some f \<or> (\<exists>c\<in>set cs. x = k c \<and> f = v c)"
  by (induction cs arbitrary: m) (fastforce split: if_splits)+

text \<open>Some table of the catalog with this name for which the role's access has the property.\<close>

definition table_granted :: "catalog \<Rightarrow> access \<Rightarrow> string \<Rightarrow> (table \<Rightarrow> table_access \<Rightarrow> bool) \<Rightarrow> bool" where
  "table_granted cat acc name P \<longleftrightarrow>
     (\<exists>tn\<in>set (cat_order cat). \<exists>t ta. access_table acc tn = Some ta \<and> gget (cat_tables cat) tn = Some t \<and>
        tbl_name t = name \<and> P t ta)"

definition pk_readable :: "table \<Rightarrow> table_access \<Rightarrow> bool" where
  "pk_readable t ta \<longleftrightarrow> tbl_pk t \<noteq> [] \<and> (\<exists>oa. ta_select ta = Some oa \<and> set (tbl_pk t) \<subseteq> oa_colset oa)"

fun resolver_granted :: "catalog \<Rightarrow> access \<Rightarrow> resolver \<Rightarrow> bool" where
  "resolver_granted cat acc Role_Name = True"
| "resolver_granted cat acc (Aggregate_Of n) = table_granted cat acc n (\<lambda>t ta. ta_select ta \<noteq> None)"
| "resolver_granted cat acc (Nearest_Of n c) =
     table_granted cat acc n (\<lambda>t ta. \<exists>oa. ta_select ta = Some oa \<and> c \<in> set (oa_columns oa))"
| "resolver_granted cat acc (By_PK n) = table_granted cat acc n pk_readable"
| "resolver_granted cat acc (Connection_Of n) = table_granted cat acc n pk_readable"
| "resolver_granted cat acc (Insert_Many n) = table_granted cat acc n (\<lambda>t ta. ta_insert ta \<noteq> None)"
| "resolver_granted cat acc (Insert_One n) = table_granted cat acc n (\<lambda>t ta. ta_insert ta \<noteq> None \<and> pk_readable t ta)"
| "resolver_granted cat acc (Update_Many n) = table_granted cat acc n (\<lambda>t ta. ta_update ta \<noteq> None \<and> ta_select ta \<noteq> None)"
| "resolver_granted cat acc (Update_One n) = table_granted cat acc n (\<lambda>t ta. ta_update ta \<noteq> None \<and> pk_readable t ta)"
| "resolver_granted cat acc (Delete_Many n) = table_granted cat acc n (\<lambda>t ta. ta_delete ta \<noteq> None \<and> ta_select ta \<noteq> None)"
| "resolver_granted cat acc (Delete_One n) = table_granted cat acc n (\<lambda>t ta. ta_delete ta \<noteq> None \<and> pk_readable t ta)"
| "resolver_granted cat acc _ = False"

text \<open>A view comes from a table of the catalog that the role has access to.\<close>

definition info_from :: "catalog \<Rightarrow> access \<Rightarrow> string \<Rightarrow> table_info \<Rightarrow> bool" where
  "info_from cat acc tn ti \<longleftrightarrow>
     (\<exists>t ta. access_table acc tn = Some ta \<and> gget (cat_tables cat) tn = Some t \<and> ti = new_table_info tn t ta)"

lemma add_infos_from:
  "add_infos cat acc infos tns = Inr infos' \<Longrightarrow> \<forall>tn ti. gget infos tn = Some ti \<longrightarrow> tn \<in> S \<and> info_from cat acc tn ti \<Longrightarrow>
     set tns \<subseteq> S \<Longrightarrow> gget infos' tn = Some ti \<Longrightarrow> tn \<in> S \<and> info_from cat acc tn ti"
proof (induction tns arbitrary: infos)
  case (Cons u tns)
  show ?case
  proof (cases "access_table acc u")
    case None
    with Cons show ?thesis by simp
  next
    case (Some ta)
    then obtain t where t: "gget (cat_tables cat) u = Some t"
      "add_infos cat acc (gput u (new_table_info u t ta) infos) tns = Inr infos'"
      using Cons.prems(1) by (auto split: option.splits)
    have "\<forall>v ti. gget (gput u (new_table_info u t ta) infos) v = Some ti \<longrightarrow> v \<in> S \<and> info_from cat acc v ti"
      using Cons.prems(2,3) Some t(1) by (auto simp: info_from_def)
    from Cons.IH [OF t(2) this] Cons.prems(3,4) show ?thesis by simp
  qed
qed simp

lemma pk_exposable_readable: "pk_exposable ti \<longleftrightarrow> pk_readable (ti_table ti) (ti_access ti)"
  by (auto simp: pk_exposable_def pk_readable_def list_all_iff split: option.splits)

lemma new_info_simps [simp]:
  "ti_table (new_table_info tn t ta) = t" "ti_access (new_table_info tn t ta) = ta"
  "ti_type_name (new_table_info tn t ta) = graphql_name tn"
  by (simp_all add: new_table_info_def)

lemma grantedI:
  "tn \<in> set (cat_order cat) \<Longrightarrow> info_from cat acc tn ti \<Longrightarrow> P (ti_table ti) (ti_access ti) \<Longrightarrow>
     table_granted cat acc (tbl_name (ti_table ti)) P"
  unfolding table_granted_def info_from_def by (metis new_info_simps(1,2))

lemma query_fields_granted:
  assumes tn: "tn \<in> set (cat_order cat)" "info_from cat acc tn ti" and sel: "ta_select (ti_access ti) \<noteq> None"
    and q: "add_query_fields ti fs = Inr fs'" "gget fs' x = Some f"
  shows "gget fs x = Some f \<or> resolver_granted cat acc (f_resolve f)"
proof -
  let ?n = "ti_type_name ti"
  let ?fs = "foldl (\<lambda>fs c. gput (?n @ ''_nearest_by_'' @ field_of ti (col_name c)) (nearest_root ti c) fs)
      (gput (?n @ ''_aggregate'') (aggregate_root ti) fs) (vector_columns ti)"
  have agg: "resolver_granted cat acc (f_resolve (aggregate_root ti))"
    using grantedI [OF tn] sel by (simp add: aggregate_root_def)
  have near: "resolver_granted cat acc (f_resolve (nearest_root ti c))" if c: "c \<in> set (vector_columns ti)" for c
  proof -
    obtain oa where "ta_select (ti_access ti) = Some oa" "c \<in> set (oa_columns oa)"
      using c by (cases "ta_select (ti_access ti)") (auto simp: vector_columns_def)
    then show ?thesis by (auto simp: nearest_root_def intro: grantedI [OF tn])
  qed
  have base: "gget fs x = Some f \<or> resolver_granted cat acc (f_resolve f)" if "gget ?fs x = Some f"
    using gget_foldl_gput [OF that] agg near by (auto split: if_splits)
  show ?thesis
  proof (cases "pk_exposable ti")
    case True
    then have "table_granted cat acc (tbl_name (ti_table ti)) pk_readable"
      using grantedI [OF tn] pk_exposable_readable by blast
    then show ?thesis
      using q True base by (auto simp: add_query_fields_def Let_def connection_root_def split: if_splits)
  next
    case False
    then show ?thesis using q base by (simp add: add_query_fields_def Let_def)
  qed
qed

lemma insert_fields_granted:
  assumes tn: "tn \<in> set (cat_order cat)" "info_from cat acc tn ti" and q: "gget (add_insert_fields ti fs) x = Some f"
  shows "gget fs x = Some f \<or> resolver_granted cat acc (f_resolve f)"
  using q grantedI [OF tn, of "\<lambda>t ta. ta_insert ta \<noteq> None"] grantedI [OF tn, of "\<lambda>t ta. ta_insert ta \<noteq> None \<and> pk_readable t ta"]
  by (cases "ta_insert (ti_access ti)") (auto simp: add_insert_fields_def Let_def pk_exposable_readable split: option.splits if_splits)

lemma update_fields_granted:
  assumes tn: "tn \<in> set (cat_order cat)" "info_from cat acc tn ti"
    and q: "add_update_fields ti fs = Inr fs'" "gget fs' x = Some f"
  shows "gget fs x = Some f \<or> resolver_granted cat acc (f_resolve f)"
  using q grantedI [OF tn, of "\<lambda>t ta. ta_update ta \<noteq> None \<and> ta_select ta \<noteq> None"]
    grantedI [OF tn, of "\<lambda>t ta. ta_update ta \<noteq> None \<and> pk_readable t ta"]
  by (cases "ta_update (ti_access ti)"; cases "ta_select (ti_access ti)")
    (auto simp: add_update_fields_def Let_def pk_exposable_readable split: option.splits if_splits)

lemma delete_fields_granted:
  assumes tn: "tn \<in> set (cat_order cat)" "info_from cat acc tn ti"
    and q: "add_delete_fields ti fs = Inr fs'" "gget fs' x = Some f"
  shows "gget fs x = Some f \<or> resolver_granted cat acc (f_resolve f)"
  using q grantedI [OF tn, of "\<lambda>t ta. ta_delete ta \<noteq> None \<and> ta_select ta \<noteq> None"]
    grantedI [OF tn, of "\<lambda>t ta. ta_delete ta \<noteq> None \<and> pk_readable t ta"]
  by (auto simp: add_delete_fields_def Let_def pk_exposable_readable split: if_splits)

lemma mutation_fields_granted:
  assumes tn: "tn \<in> set (cat_order cat)" "info_from cat acc tn ti"
    and q: "add_mutation_fields ti fs = Inr fs'" "gget fs' x = Some f"
  shows "gget fs x = Some f \<or> resolver_granted cat acc (f_resolve f)"
  using q insert_fields_granted [OF tn] update_fields_granted [OF tn] delete_fields_granted [OF tn]
  unfolding add_mutation_fields_def rbind_Inr_iff by blast

definition all_granted :: "catalog \<Rightarrow> access \<Rightarrow> out_fields \<Rightarrow> bool" where
  "all_granted cat acc fs \<longleftrightarrow> (\<forall>x f. gget fs x = Some f \<longrightarrow> resolver_granted cat acc (f_resolve f))"

lemma root_fields_granted:
  assumes "\<forall>tn ti. gget infos tn = Some ti \<longrightarrow> tn \<in> set (cat_order cat) \<and> info_from cat acc tn ti"
  shows "root_fields infos (q, m) tns = Inr (q', m') \<Longrightarrow> all_granted cat acc q \<Longrightarrow> all_granted cat acc m \<Longrightarrow>
    all_granted cat acc q' \<and> all_granted cat acc m'"
proof (induction tns arbitrary: q m)
  case (Cons tn tns)
  show ?case
  proof (cases "gget infos tn")
    case None
    with Cons show ?thesis by simp
  next
    case (Some ti)
    note tn = assms [rule_format, OF Some]
    obtain q1 m1 where 1: "(if ta_select (ti_access ti) = None then Inr q else add_query_fields ti q) = Inr q1"
      "add_mutation_fields ti m = Inr m1" "root_fields infos (q1, m1) tns = Inr (q', m')"
      using Cons.prems(1) Some by auto
    have "all_granted cat acc q1"
      using Cons.prems(2) 1(1) query_fields_granted [of tn cat acc ti q q1] tn by (auto simp: all_granted_def split: if_splits)
    moreover have "all_granted cat acc m1"
      using Cons.prems(3) mutation_fields_granted [OF _ _ 1(2)] tn unfolding all_granted_def by blast
    ultimately show ?thesis using Cons.IH [OF 1(3)] by blast
  qed
qed simp

lemma mount_custom_in:
  "mount_custom role op fs cfs = Inr fs' \<Longrightarrow> gget fs' x = Some f \<Longrightarrow>
     gget fs x = Some f \<or> (\<exists>cf\<in>set cfs. cf_field cf = Some f \<and> cf_name cf = x)"
  by (induction cfs arbitrary: fs) (fastforce split: option.splits if_splits)+

text \<open>C28: A role's root fields are the ones it was granted. Every query and mutation field of a role's
  schema is \<open>_role\<close>, a custom field open to the role, or an operation the role holds on that very
  table: aggregates, searches and connections need select, fields by primary key and single-row
  results need every key column readable, mutations need their own grant, and updates and deletes
  select as well.\<close>

theorem root_fields_are_granted:
  assumes "build_role cfs cat role acc = Inr rs"
    and "gget (rs_query rs) x = Some f \<or> gget (rs_mutation rs) x = Some f"
  shows "resolver_granted cat acc (f_resolve f) \<or> (\<exists>cf\<in>set cfs. cf_field cf = Some f \<and> cf_name cf = x \<and> cf_allows cf role)"
proof -
  obtain infos q m q' m' where b: "add_infos cat acc [] (cat_order cat) = Inr infos"
    "root_fields infos (role_root, []) (cat_order cat) = Inr (q, m)"
    "add_custom_fields cfs role ''query'' q = Inr q'" "add_custom_fields cfs role ''mutation'' m = Inr m'"
    "rs_query rs = q'" "rs_mutation rs = m'"
    using assms(1) by (auto simp: build_role_def)
  have "\<forall>tn ti. gget infos tn = Some ti \<longrightarrow> tn \<in> set (cat_order cat) \<and> info_from cat acc tn ti"
    using add_infos_from [OF b(1), of "set (cat_order cat)"] by simp
  moreover have "all_granted cat acc role_root" "all_granted cat acc []"
    by (simp_all add: all_granted_def role_root_def)
  ultimately have g: "all_granted cat acc q" "all_granted cat acc m" using root_fields_granted b(2) by blast+
  have custom: "(\<exists>cf\<in>set cfs. cf_field cf = Some f \<and> cf_name cf = x \<and> cf_allows cf role)"
    if "cf \<in> set (custom_fields_for cfs role op)" "cf_field cf = Some f" "cf_name cf = x" for cf op
    using that by (auto simp: custom_fields_for_def)
  from assms(2) consider "gget q' x = Some f" | "gget m' x = Some f" using b(5,6) by auto
  then show ?thesis
  proof cases
    case 1
    from mount_custom_in [OF b(3) [unfolded add_custom_fields_def] 1] g(1) custom show ?thesis
      unfolding all_granted_def by blast
  next
    case 2
    from mount_custom_in [OF b(4) [unfolded add_custom_fields_def] 2] g(2) custom show ?thesis
      unfolding all_granted_def by blast
  qed
qed

definition demo_custom :: "custom_field list" where
  "demo_custom = [\<lparr>cf_name = ''signup'', cf_operation = ''mutation'', cf_roles = [''user''],
     cf_field = Some \<lparr>f_type = Named ''String'', f_args = [], f_resolve = Custom ''signup''\<rparr>\<rparr>]"

lemma demo_names:
  "graphql_name ''notes'' = ''notes''" "graphql_name ''id'' = ''id''" "graphql_name ''owner'' = ''owner''"
  "graphql_name ''secret'' = ''secret''" "graphql_name ''meta'' = ''meta''"
  by (rule graphql_name_id, code_simp)+

definition demo_view :: table_info where
  "demo_view = demo_info\<lparr>ti_access := the (access_table demo_access ''notes'')\<rparr>"

lemma demo_table_view: "new_table_info ''notes'' demo_table (ti_access demo_view) = demo_view"
  by (simp add: new_table_info_def demo_view_def demo_info_def demo_table_def demo_columns_def demo_col_def demo_names fun_eq_iff)

lemma demo_infos: "add_infos demo_catalog demo_access [] [''notes''] = Inr [(''notes'', demo_view)]"
proof -
  have "access_table demo_access ''notes'' = Some (ti_access demo_view)"
    by (simp add: demo_view_def access_table_def demo_access_def)
  then show ?thesis using demo_table_view by (simp add: demo_catalog_def)
qed

lemma demo_roots:
  "case root_fields [(''notes'', demo_view)] (role_root, []) [''notes''] of
     Inl e \<Rightarrow> False
   | Inr (q, m) \<Rightarrow> map fst q = [''_role'', ''notes_aggregate'', ''notes_by_pk'', ''notes_connection''] \<and>
       map fst m = [''insert_notes'', ''insert_notes_one'', ''update_notes'', ''update_notes_by_pk''] \<and>
       map_option f_resolve (gget q ''notes_by_pk'') = Some (By_PK ''notes'')"
  by code_simp

lemma demo_built:
  "\<exists>rs. build_role demo_custom demo_catalog ''user'' demo_access = Inr rs \<and>
     map_option f_resolve (gget (rs_query rs) ''notes_by_pk'') = Some (By_PK ''notes'') \<and>
     gget (rs_mutation rs) ''signup'' \<noteq> None"
proof -
  obtain q m where r: "root_fields [(''notes'', demo_view)] (role_root, []) [''notes''] = Inr (q, m)"
    "map_option f_resolve (gget q ''notes_by_pk'') = Some (By_PK ''notes'')"
    "map fst m = [''insert_notes'', ''insert_notes_one'', ''update_notes'', ''update_notes_by_pk'']"
    using demo_roots by (auto split: sum.splits prod.splits)
  have "gget m ''signup'' = None" using r(3) by (simp add: map_of_eq_None_iff flip: set_map)
  moreover have "cat_order demo_catalog = [''notes'']" by (simp add: demo_catalog_def)
  ultimately show ?thesis
    using demo_infos r(1,2) by (simp add: build_role_def add_custom_fields_def custom_fields_for_def demo_custom_def cf_allows_def)
qed

theorem root_fields_are_granted_witness:
  "\<exists>rs f. build_role demo_custom demo_catalog ''user'' demo_access = Inr rs \<and>
     gget (rs_query rs) ''notes_by_pk'' = Some f \<and> f_resolve f = By_PK ''notes'' \<and>
     table_granted demo_catalog demo_access ''notes'' pk_readable"
proof -
  obtain rs where rs: "build_role demo_custom demo_catalog ''user'' demo_access = Inr rs"
    "map_option f_resolve (gget (rs_query rs) ''notes_by_pk'') = Some (By_PK ''notes'')"
    using demo_built by blast
  obtain f where f: "gget (rs_query rs) ''notes_by_pk'' = Some f" "f_resolve f = By_PK ''notes''" using rs(2) by auto
  have "\<not> (\<exists>cf\<in>set demo_custom. cf_field cf = Some f \<and> cf_name cf = ''notes_by_pk'' \<and> cf_allows cf ''user'')"
    by (simp add: demo_custom_def)
  with root_fields_are_granted [OF rs(1) disjI1 [OF f(1)]] f(2)
  have "table_granted demo_catalog demo_access ''notes'' pk_readable" by simp
  then show ?thesis using rs(1) f by blast
qed

section \<open>What the types show\<close>

definition select_granted :: "catalog \<Rightarrow> access \<Rightarrow> string \<Rightarrow> bool" where
  "select_granted cat acc tn \<longleftrightarrow>
     tn \<in> set (cat_order cat) \<and> (\<exists>ta. access_table acc tn = Some ta \<and> ta_select ta \<noteq> None)"

text \<open>A field of a table's types reads a readable column, metadata of the result, or follows a foreign key
  whose parent-side columns are readable to a table the role may select.\<close>

fun field_shown :: "catalog \<Rightarrow> access \<Rightarrow> table \<Rightarrow> op_access \<Rightarrow> resolver \<Rightarrow> bool" where
  "field_shown cat acc t sel (Column_Of c) = (c \<in> col_name ` set (oa_columns sel))"
| "field_shown cat acc t sel (Source_Key k) = True"
| "field_shown cat acc t sel (Ref_Row fk b) =
     (fk \<in> set (tbl_fks t) \<and> set (fk_columns fk) \<subseteq> oa_colset sel \<and> select_granted cat acc (fk_ref_table fk))"
| "field_shown cat acc t sel (Child_Rows fk b) =
     (fk \<in> set (tbl_incoming t) \<and> set (fk_ref_columns fk) \<subseteq> oa_colset sel \<and> select_granted cat acc (fk_table fk))"
| "field_shown cat acc t sel _ = False"

definition fields_shown :: "catalog \<Rightarrow> access \<Rightarrow> table \<Rightarrow> op_access \<Rightarrow> out_fields option \<Rightarrow> bool" where
  "fields_shown cat acc t sel ofs \<longleftrightarrow>
     (\<exists>fs. ofs = Some fs \<and> (\<forall>x f. gget fs x = Some f \<longrightarrow> field_shown cat acc t sel (f_resolve f)))"

definition infos_ok :: "catalog \<Rightarrow> access \<Rightarrow> table_infos \<Rightarrow> bool" where
  "infos_ok cat acc infos \<longleftrightarrow> (\<forall>tn ti. gget infos tn = Some ti \<longrightarrow> tn \<in> set (cat_order cat) \<and> info_from cat acc tn ti)"

lemma selectable_granted: "infos_ok cat acc infos \<Longrightarrow> selectable infos tn = Some ti \<Longrightarrow> select_granted cat acc tn"
  unfolding selectable_def infos_ok_def select_granted_def info_from_def
  by (simp split: option.splits if_splits) (metis new_info_simps(2) not_Some_eq)

lemma rel_readable_iff: "rel_readable sel cols \<longleftrightarrow> set cols \<subseteq> oa_colset sel"
  by (auto simp: rel_readable_def list_all_iff)

lemma add_ref_shown:
  assumes "infos_ok cat acc infos" "fields_shown cat acc t sel ofs" "fk \<in> set (tbl_fks t)"
  shows "fields_shown cat acc t sel (add_ref infos sel ofs fk)"
proof -
  obtain fs where fs: "ofs = Some fs" "\<And>x f. gget fs x = Some f \<Longrightarrow> field_shown cat acc t sel (f_resolve f)"
    using assms(2) by (auto simp: fields_shown_def)
  obtain name where "rel_field_name (map fst fs) (ref_candidate fk) fk = Some name"
    using rel_field_name_free by blast
  then show ?thesis
    using fs assms selectable_granted [OF assms(1)]
    by (auto simp: add_ref_def fields_shown_def rel_readable_iff split: option.splits)
qed

lemma add_children_shown:
  assumes "infos_ok cat acc infos" "fields_shown cat acc t sel ofs" "fk \<in> set (tbl_incoming t)"
  shows "fields_shown cat acc t sel (add_children infos sel ofs fk)"
proof -
  obtain fs where fs: "ofs = Some fs" "\<And>x f. gget fs x = Some f \<Longrightarrow> field_shown cat acc t sel (f_resolve f)"
    using assms(2) by (auto simp: fields_shown_def)
  obtain name where "rel_field_name (map fst fs) (graphql_name (fk_table fk)) fk = Some name"
    using rel_field_name_free by blast
  then show ?thesis
    using fs assms selectable_granted [OF assms(1)]
    by (auto simp: add_children_def fields_shown_def rel_readable_iff split: option.splits)
qed

lemma fields_shown_foldl:
  assumes "\<And>ofs fk. fields_shown cat acc t sel ofs \<Longrightarrow> fk \<in> set fks \<Longrightarrow> fields_shown cat acc t sel (add ofs fk)"
  shows "fields_shown cat acc t sel ofs \<Longrightarrow> fields_shown cat acc t sel (foldl add ofs fks)"
  using assms by (induction fks arbitrary: ofs) auto

lemma column_fields_shown:
  assumes "\<And>c. f_resolve (v c) = Column_Of (col_name c)" "set cs \<subseteq> set (oa_columns sel)"
  shows "fields_shown cat acc t sel (Some (foldl (\<lambda>fs c. gput (k c) (v c) fs) [] cs))"
  unfolding fields_shown_def using gget_foldl_gput [of k v "[]" cs] assms by fastforce

lemma object_fields_shown:
  "infos_ok cat acc infos \<Longrightarrow> fields_shown cat acc (ti_table ti) sel (object_fields infos ti sel)"
  unfolding object_fields_def
  by (intro fields_shown_foldl add_children_shown add_ref_shown column_fields_shown) (auto simp: column_field_def)

lemma source_fields_shown:
  "list_all (\<lambda>(k, f). \<exists>s. f_resolve f = Source_Key s) fs \<Longrightarrow> fields_shown cat acc t sel (Some fs)"
  unfolding fields_shown_def list_all_iff by (fastforce dest: map_of_SomeD)

lemma table_objects_shown:
  assumes "infos_ok cat acc infos" "(n, ofs) \<in> set (table_objects infos ti)"
  shows "\<exists>sel. ta_select (ti_access ti) = Some sel \<and> fields_shown cat acc (ti_table ti) sel ofs"
proof -
  obtain sel where sel: "ta_select (ti_access ti) = Some sel"
    using assms(2) by (cases "ta_select (ti_access ti)") (auto simp: table_objects_def)
  have "fields_shown cat acc (ti_table ti) sel (Some (numeric_fields ti sel ty))" for ty
    unfolding numeric_fields_def by (rule column_fields_shown) auto
  moreover have "fields_shown cat acc (ti_table ti) sel (Some (same_type_fields ti sel))"
    unfolding same_type_fields_def by (rule column_fields_shown) auto
  moreover have "fields_shown cat acc (ti_table ti) sel (Some (neighbor_fields ti))"
    "fields_shown cat acc (ti_table ti) sel (Some (connection_fields ti))"
    by (rule source_fields_shown; simp add: neighbor_fields_def connection_fields_def source_field_def)+
  moreover have "fields_shown cat acc (ti_table ti) sel (Some
             [source_field ''count'' (NonNull (Named ''Int'')), source_field ''sum'' a, source_field ''avg'' b,
              source_field ''min'' c, source_field ''max'' d])" for a b c d
    by (rule source_fields_shown) (simp add: source_field_def)
  ultimately have "fields_shown cat acc (ti_table ti) sel ofs"
    using assms sel object_fields_shown [OF assms(1)]
    by (auto simp: table_objects_def aggregate_types_def Let_def split: if_splits)
  then show ?thesis using sel by blast
qed

lemma dom_foldl_gput: "dom (gget (foldl (\<lambda>fs c. gput (k c) (v c) fs) m cs)) = dom (gget m) \<union> k ` set cs"
  by (induction cs arbitrary: m) auto

text \<open>The fields of an input type and the columns they may name.\<close>

definition input_shown :: "table_info \<Rightarrow> string \<Rightarrow> gtype gmap \<Rightarrow> bool" where
  "input_shown ti n fs \<longleftrightarrow>
     (\<exists>sel. ta_select (ti_access ti) = Some sel \<and> n \<in> {ti_type_name ti @ ''_bool_exp'', ti_type_name ti @ ''_order_by''} \<and>
        dom (gget fs) \<subseteq> {''_and'', ''_or'', ''_not''} \<union> (\<lambda>c. field_of ti (col_name c)) ` set (oa_columns sel)) \<or>
     (\<exists>oa. ta_insert (ti_access ti) = Some oa \<and> n = ti_type_name ti @ ''_insert_input'' \<and>
        dom (gget fs) = (\<lambda>c. field_of ti (col_name c)) ` {c \<in> set (oa_columns oa).
          \<not> col_generated c \<and> (\<forall>p\<in>set (oa_presets oa). col_name (pre_column p) \<noteq> col_name c)}) \<or>
     (\<exists>oa. ta_update (ti_access ti) = Some oa \<and> n = ti_type_name ti @ ''_set_input'' \<and>
        dom (gget fs) = (\<lambda>c. field_of ti (col_name c)) ` {c \<in> set (oa_columns oa).
          \<not> col_generated c \<and> (\<forall>p\<in>set (oa_presets oa). col_name (pre_column p) \<noteq> col_name c)})"

lemma set_input_columns:
  "set (input_columns oa) = {c \<in> set (oa_columns oa). \<not> col_generated c \<and> (\<forall>p\<in>set (oa_presets oa). col_name (pre_column p) \<noteq> col_name c)}"
  by (force simp: input_columns_def)

lemma table_inputs_shown:
  assumes "(n, fs) \<in> set (table_inputs ti)"
  shows "input_shown ti n fs"
proof -
  consider (sel) sel where "ta_select (ti_access ti) = Some sel"
      "(n, fs) \<in> {(ti_type_name ti @ ''_bool_exp'', bool_exp ti sel), (ti_type_name ti @ ''_order_by'', order_by_type ti sel)}"
    | (ins) oa where "ta_insert (ti_access ti) = Some oa" "insert_input ti oa = Some fs" "n = ti_type_name ti @ ''_insert_input''"
    | (upd) oa where "ta_update (ti_access ti) = Some oa" "set_input ti oa = Some fs" "n = ti_type_name ti @ ''_set_input''"
    using assms
    by (cases "ta_select (ti_access ti)"; cases "ta_insert (ti_access ti)"; cases "ta_update (ti_access ti)")
      (auto simp: table_inputs_def split: option.splits)
  then show ?thesis
  proof cases
    case sel
    have "dom (gget (bool_exp ti sel)) \<subseteq> {''_and'', ''_or'', ''_not''} \<union> (\<lambda>c. field_of ti (col_name c)) ` set (oa_columns sel)"
      unfolding bool_exp_def Let_def dom_foldl_gput by auto
    moreover have "dom (gget (order_by_type ti sel)) \<subseteq> (\<lambda>c. field_of ti (col_name c)) ` set (oa_columns sel)"
      unfolding order_by_type_def dom_foldl_gput by auto
    ultimately have "dom (gget fs) \<subseteq> {''_and'', ''_or'', ''_not''} \<union> (\<lambda>c. field_of ti (col_name c)) ` set (oa_columns sel)"
      using sel(2) by blast
    then show ?thesis using sel unfolding input_shown_def by blast
  next
    case ins
    then have fs: "fs = foldl (\<lambda>fs c. gput (field_of ti (col_name c))
            (if \<not> col_nullable c \<and> \<not> col_has_default c \<and> \<not> col_auto_inc c then NonNull (scalar_type c) else scalar_type c) fs)
          [] (input_columns oa)"
      by (simp add: insert_input_def Let_def split: if_splits)
    have "dom (gget fs) = (\<lambda>c. field_of ti (col_name c)) ` set (input_columns oa)"
      unfolding fs dom_foldl_gput by simp
    then show ?thesis using ins unfolding input_shown_def set_input_columns by blast
  next
    case upd
    then have fs: "fs = foldl (\<lambda>fs c. gput (field_of ti (col_name c)) (scalar_type c) fs) [] (input_columns oa)"
      by (simp add: set_input_def Let_def split: if_splits)
    have "dom (gget fs) = (\<lambda>c. field_of ti (col_name c)) ` set (input_columns oa)"
      unfolding fs dom_foldl_gput by simp
    then show ?thesis using upd unfolding input_shown_def set_input_columns by blast
  qed
qed

text \<open>C29: The types of a role's schema name only what the role was granted, so introspection reveals nothing
  more. Every object type belongs to a table the role may select, can be built (no search for a field
  name runs on for ever), and its fields read readable columns, metadata, or follow a foreign key whose
  columns are readable to a table the role may select; filter and order inputs name readable columns;
  insert and update inputs name exactly the granted columns that are neither preset nor generated.\<close>

theorem types_are_granted:
  assumes "build_role cfs cat role acc = Inr rs"
  shows "(\<forall>n ofs. (n, ofs) \<in> set (rs_objects rs) \<longrightarrow>
      (\<exists>tn t ta sel. tn \<in> set (cat_order cat) \<and> access_table acc tn = Some ta \<and> gget (cat_tables cat) tn = Some t \<and>
         ta_select ta = Some sel \<and> fields_shown cat acc t sel ofs)) \<and>
    (\<forall>n ifs. (n, ifs) \<in> set (rs_inputs rs) \<longrightarrow>
      (\<exists>tn t ta. tn \<in> set (cat_order cat) \<and> access_table acc tn = Some ta \<and> gget (cat_tables cat) tn = Some t \<and>
         input_shown (new_table_info tn t ta) n ifs))"
proof -
  obtain infos where b: "add_infos cat acc [] (cat_order cat) = Inr infos"
    "rs_objects rs = concat (map (\<lambda>tn. case gget infos tn of None \<Rightarrow> [] | Some ti \<Rightarrow> table_objects infos ti) (cat_order cat))"
    "rs_inputs rs = concat (map (\<lambda>tn. case gget infos tn of None \<Rightarrow> [] | Some ti \<Rightarrow> table_inputs ti) (cat_order cat))"
    using assms by (auto simp: build_role_def)
  have ok: "infos_ok cat acc infos"
    using add_infos_from [OF b(1), of "set (cat_order cat)"] by (simp add: infos_ok_def)
  have obj: "\<exists>tn t ta sel. tn \<in> set (cat_order cat) \<and> access_table acc tn = Some ta \<and> gget (cat_tables cat) tn = Some t \<and>
         ta_select ta = Some sel \<and> fields_shown cat acc t sel ofs" if m: "(n, ofs) \<in> set (rs_objects rs)" for n ofs
  proof -
    obtain tn where tn: "(n, ofs) \<in> set (case gget infos tn of None \<Rightarrow> [] | Some ti \<Rightarrow> table_objects infos ti)"
      using m unfolding b(2) by auto
    obtain ti where ti: "gget infos tn = Some ti" "(n, ofs) \<in> set (table_objects infos ti)"
      using tn by (cases "gget infos tn") auto
    then show ?thesis
      using ok table_objects_shown [OF ok ti(2)] unfolding infos_ok_def info_from_def by (metis new_info_simps(1,2))
  qed
  have inp: "\<exists>tn t ta. tn \<in> set (cat_order cat) \<and> access_table acc tn = Some ta \<and> gget (cat_tables cat) tn = Some t \<and>
         input_shown (new_table_info tn t ta) n ifs" if m: "(n, ifs) \<in> set (rs_inputs rs)" for n ifs
  proof -
    obtain tn where tn: "(n, ifs) \<in> set (case gget infos tn of None \<Rightarrow> [] | Some ti \<Rightarrow> table_inputs ti)"
      using m unfolding b(3) by auto
    obtain ti where ti: "gget infos tn = Some ti" "(n, ifs) \<in> set (table_inputs ti)"
      using tn by (cases "gget infos tn") auto
    then show ?thesis using ok table_inputs_shown [OF ti(2)] unfolding infos_ok_def info_from_def by blast
  qed
  show ?thesis using obj inp by blast
qed

theorem types_are_granted_witness:
  "\<exists>rs. build_role demo_custom demo_catalog ''user'' demo_access = Inr rs \<and>
     (\<exists>ofs. (''notes'', ofs) \<in> set (rs_objects rs) \<and> fields_shown demo_catalog demo_access demo_table demo_op ofs)"
proof -
  obtain rs where rs: "build_role demo_custom demo_catalog ''user'' demo_access = Inr rs" using demo_built by blast
  have cat: "cat_order demo_catalog = [''notes'']" by (simp add: demo_catalog_def)
  have sel: "ta_select (ti_access demo_view) = Some demo_op" "ti_type_name demo_view = ''notes''"
    by (simp_all add: demo_view_def access_table_def demo_access_def demo_info_def)
  have "rs_objects rs = table_objects [(''notes'', demo_view)] demo_view"
    using rs demo_infos by (auto simp: build_role_def cat)
  then have m: "(''notes'', object_fields [(''notes'', demo_view)] demo_view demo_op) \<in> set (rs_objects rs)"
    by (simp add: table_objects_def sel)
  from types_are_granted [OF rs, THEN conjunct1, rule_format, OF m]
  have "fields_shown demo_catalog demo_access demo_table demo_op (object_fields [(''notes'', demo_view)] demo_view demo_op)"
    by (auto simp: cat demo_catalog_def access_table_def demo_access_def)
  then show ?thesis using rs m by blast
qed

end
