(* ===== verification/Schema_Valid.thy ===== *)
theory Schema_Valid
  imports Schema_Build
begin

text \<open>
  The schema of a role as the GraphQL library judges it: names of types are distinct and well formed, every
  type that is referred to exists, and no object or input type is empty but for two of the aggregates.
\<close>

section \<open>Shared types\<close>

definition page_info_fields :: out_fields where
  "page_info_fields = [source_field ''has_next_page'' (NonNull (Named ''Boolean'')), source_field ''end_cursor'' (Named ''String'')]"

definition mutation_response_fields :: out_fields where
  "mutation_response_fields = [source_field ''affected_rows'' (NonNull (Named ''Int''))]"

definition order_enum :: "(string \<times> gval) list" where
  "order_enum = [(''asc'', VStr ''ASC''), (''desc'', VStr ''DESC'')]"

definition vector_metric_enum :: "(string \<times> string) list" where
  "vector_metric_enum = [(''COSINE'', ''COSINE''), (''L2'', ''L2''), (''L1'', ''L1''), (''INNER_PRODUCT'', ''INNER_PRODUCT'')]"

text \<open>Every value of the two enums is one the resolvers accept.\<close>

lemma order_enum_accepted:
  "v \<in> snd ` set order_enum \<Longrightarrow> ti_field_to_col ti field = Some col \<Longrightarrow> readable ti col \<Longrightarrow>
     \<exists>dir. order_pair ti (field, v) = Inr [(col, dir)]"
  by (auto simp: order_enum_def order_pair_def)

lemma vector_metric_enum_accepted: "vector_metric_sql m \<noteq> None \<longleftrightarrow> m \<in> snd ` set vector_metric_enum"
  by (auto simp: vector_metric_enum_def vector_metric_sql_def)

section \<open>Access and views\<close>

lemma resolve_access:
  assumes "resolve rn (Some role) cat = Inr acc" "catalog_ok cat" "access_table acc tn = Some ta" "granted ta op = Some oa"
  shows "\<exists>t p. gget (cat_tables cat) tn = Some t \<and> op_from t p oa"
proof -
  from assms(1) have "entry_from rn role (cat_tables cat) (acc_tables acc)"
    by (auto simp: resolve_def entry_from_def split: option.splits dest!: resolve_tables_entry)
  with assms(3) obtain tp e t where t: "gget (cat_tables cat) tn = Some t" "resolve_table rn t tp e = Inr ta"
    unfolding access_table_def entry_from_def by blast
  have "\<forall>c\<in>set (tbl_columns t). has_column t (col_name c)"
    using assms(2) t(1) has_column_ok by (simp add: catalog_ok_def tables_ok_def)
  from resolve_op_from [OF resolve_table_granted [OF t(2) assms(4)] this] t(1) show ?thesis by blast
qed

text \<open>What the access of a role covers: columns of its tables, and of a table that it may select at least one.\<close>

definition access_fits :: "catalog \<Rightarrow> access \<Rightarrow> bool" where
  "access_fits cat acc \<longleftrightarrow>
     (\<forall>tn ta op oa. access_table acc tn = Some ta \<and> granted ta op = Some oa \<longrightarrow>
        (\<exists>t. gget (cat_tables cat) tn = Some t \<and> set (oa_columns oa) \<subseteq> set (tbl_columns t)) \<and> oa_columns oa \<noteq> [])"

lemma resolve_columns_nonempty:
  "resolve_columns role t op p explicit = Inr (Some cs) \<Longrightarrow> tbl_columns t \<noteq> [] \<Longrightarrow> cs \<noteq> []"
  by (auto simp: resolve_columns_def Let_def split: if_splits option.splits)

lemma resolve_fits:
  assumes "resolve rn (Some role) cat = Inr acc" "catalog_ok cat" "\<forall>tn t. gget (cat_tables cat) tn = Some t \<longrightarrow> tbl_columns t \<noteq> []"
  shows "access_fits cat acc"
  unfolding access_fits_def
proof (intro allI impI, elim conjE)
  fix tn ta op oa
  assume a: "access_table acc tn = Some ta" "granted ta op = Some oa"
  from assms(1) have "entry_from rn role (cat_tables cat) (acc_tables acc)"
    by (auto simp: resolve_def entry_from_def split: option.splits dest!: resolve_tables_entry)
  with a(1) obtain tp e t where t: "gget (cat_tables cat) tn = Some t" "resolve_table rn t tp e = Inr ta"
    unfolding access_table_def entry_from_def by blast
  obtain p where p: "resolve_columns rn t op p e = Inr (Some (oa_columns oa))"
    using resolve_table_granted [OF t(2) a(2)] by (auto simp: resolve_op_def split: option.splits if_splits)
  have "oa_columns oa \<noteq> []" using resolve_columns_nonempty [OF p] assms(3) t(1) by blast
  moreover obtain t' q where "gget (cat_tables cat) tn = Some t'" "op_from t' q oa"
    using resolve_access [OF assms(1,2) a] by blast
  ultimately show "(\<exists>t. gget (cat_tables cat) tn = Some t \<and> set (oa_columns oa) \<subseteq> set (tbl_columns t)) \<and> oa_columns oa \<noteq> []"
    by (auto simp: op_from_def)
qed

lemma add_infos_get:
  "add_infos cat acc infos tns = Inr infos' \<Longrightarrow>
     gget infos' tn =
       (case access_table acc tn of
          Some ta \<Rightarrow> if tn \<in> set tns then map_option (\<lambda>t. new_table_info tn t ta) (gget (cat_tables cat) tn) else gget infos tn
        | None \<Rightarrow> gget infos tn)"
proof (induction tns arbitrary: infos)
  case (Cons u tns)
  show ?case
  proof (cases "access_table acc u")
    case None
    with Cons show ?thesis by (auto split: option.splits)
  next
    case (Some ta)
    then obtain t where t: "gget (cat_tables cat) u = Some t"
      "add_infos cat acc (gput u (new_table_info u t ta) infos) tns = Inr infos'"
      using Cons.prems by (auto split: option.splits)
    from Cons.IH [OF t(2)] Some t(1) show ?thesis by (auto split: option.splits)
  qed
qed (simp split: option.splits)

section \<open>Names of types\<close>

definition table_types :: "table_infos \<Rightarrow> string \<Rightarrow> string list \<times> string list" where
  "table_types infos tn =
     (case gget infos tn of
        None \<Rightarrow> ([], [])
      | Some ti \<Rightarrow> (map fst (table_objects infos ti), map fst (table_inputs ti)))"

lemma info_type_name: "infos_ok cat acc infos \<Longrightarrow> gget infos tn = Some ti \<Longrightarrow> ti_type_name ti = graphql_name tn"
  unfolding infos_ok_def info_from_def by (metis new_info_simps(3))

lemma table_types_names:
  assumes "infos_ok cat acc infos"
  shows "distinct (fst (table_types infos tn) @ snd (table_types infos tn)) \<and>
    set (fst (table_types infos tn) @ snd (table_types infos tn)) \<subseteq> set (type_names tn)"
proof (cases "gget infos tn")
  case (Some ti)
  note n = info_type_name [OF assms Some]
  have o: "distinct (map fst (table_objects infos ti)) \<and> set (map fst (table_objects infos ti)) \<subseteq>
      {n @ s | n s. n = graphql_name tn \<and> s \<in> {'''', ''_connection'', ''_aggregate_result'', ''_sum_fields'', ''_avg_fields'',
         ''_min_fields'', ''_max_fields'', ''_neighbor''}}"
    by (auto simp: table_objects_def aggregate_types_def Let_def n split: option.splits)
  have i: "distinct (map fst (table_inputs ti)) \<and> set (map fst (table_inputs ti)) \<subseteq>
      {n @ s | n s. n = graphql_name tn \<and> s \<in> {''_bool_exp'', ''_order_by'', ''_insert_input'', ''_set_input''}}"
    by (auto simp: table_inputs_def n split: option.splits)
  have "set (map fst (table_objects infos ti)) \<inter> set (map fst (table_inputs ti)) = {}"
    using o i by fastforce
  then show ?thesis using o i by (auto simp: table_types_def Some type_names_def Let_def)
qed (simp add: table_types_def)

lemma distinct_two_concats:
  assumes "distinct (concat (map N xs))" "\<And>x. x \<in> set xs \<Longrightarrow> distinct (A x @ B x) \<and> set (A x @ B x) \<subseteq> set (N x)"
  shows "distinct (concat (map A xs) @ concat (map B xs)) \<and>
    set (concat (map A xs) @ concat (map B xs)) \<subseteq> set (concat (map N xs))"
  using assms
proof (induction xs)
  case (Cons x xs)
  have IH: "distinct (concat (map A xs) @ concat (map B xs))"
    "set (concat (map A xs) @ concat (map B xs)) \<subseteq> set (concat (map N xs))"
    using Cons by auto
  have x: "distinct (A x @ B x)" "set (A x @ B x) \<subseteq> set (N x)" using Cons.prems(2) [of x] by auto
  have "set (N x) \<inter> set (concat (map N xs)) = {}" using Cons.prems(1) by auto
  then have "set (A x @ B x) \<inter> set (concat (map A xs) @ concat (map B xs)) = {}" using IH(2) x(2) by blast
  then show ?case using IH x by auto
qed simp

section \<open>References to types\<close>

fun named :: "gtype \<Rightarrow> string" where
  "named (Named n) = n"
| "named (NonNull t) = named t"
| "named (ListOf t) = named t"

definition field_types :: "out_field \<Rightarrow> string set" where
  "field_types f = insert (named (f_type f)) (named ` snd ` set (f_args f))"

definition closed_fields :: "string set \<Rightarrow> out_fields \<Rightarrow> bool" where
  "closed_fields K fs \<longleftrightarrow> (\<forall>x f. gget fs x = Some f \<longrightarrow> field_types f \<subseteq> K)"

definition closed_inputs :: "string set \<Rightarrow> gtype gmap \<Rightarrow> bool" where
  "closed_inputs K fs \<longleftrightarrow> (\<forall>x t. gget fs x = Some t \<longrightarrow> named t \<in> K)"

definition known_types :: "table_infos \<Rightarrow> string list \<Rightarrow> string set" where
  "known_types infos tns =
     set (map fst builtin_types @ concat (map (\<lambda>tn. fst (table_types infos tn)) tns) @ concat (map (\<lambda>tn. snd (table_types infos tn)) tns))"

lemma builtin_known: "set (map fst builtin_types) \<subseteq> known_types infos tns"
  by (simp add: known_types_def)

lemma builtin_members:
  "{''order_by'', ''mutation_response'', ''page_info'', ''vector_metric'', ''String'', ''Int'', ''Float'', ''Boolean'', ''Decimal'', ''Vector''}
     \<subseteq> set (map fst builtin_types)"
  by code_simp

lemma scalar_builtin:
  "scalar_name s \<in> set (map fst builtin_types)" "scalar_name s @ ''_comparison_exp'' \<in> set (map fst builtin_types)"
  by (cases s; simp add: scalar_name_def builtin_types_def scalar_type_names_def)+

lemma known_builtin:
  "{''order_by'', ''mutation_response'', ''page_info'', ''vector_metric'', ''String'', ''Int'', ''Float'', ''Boolean'', ''Decimal'', ''Vector''}
     \<subseteq> known_types infos tns"
  using builtin_members builtin_known by (rule order_trans)

lemma known_scalar: "scalar_name s \<in> known_types infos tns" "scalar_name s @ ''_comparison_exp'' \<in> known_types infos tns"
  using scalar_builtin builtin_known by blast+

lemma table_known:
  "tn \<in> set tns \<Longrightarrow> set (fst (table_types infos tn)) \<union> set (snd (table_types infos tn)) \<subseteq> known_types infos tns"
  by (auto simp: known_types_def)

text \<open>The types of a table that can be selected, and the inputs of one that can be written.\<close>

lemma select_types_known:
  assumes "gget infos tn = Some ti" "ta_select (ti_access ti) \<noteq> None" "tn \<in> set tns"
  shows "{ti_type_name ti, ti_type_name ti @ ''_bool_exp'', ti_type_name ti @ ''_order_by'', ti_type_name ti @ ''_sum_fields'',
     ti_type_name ti @ ''_avg_fields'', ti_type_name ti @ ''_min_fields'', ti_type_name ti @ ''_max_fields'',
     ti_type_name ti @ ''_aggregate_result''} \<subseteq> known_types infos tns"
    and "vector_columns ti \<noteq> [] \<Longrightarrow> ti_type_name ti @ ''_neighbor'' \<in> known_types infos tns"
    and "pk_exposable ti \<Longrightarrow> ti_type_name ti @ ''_connection'' \<in> known_types infos tns"
proof -
  note k = table_known [OF assms(3), of infos]
  obtain sel where "ta_select (ti_access ti) = Some sel" using assms(2) by auto
  note t = table_types_def table_objects_def table_inputs_def aggregate_types_def assms(1) this Let_def
  show "{ti_type_name ti, ti_type_name ti @ ''_bool_exp'', ti_type_name ti @ ''_order_by'', ti_type_name ti @ ''_sum_fields'',
     ti_type_name ti @ ''_avg_fields'', ti_type_name ti @ ''_min_fields'', ti_type_name ti @ ''_max_fields'',
     ti_type_name ti @ ''_aggregate_result''} \<subseteq> known_types infos tns"
    using k by (auto simp: t)
  show "ti_type_name ti @ ''_neighbor'' \<in> known_types infos tns" if "vector_columns ti \<noteq> []"
    using k that by (auto simp: t)
  show "ti_type_name ti @ ''_connection'' \<in> known_types infos tns" if "pk_exposable ti"
    using k that by (auto simp: t)
qed

lemma input_types_known:
  assumes "gget infos tn = Some ti" "tn \<in> set tns"
  shows "Option.bind (ta_insert (ti_access ti)) (insert_input ti) \<noteq> None \<Longrightarrow>
      ti_type_name ti @ ''_insert_input'' \<in> known_types infos tns"
    and "ta_select (ti_access ti) \<noteq> None \<Longrightarrow> Option.bind (ta_update (ti_access ti)) (set_input ti) \<noteq> None \<Longrightarrow>
      ti_type_name ti @ ''_set_input'' \<in> known_types infos tns"
  using table_known [OF assms(2), of infos] by (auto simp: table_types_def table_inputs_def assms(1))

section \<open>Closed types\<close>

lemma closed_gput: "closed_fields K fs \<Longrightarrow> field_types f \<subseteq> K \<Longrightarrow> closed_fields K (gput x f fs)"
  by (auto simp: closed_fields_def)

lemma closed_foldl:
  "closed_fields K fs \<Longrightarrow> (\<And>c. c \<in> set cs \<Longrightarrow> field_types (v c) \<subseteq> K) \<Longrightarrow>
     closed_fields K (foldl (\<lambda>fs c. gput (k c) (v c) fs) fs cs)"
  by (induction cs arbitrary: fs) (auto intro: closed_gput)

lemma no_fields_closed: "closed_fields K []"
  by (simp add: closed_fields_def)

lemma closed_list: "(\<And>x f. (x, f) \<in> set fs \<Longrightarrow> field_types f \<subseteq> K) \<Longrightarrow> closed_fields K fs"
  unfolding closed_fields_def by (meson map_of_SomeD)

lemma closed_inputs_gput: "closed_inputs K fs \<Longrightarrow> named t \<in> K \<Longrightarrow> closed_inputs K (gput x t fs)"
  by (auto simp: closed_inputs_def)

lemma closed_inputs_foldl:
  "closed_inputs K fs \<Longrightarrow> (\<And>c. c \<in> set cs \<Longrightarrow> named (t c) \<in> K) \<Longrightarrow>
     closed_inputs K (foldl (\<lambda>fs c. gput (k c) (t c) fs) fs cs)"
  by (induction cs arbitrary: fs) (auto intro: closed_inputs_gput)

lemma foldl_gput_empty: "foldl (\<lambda>fs c. gput (k c) (v c) fs) m cs = [] \<longleftrightarrow> m = [] \<and> cs = []"
  by (induction cs arbitrary: m) (auto simp: update_nonempty)

definition filled :: "string set \<Rightarrow> out_fields option \<Rightarrow> bool" where
  "filled K ofs \<longleftrightarrow> (\<exists>fs. ofs = Some fs \<and> fs \<noteq> [] \<and> closed_fields K fs)"

lemma filled_foldl: "filled K ofs \<Longrightarrow> (\<And>ofs x. filled K ofs \<Longrightarrow> filled K (add ofs x)) \<Longrightarrow> filled K (foldl add ofs xs)"
  by (induction xs arbitrary: ofs) auto

lemma selectable_known:
  assumes "infos_ok cat acc infos" "selectable infos tn = Some ti"
  shows "{ti_type_name ti, ti_type_name ti @ ''_bool_exp'', ti_type_name ti @ ''_order_by''} \<subseteq> known_types infos (cat_order cat)"
proof -
  have i: "gget infos tn = Some ti" "ta_select (ti_access ti) \<noteq> None"
    using assms(2) by (auto simp: selectable_def split: option.splits if_splits)
  then have "tn \<in> set (cat_order cat)" using assms(1) unfolding infos_ok_def by blast
  from select_types_known(1) [OF i this] show ?thesis by blast
qed

lemma add_ref_filled:
  assumes "infos_ok cat acc infos" "filled (known_types infos (cat_order cat)) ofs"
  shows "filled (known_types infos (cat_order cat)) (add_ref infos sel ofs fk)"
proof -
  obtain fs where fs: "ofs = Some fs" "fs \<noteq> []" "closed_fields (known_types infos (cat_order cat)) fs"
    using assms(2) by (auto simp: filled_def)
  obtain name where "rel_field_name (map fst fs) (ref_candidate fk) fk = Some name"
    using rel_field_name_free by blast
  then show ?thesis
    using fs selectable_known [OF assms(1)]
    by (auto simp: add_ref_def filled_def field_types_def intro!: closed_gput split: option.splits)
qed

lemma add_children_filled:
  assumes "infos_ok cat acc infos" "filled (known_types infos (cat_order cat)) ofs"
  shows "filled (known_types infos (cat_order cat)) (add_children infos sel ofs fk)"
proof -
  obtain fs where fs: "ofs = Some fs" "fs \<noteq> []" "closed_fields (known_types infos (cat_order cat)) fs"
    using assms(2) by (auto simp: filled_def)
  obtain name where "rel_field_name (map fst fs) (graphql_name (fk_table fk)) fk = Some name"
    using rel_field_name_free by blast
  then show ?thesis
    using fs selectable_known [OF assms(1)] known_builtin
    by (auto simp: add_children_def filled_def field_types_def list_field_args_def intro!: closed_gput split: option.splits)
qed

lemma column_fields_closed:
  "(\<And>c. field_types (v c) \<subseteq> K) \<Longrightarrow> closed_fields K (foldl (\<lambda>fs c. gput (k c) (v c) fs) [] cs)"
  by (intro closed_foldl no_fields_closed)

lemma object_fields_filled:
  assumes "infos_ok cat acc infos" "oa_columns sel \<noteq> []"
  shows "filled (known_types infos (cat_order cat)) (object_fields infos ti sel)"
  unfolding object_fields_def
proof (intro filled_foldl add_children_filled [OF assms(1)] add_ref_filled [OF assms(1)])
  show "filled (known_types infos (cat_order cat))
      (Some (foldl (\<lambda>fs c. gput (field_of ti (col_name c)) (column_field c) fs) [] (oa_columns sel)))"
    using assms(2) column_fields_closed [of column_field] known_scalar(1)
    by (auto simp: filled_def foldl_gput_empty column_field_def field_types_def)
qed

section \<open>The types of a table\<close>

text \<open>The two aggregates that cover numbers only.\<close>

definition number_types :: "table_info \<Rightarrow> string set" where
  "number_types ti = {ti_type_name ti @ ''_sum_fields'', ti_type_name ti @ ''_avg_fields''}"

definition no_numbers :: "table_info \<Rightarrow> bool" where
  "no_numbers ti \<longleftrightarrow> (\<exists>sel. ta_select (ti_access ti) = Some sel \<and> filter is_numeric (oa_columns sel) = [])"

definition object_ok :: "string set \<Rightarrow> table_info \<Rightarrow> string \<times> out_fields option \<Rightarrow> bool" where
  "object_ok K ti ob \<longleftrightarrow>
     (\<exists>fs. snd ob = Some fs \<and> closed_fields K fs \<and> (fs = [] \<longleftrightarrow> fst ob \<in> number_types ti \<and> no_numbers ti))"

lemma column_types_closed:
  "closed_fields (known_types infos tns) (numeric_fields ti sel ''Decimal'')"
  "closed_fields (known_types infos tns) (numeric_fields ti sel ''Float'')"
  "closed_fields (known_types infos tns) (same_type_fields ti sel)"
  unfolding numeric_fields_def same_type_fields_def
  using known_builtin known_scalar(1) by (auto intro!: column_fields_closed simp: field_types_def)

lemma table_objects_ok:
  assumes "infos_ok cat acc infos" "gget infos tn = Some ti"
    and "\<And>sel. ta_select (ti_access ti) = Some sel \<Longrightarrow> oa_columns sel \<noteq> []"
  shows "list_all (object_ok (known_types infos (cat_order cat)) ti) (table_objects infos ti)"
proof (cases "ta_select (ti_access ti)")
  case (Some sel)
  let ?K = "known_types infos (cat_order cat)"
  have tn: "tn \<in> set (cat_order cat)" using assms(1,2) unfolding infos_ok_def by blast
  note k = select_types_known [OF assms(2) _ tn] known_builtin [of infos "cat_order cat"]
  have ob: "object_ok ?K ti (ti_type_name ti, object_fields infos ti sel)"
    using object_fields_filled [OF assms(1) assms(3) [OF Some], of ti] by (auto simp: object_ok_def filled_def number_types_def)
  have a: "list_all (object_ok ?K ti) (aggregate_types ti sel)"
    using column_types_closed [of infos "cat_order cat" ti sel] k Some assms(3) [OF Some]
    by (auto simp: aggregate_types_def Let_def object_ok_def number_types_def no_numbers_def numeric_fields_def same_type_fields_def
        foldl_gput_empty source_field_def field_types_def intro!: closed_list)
  have v: "object_ok ?K ti (ti_type_name ti @ ''_neighbor'', Some (neighbor_fields ti))"
    using k Some by (auto simp: object_ok_def number_types_def neighbor_fields_def source_field_def field_types_def intro!: closed_list)
  have c: "object_ok ?K ti (ti_type_name ti @ ''_connection'', Some (connection_fields ti))"
    using k Some by (auto simp: object_ok_def number_types_def connection_fields_def source_field_def field_types_def intro!: closed_list)
  show ?thesis using ob a v c by (simp add: table_objects_def Some)
qed (simp add: table_objects_def)

definition input_ok :: "string set \<Rightarrow> string \<times> gtype gmap \<Rightarrow> bool" where
  "input_ok K i \<longleftrightarrow> snd i \<noteq> [] \<and> closed_inputs K (snd i)"

lemma table_inputs_ok:
  assumes "infos_ok cat acc infos" "gget infos tn = Some ti"
    and "\<And>sel. ta_select (ti_access ti) = Some sel \<Longrightarrow> oa_columns sel \<noteq> []"
  shows "list_all (input_ok (known_types infos (cat_order cat))) (table_inputs ti)"
proof -
  let ?K = "known_types infos (cat_order cat)"
  have tn: "tn \<in> set (cat_order cat)" using assms(1,2) unfolding infos_ok_def by blast
  have sel: "input_ok ?K (ti_type_name ti @ ''_bool_exp'', bool_exp ti sel) \<and>
      input_ok ?K (ti_type_name ti @ ''_order_by'', order_by_type ti sel)" if "ta_select (ti_access ti) = Some sel" for sel
  proof -
    have "ti_type_name ti @ ''_bool_exp'' \<in> ?K" using select_types_known(1) [OF assms(2) _ tn] that by simp
    then have "closed_inputs ?K (bool_exp ti sel)"
      unfolding bool_exp_def Let_def using known_scalar(2)
      by (intro closed_inputs_foldl) (auto simp: closed_inputs_def)
    moreover have "closed_inputs ?K (order_by_type ti sel)"
      unfolding order_by_type_def using known_builtin by (intro closed_inputs_foldl) (auto simp: closed_inputs_def)
    ultimately show ?thesis
      using assms(3) [OF that] by (simp add: input_ok_def bool_exp_def order_by_type_def Let_def foldl_gput_empty)
  qed
  have ins: "input_ok ?K (n, fs)" if "insert_input ti oa = Some fs" for oa fs n
    using that known_scalar(1)
    by (auto simp: input_ok_def insert_input_def Let_def closed_inputs_def [of _ "[]"] intro!: closed_inputs_foldl split: if_splits)
  have set: "input_ok ?K (n, fs)" if "set_input ti oa = Some fs" for oa fs n
    using that known_scalar(1)
    by (auto simp: input_ok_def set_input_def Let_def closed_inputs_def [of _ "[]"] intro!: closed_inputs_foldl split: if_splits)
  show ?thesis
    using sel ins set by (auto simp: table_inputs_def split: option.splits) (auto simp: bind_eq_Some_conv split: if_splits)
qed

section \<open>The root fields\<close>

lemma gput_vals: "snd ` set (gput k v m) \<subseteq> insert v (snd ` set m)"
  by (induction m) auto

lemma gput_args_known: "named ` snd ` set m \<subseteq> K \<Longrightarrow> named t \<in> K \<Longrightarrow> named ` snd ` set (gput k t m) \<subseteq> K"
  by (induction m) auto

lemma foldl_gput_vals: "snd ` set (foldl (\<lambda>m (k, t). gput k t m) m kvs) \<subseteq> snd ` set m \<union> snd ` set kvs"
proof (induction kvs arbitrary: m)
  case (Cons kv kvs)
  obtain k t where kv: "kv = (k, t)" by (cases kv)
  have "snd ` set (foldl (\<lambda>m (k, t). gput k t m) (gput k t m) kvs) \<subseteq> snd ` set (gput k t m) \<union> snd ` set kvs"
    by (rule Cons.IH)
  also have "\<dots> \<subseteq> insert t (snd ` set m) \<union> snd ` set kvs" using gput_vals by (rule Un_mono) simp
  finally show ?case by (simp add: kv)
qed simp

lemma pk_args_known:
  assumes "pk_args ti = Inr args"
  shows "named ` snd ` set args \<subseteq> known_types infos tns"
proof -
  obtain kvs where kvs: "mapr (\<lambda>pk. case tbl_colmap (ti_table ti) pk of None \<Rightarrow> Inl (Go_Panic ''nil column'')
      | Some c \<Rightarrow> Inr (field_of ti pk, NonNull (scalar_type c))) (tbl_pk (ti_table ti)) = Inr kvs"
    "args = foldl (\<lambda>m (k, t). gput k t m) [] kvs"
    using assms by (auto simp: pk_args_def)
  have "\<exists>c. t = NonNull (scalar_type c)" if "(k, t) \<in> set kvs" for k t
    using mapr_in [OF kvs(1) that] by (auto split: option.splits)
  then have "named ` snd ` set kvs \<subseteq> known_types infos tns" using known_scalar(1) by fastforce
  then show ?thesis using foldl_gput_vals [of "[]" kvs] unfolding kvs(2) by fastforce
qed

lemma query_fields_closed:
  assumes "gget infos tn = Some ti" "tn \<in> set tns" "ta_select (ti_access ti) \<noteq> None"
    and "add_query_fields ti fs = Inr fs'" "closed_fields (known_types infos tns) fs"
  shows "closed_fields (known_types infos tns) fs'"
proof -
  note k = select_types_known [OF assms(1,3,2)] known_builtin [of infos tns]
  have agg: "field_types (aggregate_root ti) \<subseteq> known_types infos tns"
    using k by (simp add: aggregate_root_def field_types_def)
  have near: "field_types (nearest_root ti c) \<subseteq> known_types infos tns" if "c \<in> set (vector_columns ti)" for c
  proof -
    have "vector_columns ti \<noteq> []" using that by auto
    then show ?thesis using k by (simp add: nearest_root_def field_types_def)
  qed
  have conn: "field_types (connection_root ti) \<subseteq> known_types infos tns" if "pk_exposable ti"
    using k that by (simp add: connection_root_def field_types_def)
  have by_pk: "field_types \<lparr>f_type = Named (ti_type_name ti), f_args = args, f_resolve = r\<rparr> \<subseteq> known_types infos tns"
    if "pk_args ti = Inr args" for args r
    using k pk_args_known [OF that, of infos tns] by (simp add: field_types_def)
  let ?fs = "foldl (\<lambda>fs c. gput (ti_type_name ti @ ''_nearest_by_'' @ field_of ti (col_name c)) (nearest_root ti c) fs)
    (gput (ti_type_name ti @ ''_aggregate'') (aggregate_root ti) fs) (vector_columns ti)"
  have base: "closed_fields (known_types infos tns) ?fs"
    by (intro closed_foldl closed_gput assms(5) agg near)
  show ?thesis
  proof (cases "pk_exposable ti")
    case True
    then obtain args where "pk_args ti = Inr args" "fs' = gput (ti_type_name ti @ ''_connection'') (connection_root ti)
        (gput (ti_type_name ti @ ''_by_pk'') \<lparr>f_type = Named (ti_type_name ti), f_args = args,
           f_resolve = By_PK (tbl_name (ti_table ti))\<rparr> ?fs)"
      using assms(4) by (auto simp: add_query_fields_def Let_def)
    then show ?thesis using base conn [OF True] by_pk by (simp add: closed_gput)
  next
    case False
    then show ?thesis using assms(4) base by (simp add: add_query_fields_def Let_def)
  qed
qed

lemma insert_fields_closed:
  assumes "gget infos tn = Some ti" "tn \<in> set tns" "closed_fields (known_types infos tns) fs"
  shows "closed_fields (known_types infos tns) (add_insert_fields ti fs)"
proof -
  have "ti_type_name ti \<in> known_types infos tns" if "pk_exposable ti"
    using select_types_known(1) [OF assms(1) _ assms(2)] that by (auto simp: pk_exposable_def split: option.splits)
  then show ?thesis
    using assms(3) input_types_known(1) [OF assms(1,2)] known_builtin [of infos tns]
    by (auto simp: add_insert_fields_def Let_def mutation_response_def field_types_def intro!: closed_gput split: option.splits)
qed

lemma update_fields_cases:
  assumes "add_update_fields ti fs = Inr fs'"
  obtains (off) "fs' = fs"
  | (on) sel where "ta_select (ti_access ti) = Some sel" "Option.bind (ta_update (ti_access ti)) (set_input ti) \<noteq> None"
      "\<not> pk_exposable ti" "fs' = gput (''update_'' @ ti_type_name ti) \<lparr>f_type = mutation_response,
         f_args = [(''where'', NonNull (Named (ti_type_name ti @ ''_bool_exp''))), (''_set'', NonNull (Named (ti_type_name ti @ ''_set_input'')))],
         f_resolve = Update_Many (tbl_name (ti_table ti))\<rparr> fs"
  | (by_pk) sel args where "ta_select (ti_access ti) = Some sel" "Option.bind (ta_update (ti_access ti)) (set_input ti) \<noteq> None"
      "pk_exposable ti" "pk_args ti = Inr args"
      "fs' = gput (''update_'' @ ti_type_name ti @ ''_by_pk'') \<lparr>f_type = Named (ti_type_name ti),
           f_args = gput ''_set'' (NonNull (Named (ti_type_name ti @ ''_set_input''))) args, f_resolve = Update_One (tbl_name (ti_table ti))\<rparr>
         (gput (''update_'' @ ti_type_name ti) \<lparr>f_type = mutation_response,
           f_args = [(''where'', NonNull (Named (ti_type_name ti @ ''_bool_exp''))), (''_set'', NonNull (Named (ti_type_name ti @ ''_set_input'')))],
           f_resolve = Update_Many (tbl_name (ti_table ti))\<rparr> fs)"
proof (cases "ta_select (ti_access ti)")
  case None
  then show ?thesis using assms off by (simp add: add_update_fields_def Let_def)
next
  case (Some sel)
  show ?thesis
  proof (cases "Option.bind (ta_update (ti_access ti)) (set_input ti)")
    case None
    then show ?thesis using assms off Some by (simp add: add_update_fields_def Let_def)
  next
    case (Some x)
    with \<open>ta_select (ti_access ti) = Some sel\<close> show ?thesis
      using assms on by_pk by (cases "pk_exposable ti") (auto simp: add_update_fields_def Let_def)
  qed
qed

lemma update_fields_closed:
  assumes "gget infos tn = Some ti" "tn \<in> set tns" "add_update_fields ti fs = Inr fs'" "closed_fields (known_types infos tns) fs"
  shows "closed_fields (known_types infos tns) fs'"
proof -
  note k = select_types_known(1) [OF assms(1) _ assms(2)] input_types_known(2) [OF assms(1,2)] known_builtin [of infos tns]
  from assms(3) show ?thesis
  proof (cases rule: update_fields_cases)
    case (on sel)
    then show ?thesis using assms(4) k by (auto simp: field_types_def mutation_response_def intro!: closed_gput)
  next
    case (by_pk sel args)
    have "ti_type_name ti @ ''_set_input'' \<in> known_types infos tns"
      using input_types_known(2) [OF assms(1,2) _ by_pk(2)] by_pk(1) by simp
    then have "named ` snd ` set (gput ''_set'' (NonNull (Named (ti_type_name ti @ ''_set_input''))) args) \<subseteq> known_types infos tns"
      using pk_args_known [OF by_pk(4), of infos tns] by (simp add: gput_args_known)
    then show ?thesis
      unfolding by_pk(5) using assms(4) k by_pk(1,2) by (intro closed_gput) (simp_all add: field_types_def mutation_response_def)
  qed (use assms(4) in simp)
qed

lemma delete_fields_closed:
  assumes "gget infos tn = Some ti" "tn \<in> set tns" "add_delete_fields ti fs = Inr fs'" "closed_fields (known_types infos tns) fs"
  shows "closed_fields (known_types infos tns) fs'"
proof (cases "ta_delete (ti_access ti) = None \<or> ta_select (ti_access ti) = None")
  case True
  then show ?thesis using assms(3,4) by (auto simp: add_delete_fields_def Let_def)
next
  case False
  then have s: "ta_select (ti_access ti) \<noteq> None" by simp
  note k = select_types_known(1) [OF assms(1) s assms(2)] known_builtin [of infos tns]
  let ?fs = "gput (''delete_'' @ ti_type_name ti) \<lparr>f_type = mutation_response,
      f_args = [(''where'', NonNull (Named (ti_type_name ti @ ''_bool_exp'')))], f_resolve = Delete_Many (tbl_name (ti_table ti))\<rparr> fs"
  have base: "closed_fields (known_types infos tns) ?fs"
    using assms(4) k by (auto simp: field_types_def mutation_response_def intro!: closed_gput)
  show ?thesis
  proof (cases "pk_exposable ti")
    case True
    then obtain args where "pk_args ti = Inr args" "fs' = gput (''delete_'' @ ti_type_name ti @ ''_by_pk'')
        \<lparr>f_type = Named (ti_type_name ti), f_args = args, f_resolve = Delete_One (tbl_name (ti_table ti))\<rparr> ?fs"
      using assms(3) False by (auto simp: add_delete_fields_def Let_def)
    then show ?thesis using base k pk_args_known [of ti args infos tns] by (simp add: closed_gput field_types_def)
  next
    case pk: False
    then show ?thesis using assms(3) False base by (auto simp: add_delete_fields_def Let_def)
  qed
qed

lemma root_fields_closed:
  assumes "infos_ok cat acc infos"
  shows "root_fields infos (q, m) tns = Inr (q', m') \<Longrightarrow>
    closed_fields (known_types infos (cat_order cat)) q \<Longrightarrow> closed_fields (known_types infos (cat_order cat)) m \<Longrightarrow>
    closed_fields (known_types infos (cat_order cat)) q' \<and> closed_fields (known_types infos (cat_order cat)) m'"
proof (induction tns arbitrary: q m)
  case (Cons tn tns)
  show ?case
  proof (cases "gget infos tn")
    case None
    with Cons show ?thesis by simp
  next
    case (Some ti)
    have tn: "tn \<in> set (cat_order cat)" using assms Some unfolding infos_ok_def by blast
    obtain q1 m1 where 1: "(if ta_select (ti_access ti) = None then Inr q else add_query_fields ti q) = Inr q1"
      "add_mutation_fields ti m = Inr m1" "root_fields infos (q1, m1) tns = Inr (q', m')"
      using Cons.prems(1) Some by auto
    have "closed_fields (known_types infos (cat_order cat)) q1"
      using 1(1) query_fields_closed [OF Some tn _ _ Cons.prems(2)] Cons.prems(2) by (auto split: if_splits)
    moreover have "closed_fields (known_types infos (cat_order cat)) m1"
      using 1(2) insert_fields_closed [OF Some tn Cons.prems(3)] update_fields_closed [OF Some tn] delete_fields_closed [OF Some tn]
      unfolding add_mutation_fields_def rbind_Inr_iff by blast
    ultimately show ?thesis using Cons.IH [OF 1(3)] by blast
  qed
qed simp

section \<open>A role's schema is well formed\<close>

lemma check_names_unique: "check_name_collisions cat = Inr () \<Longrightarrow> names_unique cat"
  by (auto simp: check_name_collisions_def check_tables_iff claim_tables_iff names_unique_def builtin_types_distinct dom_gget)

lemma build_role_parts:
  assumes "build_role cfs cat role acc = Inr rs"
  obtains infos q m where "infos_ok cat acc infos" "add_infos cat acc [] (cat_order cat) = Inr infos"
    "root_fields infos (role_root, []) (cat_order cat) = Inr (q, m)"
    "add_custom_fields cfs role ''query'' q = Inr (rs_query rs)" "add_custom_fields cfs role ''mutation'' m = Inr (rs_mutation rs)"
    "rs_objects rs = concat (map (\<lambda>tn. case gget infos tn of None \<Rightarrow> [] | Some ti \<Rightarrow> table_objects infos ti) (cat_order cat))"
    "rs_inputs rs = concat (map (\<lambda>tn. case gget infos tn of None \<Rightarrow> [] | Some ti \<Rightarrow> table_inputs ti) (cat_order cat))"
proof -
  from assms obtain infos q m q' m' where b: "add_infos cat acc [] (cat_order cat) = Inr infos"
    "root_fields infos (role_root, []) (cat_order cat) = Inr (q, m)"
    "add_custom_fields cfs role ''query'' q = Inr q'" "add_custom_fields cfs role ''mutation'' m = Inr m'"
    "rs = \<lparr>rs_query = q', rs_mutation = m',
       rs_objects = concat (map (\<lambda>tn. case gget infos tn of None \<Rightarrow> [] | Some ti \<Rightarrow> table_objects infos ti) (cat_order cat)),
       rs_inputs = concat (map (\<lambda>tn. case gget infos tn of None \<Rightarrow> [] | Some ti \<Rightarrow> table_inputs ti) (cat_order cat))\<rparr>"
    by (auto simp: build_role_def)
  have "infos_ok cat acc infos"
    using add_infos_from [OF b(1), of "set (cat_order cat)"] by (simp add: infos_ok_def)
  then show ?thesis using b that by simp
qed

definition schema_types :: "role_schema \<Rightarrow> string list" where
  "schema_types rs = map fst builtin_types @ map fst (rs_objects rs) @ map fst (rs_inputs rs)"

text \<open>What GraphQL calls a name.\<close>

definition name_ok :: "string \<Rightarrow> bool" where
  "name_ok n \<longleftrightarrow> n \<noteq> [] \<and> list_all is_word n \<and> \<not> is_digit (hd n)"

lemma name_ok_append: "name_ok n \<Longrightarrow> list_all is_word s \<Longrightarrow> name_ok (n @ s)"
  by (simp add: name_ok_def)

lemma type_names_ok:
  assumes "n \<in> set (type_names tn)"
  shows "name_ok n"
proof -
  let ?L = "[''_bool_exp'', ''_order_by'', ''_insert_input'', ''_set_input'', ''_connection'',
      ''_aggregate_result'', ''_sum_fields'', ''_avg_fields'', ''_min_fields'', ''_max_fields'', ''_neighbor'']"
  have "list_all (list_all is_word) ?L" by code_simp
  then have words: "\<forall>s\<in>set ?L. list_all is_word s" by (simp only: list_all_iff [of "list_all is_word"])
  have g: "name_ok (graphql_name tn)" using graphql_name_valid [of tn] by (simp add: name_ok_def valid_name_def)
  have "n \<in> set (graphql_name tn # map (\<lambda>s. graphql_name tn @ s) ?L)"
    using assms by (simp only: type_names_def Let_def)
  then have "n = graphql_name tn \<or> (\<exists>s\<in>set ?L. n = graphql_name tn @ s)" by (simp only: set_map list.set(2) insert_iff image_iff)
  then show ?thesis using g words name_ok_append by blast
qed

lemma schema_types_concat:
  assumes "rs_objects rs = concat (map (\<lambda>tn. case gget infos tn of None \<Rightarrow> [] | Some ti \<Rightarrow> table_objects infos ti) tns)"
    and "rs_inputs rs = concat (map (\<lambda>tn. case gget infos tn of None \<Rightarrow> [] | Some ti \<Rightarrow> table_inputs ti) tns)"
  shows "map fst (rs_objects rs) @ map fst (rs_inputs rs) =
      concat (map (\<lambda>tn. fst (table_types infos tn)) tns) @ concat (map (\<lambda>tn. snd (table_types infos tn)) tns)"
proof -
  have "map fst (case gget infos tn of None \<Rightarrow> [] | Some ti \<Rightarrow> table_objects infos ti) = fst (table_types infos tn)"
    "map fst (case gget infos tn of None \<Rightarrow> [] | Some ti \<Rightarrow> table_inputs ti) = snd (table_types infos tn)" for tn
    by (simp_all add: table_types_def split: option.splits)
  then show ?thesis unfolding assms by (simp add: map_concat comp_def)
qed

lemma schema_types_known:
  assumes "rs_objects rs = concat (map (\<lambda>tn. case gget infos tn of None \<Rightarrow> [] | Some ti \<Rightarrow> table_objects infos ti) tns)"
    and "rs_inputs rs = concat (map (\<lambda>tn. case gget infos tn of None \<Rightarrow> [] | Some ti \<Rightarrow> table_inputs ti) tns)"
  shows "set (schema_types rs) = known_types infos tns"
  unfolding schema_types_def known_types_def schema_types_concat [OF assms] ..

text \<open>A sum or average type of a table of which the role may read no numeric column.\<close>

definition numberless :: "catalog \<Rightarrow> access \<Rightarrow> string \<Rightarrow> bool" where
  "numberless cat acc n \<longleftrightarrow>
     (\<exists>tn\<in>set (cat_order cat). \<exists>t ta. gget (cat_tables cat) tn = Some t \<and> access_table acc tn = Some ta \<and>
        no_numbers (new_table_info tn t ta) \<and> n \<in> number_types (new_table_info tn t ta))"

lemma distinct_concat_member: "distinct (concat (map f xs)) \<Longrightarrow> x \<in> set xs \<Longrightarrow> distinct (f x)"
  by (induction xs) auto

lemma distinct_concat_same:
  "distinct (concat (map f xs)) \<Longrightarrow> x \<in> set xs \<Longrightarrow> y \<in> set xs \<Longrightarrow> z \<in> set (f x) \<Longrightarrow> z \<in> set (f y) \<Longrightarrow> x = y"
  by (induction xs) auto

lemma numberless_iff:
  assumes "infos_ok cat acc infos" "add_infos cat acc [] (cat_order cat) = Inr infos"
    and "distinct (concat (map type_names (cat_order cat)))"
    and "gget infos tn = Some ti" "(n, ofs) \<in> set (table_objects infos ti)"
  shows "n \<in> number_types ti \<and> no_numbers ti \<longleftrightarrow> numberless cat acc n"
proof
  obtain ta t where t: "tn \<in> set (cat_order cat)" "access_table acc tn = Some ta" "gget (cat_tables cat) tn = Some t"
      "ti = new_table_info tn t ta"
    using assms(1,4) unfolding infos_ok_def info_from_def by blast
  show "numberless cat acc n" if "n \<in> number_types ti \<and> no_numbers ti"
    using that t unfolding numberless_def by blast
  show "n \<in> number_types ti \<and> no_numbers ti" if nl: "numberless cat acc n"
  proof -
    obtain tn' t' ta' where t': "tn' \<in> set (cat_order cat)" "gget (cat_tables cat) tn' = Some t'" "access_table acc tn' = Some ta'"
      "no_numbers (new_table_info tn' t' ta')" "n \<in> number_types (new_table_info tn' t' ta')"
      using nl unfolding numberless_def by blast
    have "n \<in> set (type_names tn')" using t'(5) by (auto simp: number_types_def type_names_def Let_def)
    moreover have "n \<in> set (type_names tn)"
    proof -
      have "n \<in> set (fst (table_types infos tn))" using assms(4,5) by (force simp: table_types_def)
      then show ?thesis using table_types_names [OF assms(1), of tn] by auto
    qed
    ultimately have "tn' = tn" using distinct_concat_same [OF assms(3)] t(1) t'(1) by blast
    then show ?thesis using t t' by simp
  qed
qed

lemma schema_names_ok:
  assumes "infos_ok cat acc infos" "check_name_collisions cat = Inr ()"
    and types: "rs_objects rs = concat (map (\<lambda>tn. case gget infos tn of None \<Rightarrow> [] | Some ti \<Rightarrow> table_objects infos ti) (cat_order cat))"
      "rs_inputs rs = concat (map (\<lambda>tn. case gget infos tn of None \<Rightarrow> [] | Some ti \<Rightarrow> table_inputs ti) (cat_order cat))"
  shows "distinct (concat (map type_names (cat_order cat)))" "distinct (schema_types rs)"
    and "list_all name_ok (map fst (rs_objects rs) @ map fst (rs_inputs rs))"
proof -
  have "distinct (map fst builtin_types @ concat (map type_names (cat_order cat)))"
    using check_names_unique [OF assms(2)] by (simp add: names_unique_def)
  then have d: "distinct (map fst builtin_types)" "distinct (concat (map type_names (cat_order cat)))"
    "set (map fst builtin_types) \<inter> set (concat (map type_names (cat_order cat))) = {}"
    by (simp_all only: distinct_append)
  then show "distinct (concat (map type_names (cat_order cat)))" by blast
  from distinct_two_concats [OF d(2), of "\<lambda>tn. fst (table_types infos tn)" "\<lambda>tn. snd (table_types infos tn)"] table_types_names [OF assms(1)]
  have t: "distinct (map fst (rs_objects rs) @ map fst (rs_inputs rs))"
    "set (map fst (rs_objects rs) @ map fst (rs_inputs rs)) \<subseteq> set (concat (map type_names (cat_order cat)))"
    unfolding schema_types_concat [OF types] by blast+
  then show "distinct (schema_types rs)" using d(1,3) unfolding schema_types_def distinct_append [of "map fst builtin_types"] by blast
  have "name_ok n" if "n \<in> set (map fst (rs_objects rs) @ map fst (rs_inputs rs))" for n
    using subsetD [OF t(2) that] type_names_ok unfolding set_concat set_map by blast
  then show "list_all name_ok (map fst (rs_objects rs) @ map fst (rs_inputs rs))" unfolding list_all_iff by blast
qed

lemma view_columns:
  assumes "infos_ok cat acc infos" "resolve role (Some rc) cat = Inr acc" "catalog_ok cat"
    and "\<forall>tn t. gget (cat_tables cat) tn = Some t \<longrightarrow> tbl_columns t \<noteq> []"
    and i: "gget infos tn = Some ti" and sel: "ta_select (ti_access ti) = Some sel"
  shows "oa_columns sel \<noteq> []"
proof -
  obtain ta t where t: "access_table acc tn = Some ta" "ti = new_table_info tn t ta"
    using assms(1) i unfolding infos_ok_def info_from_def by blast
  then have "granted ta ''select'' = Some sel" using sel by (simp add: granted_def)
  then show ?thesis using resolve_fits [OF assms(2,3,4)] t(1) unfolding access_fits_def by blast
qed

lemma in_table_parts:
  "x \<in> set (concat (map (\<lambda>tn. case gget infos tn of None \<Rightarrow> [] | Some ti \<Rightarrow> f ti) tns)) \<Longrightarrow>
     \<exists>tn ti. gget infos tn = Some ti \<and> x \<in> set (f ti)"
  by (auto split: option.splits simp: eq_commute [of "Some _" "gget infos _"])

lemma schema_root_known:
  assumes "infos_ok cat acc infos" "root_fields infos (role_root, []) (cat_order cat) = Inr (q, m)"
    and "add_custom_fields cfs role ''query'' q = Inr q'" "add_custom_fields cfs role ''mutation'' m = Inr m'"
    and "gget q' x = Some f \<or> gget m' x = Some f"
  shows "field_types f \<subseteq> known_types infos (cat_order cat) \<or> (\<exists>cf\<in>set cfs. cf_field cf = Some f \<and> cf_name cf = x)"
proof -
  have "closed_fields (known_types infos (cat_order cat)) role_root"
    using known_builtin [of infos "cat_order cat"] by (simp add: closed_fields_def role_root_def field_types_def)
  note c = root_fields_closed [OF assms(1,2) this no_fields_closed]
  from assms(5) mount_custom_in [OF assms(3) [unfolded add_custom_fields_def]] mount_custom_in [OF assms(4) [unfolded add_custom_fields_def]]
  have "gget q x = Some f \<or> gget m x = Some f \<or> (\<exists>cf\<in>set cfs. cf_field cf = Some f \<and> cf_name cf = x)"
    unfolding custom_fields_for_def by fastforce
  then show ?thesis using c unfolding closed_fields_def by blast
qed

text \<open>C32: Every role gets a schema that GraphQL accepts as far as names and references go, once the start-up
  check has passed: types have distinct names, every type that a field, an argument or an input
  refers to is one of the schema or built in, and every input type has a field. The object types all
  have fields, with one exception, which the GraphQL library refuses: the sum and average types of a
  table of which the role may read no numeric column.\<close>

theorem schema_well_formed:
  assumes "catalog_ok cat" "\<forall>tn t. gget (cat_tables cat) tn = Some t \<longrightarrow> tbl_columns t \<noteq> []" "check_name_collisions cat = Inr ()"
    and "resolve role (Some rc) cat = Inr acc" "build_role cfs cat role acc = Inr rs"
  shows "distinct (schema_types rs) \<and> list_all name_ok (map fst (rs_objects rs) @ map fst (rs_inputs rs)) \<and>
    (\<forall>(n, fs)\<in>set (rs_inputs rs). fs \<noteq> [] \<and> closed_inputs (set (schema_types rs)) fs) \<and>
    (\<forall>(n, ofs)\<in>set (rs_objects rs). \<exists>fs. ofs = Some fs \<and> closed_fields (set (schema_types rs)) fs \<and>
       (fs = [] \<longleftrightarrow> numberless cat acc n)) \<and>
    (\<forall>x f. gget (rs_query rs) x = Some f \<or> gget (rs_mutation rs) x = Some f \<longrightarrow>
       field_types f \<subseteq> set (schema_types rs) \<or> (\<exists>cf\<in>set cfs. cf_field cf = Some f \<and> cf_name cf = x))"
proof -
  obtain infos q m where ok: "infos_ok cat acc infos" and infos: "add_infos cat acc [] (cat_order cat) = Inr infos"
    and root: "root_fields infos (role_root, []) (cat_order cat) = Inr (q, m)"
    and cust: "add_custom_fields cfs role ''query'' q = Inr (rs_query rs)" "add_custom_fields cfs role ''mutation'' m = Inr (rs_mutation rs)"
    and types: "rs_objects rs = concat (map (\<lambda>tn. case gget infos tn of None \<Rightarrow> [] | Some ti \<Rightarrow> table_objects infos ti) (cat_order cat))"
      "rs_inputs rs = concat (map (\<lambda>tn. case gget infos tn of None \<Rightarrow> [] | Some ti \<Rightarrow> table_inputs ti) (cat_order cat))"
    using build_role_parts [OF assms(5)] by blast
  note K = schema_types_known [OF types] and names = schema_names_ok [OF ok assms(3) types]
    and cols = view_columns [OF ok assms(4,1,2)]
  have "fs \<noteq> [] \<and> closed_inputs (set (schema_types rs)) fs" if nf: "(n, fs) \<in> set (rs_inputs rs)" for n fs
  proof -
    obtain tn ti where ti: "gget infos tn = Some ti" "(n, fs) \<in> set (table_inputs ti)"
      using in_table_parts [OF nf [unfolded types]] by blast
    then show ?thesis
      using table_inputs_ok [OF ok ti(1) cols [OF ti(1)]] unfolding K by (auto simp: list_all_iff input_ok_def)
  qed
  moreover have "\<exists>fs. ofs = Some fs \<and> closed_fields (set (schema_types rs)) fs \<and> (fs = [] \<longleftrightarrow> numberless cat acc n)"
    if no: "(n, ofs) \<in> set (rs_objects rs)" for n ofs
  proof -
    obtain tn ti where ti: "gget infos tn = Some ti" "(n, ofs) \<in> set (table_objects infos ti)"
      using in_table_parts [OF no [unfolded types]] by blast
    from table_objects_ok [OF ok ti(1) cols [OF ti(1)]] ti(2) obtain fs where "ofs = Some fs" "closed_fields (set (schema_types rs)) fs"
        "fs = [] \<longleftrightarrow> n \<in> number_types ti \<and> no_numbers ti"
      unfolding K list_all_iff object_ok_def by fastforce
    then show ?thesis using numberless_iff [OF ok infos names(1) ti] by blast
  qed
  ultimately show ?thesis using names(2,3) schema_root_known [OF ok root cust] unfolding K by blast
qed

lemma demo_collision_free: "check_name_collisions demo_catalog = Inr ()"
  by code_simp

lemma demo_columns_nonempty: "\<forall>tn t. gget (cat_tables demo_catalog) tn = Some t \<longrightarrow> tbl_columns t \<noteq> []"
  by (simp add: demo_catalog_def demo_table_def demo_columns_def)

theorem schema_well_formed_witness:
  "\<exists>rs. build_role demo_custom demo_catalog ''user'' demo_access = Inr rs \<and> distinct (schema_types rs) \<and>
     (\<forall>(n, ofs)\<in>set (rs_objects rs). ofs \<noteq> Some [])"
proof -
  obtain rs where rs: "build_role demo_custom demo_catalog ''user'' demo_access = Inr rs" using demo_built by blast
  have "\<not> numberless demo_catalog demo_access n" for n
    by (simp add: numberless_def demo_catalog_def access_table_def demo_access_def no_numbers_def demo_op_def is_numeric_def demo_col_def)
  with schema_well_formed [OF demo_catalog_ok demo_columns_nonempty demo_collision_free demo_resolve rs] rs
  show ?thesis by fastforce
qed

text \<open>A role that may read no numeric column of some table cannot be served by a library that refuses empty object types.\<close>

lemma numberless_refused:
  assumes "resolve role rc cat = Inr acc" "build_role cfs cat role acc = Inr rs"
    and "tn \<in> set (cat_order cat)" "access_table acc tn = Some ta" "gget (cat_tables cat) tn = Some t" "no_numbers (new_table_info tn t ta)"
    and "\<And>rs n. (n, Some []) \<in> set (rs_objects rs) \<Longrightarrow> \<exists>e. new_schema rs = Inl e"
  shows "\<exists>e. build_roles new_schema cfs cat out ((role, rc) # roles) = Inl e"
proof -
  obtain infos q m where infos: "add_infos cat acc [] (cat_order cat) = Inr infos"
    and types: "rs_objects rs = concat (map (\<lambda>tn. case gget infos tn of None \<Rightarrow> [] | Some ti \<Rightarrow> table_objects infos ti) (cat_order cat))"
    using build_role_parts [OF assms(2)] by blast
  let ?ti = "new_table_info tn t ta"
  have "gget infos tn = Some ?ti" using add_infos_get [OF infos, of tn] assms(3-5) by simp
  moreover have "(ti_type_name ?ti @ ''_sum_fields'', Some []) \<in> set (table_objects infos ?ti)"
    using assms(6) by (auto simp: no_numbers_def table_objects_def aggregate_types_def Let_def numeric_fields_def)
  ultimately have "(ti_type_name ?ti @ ''_sum_fields'', Some []) \<in> set (rs_objects rs)"
    using assms(3) unfolding types by (force simp del: new_info_simps)
  with assms(7) obtain e where "new_schema rs = Inl e" by blast
  then show ?thesis using assms(1,2) by simp
qed

end
