(* ===== verification/Schema_Offered.thy ===== *)
theory Schema_Offered
  imports Schema_Valid
begin

text \<open>
  The converse of \<open>root_fields_are_granted\<close>: every operation a role holds is offered as a root field under its
  own name. The start-up check keeps the names of tables apart, so no field overwrites another.
\<close>

section \<open>What is granted is offered\<close>

lemma field_of_column: "c \<in> set (tbl_columns t) \<Longrightarrow> field_of (new_table_info tn t ta) (col_name c) = graphql_name (col_name c)"
proof -
  assume c: "c \<in> set (tbl_columns t)"
  let ?m = "rev (map (\<lambda>c. (col_name c, graphql_name (col_name c))) (tbl_columns t))"
  have "map_of ?m (col_name c) \<noteq> None" using c by (auto simp: map_of_eq_None_iff image_image)
  then obtain f where f: "map_of ?m (col_name c) = Some f" by auto
  have "f = graphql_name (col_name c)" using map_of_SomeD [OF f] by auto
  with f show ?thesis by (simp add: field_of_def new_table_info_def)
qed

lemma gget_foldl_other: "x \<notin> k ` set cs \<Longrightarrow> gget (foldl (\<lambda>fs c. gput (k c) (v c) fs) m cs) x = gget m x"
  by (induction cs arbitrary: m) auto

lemma gget_foldl_own: "c \<in> set cs \<Longrightarrow> distinct (map k cs) \<Longrightarrow> gget (foldl (\<lambda>fs c. gput (k c) (v c) fs) m cs) (k c) = Some (v c)"
proof (induction cs arbitrary: m)
  case (Cons d cs)
  show ?case
  proof (cases "c = d")
    case True
    then have "k c \<notin> k ` set cs" using Cons.prems(2) by auto
    with gget_foldl_other [OF this, of v "gput (k c) (v c) m"] True show ?thesis by simp
  qed (use Cons in simp)
qed simp

lemma mount_custom_keeps: "mount_custom role op fs cfs = Inr fs' \<Longrightarrow> gget fs x = Some f \<Longrightarrow> gget fs' x = Some f"
proof (induction cfs arbitrary: fs)
  case (Cons cf cfs)
  then obtain g where g: "gget fs (cf_name cf) = None" "mount_custom role op (gput (cf_name cf) g fs) cfs = Inr fs'"
    by (auto split: option.splits if_splits)
  then have "gget (gput (cf_name cf) g fs) x = Some f" using Cons.prems(2) by auto
  with Cons.IH g(2) show ?case by blast
qed simp

section \<open>Each table owns its names\<close>

text \<open>A view whose columns are those of its table.\<close>

definition view_ok :: "catalog \<Rightarrow> string \<Rightarrow> table_info \<Rightarrow> bool" where
  "view_ok cat tn ti \<longleftrightarrow>
     ti_type_name ti = graphql_name tn \<and>
     (\<forall>c\<in>set (vector_columns ti). c \<in> set (cat_columns cat tn) \<and> col_data_type c = ''vector'' \<and>
        field_of ti (col_name c) = graphql_name (col_name c)) \<and> distinct (vector_columns ti)"

lemma query_own:
  assumes v: "view_ok cat tn ti" and d: "distinct (query_names cat tn)" "distinct (map (\<lambda>c. graphql_name (col_name c)) (cat_columns cat tn))"
    and q: "add_query_fields ti fs = Inr fs'"
  shows "x \<notin> set (query_names cat tn) \<Longrightarrow> gget fs' x = gget fs x"
    and "gget fs' (graphql_name tn @ ''_aggregate'') = Some (aggregate_root ti)"
    and "c \<in> set (vector_columns ti) \<Longrightarrow> gget fs' (graphql_name tn @ ''_nearest_by_'' @ graphql_name (col_name c)) = Some (nearest_root ti c)"
    and "pk_exposable ti \<Longrightarrow> gget fs' (graphql_name tn @ ''_connection'') = Some (connection_root ti) \<and>
      map_option f_resolve (gget fs' (graphql_name tn @ ''_by_pk'')) = Some (By_PK (tbl_name (ti_table ti)))"
proof -
  let ?n = "graphql_name tn" and ?near = "\<lambda>c. graphql_name tn @ ''_nearest_by_'' @ field_of ti (col_name c)"
  let ?fs = "foldl (\<lambda>fs c. gput (?near c) (nearest_root ti c) fs) (gput (?n @ ''_aggregate'') (aggregate_root ti) fs) (vector_columns ti)"
  have n: "ti_type_name ti = ?n" and near: "\<And>c. c \<in> set (vector_columns ti) \<Longrightarrow> c \<in> set (cat_columns cat tn) \<and>
      col_data_type c = ''vector'' \<and> field_of ti (col_name c) = graphql_name (col_name c)"
    using v by (auto simp: view_ok_def)
  have names: "?near c \<in> set (query_names cat tn)" if "c \<in> set (vector_columns ti)" for c
    using near [OF that] by (auto simp: query_names_def Let_def)
  have dist: "distinct (map ?near (vector_columns ti))"
  proof -
    have "inj_on (\<lambda>c. graphql_name (col_name c)) (set (cat_columns cat tn))" using d(2) by (simp add: distinct_map)
    moreover have "graphql_name (col_name a) = graphql_name (col_name b)"
      if "a \<in> set (vector_columns ti)" "b \<in> set (vector_columns ti)" "?near a = ?near b" for a b
      using that(3) near [OF that(1)] near [OF that(2)] by simp
    ultimately have "inj_on ?near (set (vector_columns ti))"
      unfolding inj_on_def using near by blast
    then show ?thesis using v by (simp add: view_ok_def distinct_map)
  qed
  define base where "base = ?fs"
  have fs': "(\<not> pk_exposable ti \<and> fs' = base) \<or> (pk_exposable ti \<and> (\<exists>args.
      fs' = gput (?n @ ''_connection'') (connection_root ti)
        (gput (?n @ ''_by_pk'') \<lparr>f_type = Named ?n, f_args = args, f_resolve = By_PK (tbl_name (ti_table ti))\<rparr> base)))"
    using q by (auto simp: add_query_fields_def Let_def n base_def split: if_splits)
  show "gget fs' x = gget fs x" if x: "x \<notin> set (query_names cat tn)"
  proof -
    have k: "x \<noteq> ?n @ ''_aggregate''" "x \<noteq> ?n @ ''_by_pk''" "x \<noteq> ?n @ ''_connection''"
      using x by (auto simp: query_names_def Let_def)
    have "x \<notin> ?near ` set (vector_columns ti)" using x names by blast
    then have "gget base x = gget fs x" unfolding base_def using k(1) by (subst gget_foldl_other) simp_all
    then show ?thesis using fs' k(2,3) by auto
  qed
  have "?n @ ''_aggregate'' \<notin> ?near ` set (vector_columns ti)" by auto
  then have "gget base (?n @ ''_aggregate'') = Some (aggregate_root ti)" unfolding base_def by (subst gget_foldl_other) simp_all
  then show "gget fs' (?n @ ''_aggregate'') = Some (aggregate_root ti)" using fs' by auto
  show "gget fs' (?n @ ''_nearest_by_'' @ graphql_name (col_name c)) = Some (nearest_root ti c)" if c: "c \<in> set (vector_columns ti)"
  proof -
    have "gget base (?near c) = Some (nearest_root ti c)" unfolding base_def by (rule gget_foldl_own [OF c dist])
    then show ?thesis using fs' near [OF c] by auto
  qed
  show "pk_exposable ti \<Longrightarrow> gget fs' (?n @ ''_connection'') = Some (connection_root ti) \<and>
      map_option f_resolve (gget fs' (?n @ ''_by_pk'')) = Some (By_PK (tbl_name (ti_table ti)))"
    using fs' by auto
qed

lemma mutation_names_distinct: "distinct (mutation_names tn)"
  by (auto simp: mutation_names_def Let_def)

lemma insert_own:
  assumes "ti_type_name ti = graphql_name tn"
  shows "x \<notin> {''insert_'' @ graphql_name tn, ''insert_'' @ graphql_name tn @ ''_one''} \<Longrightarrow> gget (add_insert_fields ti fs) x = gget fs x"
    and "Option.bind (ta_insert (ti_access ti)) (insert_input ti) \<noteq> None \<Longrightarrow>
      map_option f_resolve (gget (add_insert_fields ti fs) (''insert_'' @ graphql_name tn)) = Some (Insert_Many (tbl_name (ti_table ti))) \<and>
      (pk_exposable ti \<longrightarrow> map_option f_resolve (gget (add_insert_fields ti fs) (''insert_'' @ graphql_name tn @ ''_one'')) =
         Some (Insert_One (tbl_name (ti_table ti))))"
  using assms by (auto simp: add_insert_fields_def Let_def split: option.splits)

lemma update_own:
  assumes "ti_type_name ti = graphql_name tn" "add_update_fields ti fs = Inr fs'"
  shows "x \<notin> {''update_'' @ graphql_name tn, ''update_'' @ graphql_name tn @ ''_by_pk''} \<Longrightarrow> gget fs' x = gget fs x"
    and "ta_select (ti_access ti) \<noteq> None \<Longrightarrow> Option.bind (ta_update (ti_access ti)) (set_input ti) \<noteq> None \<Longrightarrow>
      map_option f_resolve (gget fs' (''update_'' @ graphql_name tn)) = Some (Update_Many (tbl_name (ti_table ti))) \<and>
      (pk_exposable ti \<longrightarrow> map_option f_resolve (gget fs' (''update_'' @ graphql_name tn @ ''_by_pk'')) =
         Some (Update_One (tbl_name (ti_table ti))))"
proof -
  show "gget fs' x = gget fs x" if x: "x \<notin> {''update_'' @ graphql_name tn, ''update_'' @ graphql_name tn @ ''_by_pk''}"
    using assms(2) x by (cases rule: update_fields_cases) (simp_all add: assms(1))
  assume "ta_select (ti_access ti) \<noteq> None" "Option.bind (ta_update (ti_access ti)) (set_input ti) \<noteq> None"
  then obtain sel y where s: "ta_select (ti_access ti) = Some sel" "Option.bind (ta_update (ti_access ti)) (set_input ti) = Some y" by auto
  show "map_option f_resolve (gget fs' (''update_'' @ graphql_name tn)) = Some (Update_Many (tbl_name (ti_table ti))) \<and>
      (pk_exposable ti \<longrightarrow> map_option f_resolve (gget fs' (''update_'' @ graphql_name tn @ ''_by_pk'')) =
         Some (Update_One (tbl_name (ti_table ti))))"
    using assms(2) s by (auto simp: add_update_fields_def Let_def assms(1) split: if_splits)
qed

lemma delete_own:
  assumes "ti_type_name ti = graphql_name tn" "add_delete_fields ti fs = Inr fs'"
  shows "x \<notin> {''delete_'' @ graphql_name tn, ''delete_'' @ graphql_name tn @ ''_by_pk''} \<Longrightarrow> gget fs' x = gget fs x"
    and "ta_select (ti_access ti) \<noteq> None \<Longrightarrow> ta_delete (ti_access ti) \<noteq> None \<Longrightarrow>
      map_option f_resolve (gget fs' (''delete_'' @ graphql_name tn)) = Some (Delete_Many (tbl_name (ti_table ti))) \<and>
      (pk_exposable ti \<longrightarrow> map_option f_resolve (gget fs' (''delete_'' @ graphql_name tn @ ''_by_pk'')) =
         Some (Delete_One (tbl_name (ti_table ti))))"
  using assms(2) by (auto simp: add_delete_fields_def Let_def assms(1) split: if_splits)

text \<open>What the mutation fields of a table are, wherever the names of other tables do not reach.\<close>

definition mutations_offered :: "table_info \<Rightarrow> string \<Rightarrow> out_fields \<Rightarrow> bool" where
  "mutations_offered ti n fs \<longleftrightarrow>
     (Option.bind (ta_insert (ti_access ti)) (insert_input ti) \<noteq> None \<longrightarrow>
        map_option f_resolve (gget fs (''insert_'' @ n)) = Some (Insert_Many (tbl_name (ti_table ti))) \<and>
        (pk_exposable ti \<longrightarrow> map_option f_resolve (gget fs (''insert_'' @ n @ ''_one'')) = Some (Insert_One (tbl_name (ti_table ti))))) \<and>
     (ta_select (ti_access ti) \<noteq> None \<and> Option.bind (ta_update (ti_access ti)) (set_input ti) \<noteq> None \<longrightarrow>
        map_option f_resolve (gget fs (''update_'' @ n)) = Some (Update_Many (tbl_name (ti_table ti))) \<and>
        (pk_exposable ti \<longrightarrow> map_option f_resolve (gget fs (''update_'' @ n @ ''_by_pk'')) = Some (Update_One (tbl_name (ti_table ti))))) \<and>
     (ta_select (ti_access ti) \<noteq> None \<and> ta_delete (ti_access ti) \<noteq> None \<longrightarrow>
        map_option f_resolve (gget fs (''delete_'' @ n)) = Some (Delete_Many (tbl_name (ti_table ti))) \<and>
        (pk_exposable ti \<longrightarrow> map_option f_resolve (gget fs (''delete_'' @ n @ ''_by_pk'')) = Some (Delete_One (tbl_name (ti_table ti)))))"

lemma mutation_own:
  assumes n: "ti_type_name ti = graphql_name tn" and m: "add_mutation_fields ti fs = Inr fs'"
  shows "x \<notin> set (mutation_names tn) \<Longrightarrow> gget fs' x = gget fs x" and "mutations_offered ti (graphql_name tn) fs'"
proof -
  obtain f2 where f2: "add_update_fields ti (add_insert_fields ti fs) = Inr f2" "add_delete_fields ti f2 = Inr fs'"
    using m by (auto simp: add_mutation_fields_def)
  note own = insert_own [OF n] update_own [OF n f2(1)] delete_own [OF n f2(2)]
  show "gget fs' x = gget fs x" if x: "x \<notin> set (mutation_names tn)"
    using x own(1,3,5) [of x] by (simp add: mutation_names_def Let_def)
  have i: "gget fs' x = gget (add_insert_fields ti fs) x" if "x \<in> {''insert_'' @ graphql_name tn, ''insert_'' @ graphql_name tn @ ''_one''}" for x
    using own(3,5) [of x] that by auto
  have u: "gget fs' x = gget f2 x" if "x \<in> {''update_'' @ graphql_name tn, ''update_'' @ graphql_name tn @ ''_by_pk''}" for x
    using own(5) [of x] that by auto
  show "mutations_offered ti (graphql_name tn) fs'"
    unfolding mutations_offered_def using own(2) own(4) own(6) i u by simp
qed

text \<open>The fields of one table, as its own step left them.\<close>

definition owned :: "catalog \<Rightarrow> string \<Rightarrow> table_info \<Rightarrow> out_fields \<Rightarrow> out_fields \<Rightarrow> bool" where
  "owned cat tn ti q m \<longleftrightarrow>
     (ta_select (ti_access ti) \<noteq> None \<longrightarrow>
        (\<exists>q1 q2. add_query_fields ti q1 = Inr q2 \<and> (\<forall>x\<in>set (query_names cat tn). gget q x = gget q2 x))) \<and>
     (\<exists>m1 m2. add_mutation_fields ti m1 = Inr m2 \<and> (\<forall>x\<in>set (mutation_names tn). gget m x = gget m2 x))"

lemma table_step_own:
  assumes v: "view_ok cat tn ti"
    and d: "distinct (query_names cat tn)" "distinct (map (\<lambda>c. graphql_name (col_name c)) (cat_columns cat tn))"
    and st: "(if ta_select (ti_access ti) = None then Inr q else add_query_fields ti q) = Inr q1" "add_mutation_fields ti m = Inr m1"
  shows "x \<notin> set (query_names cat tn) \<Longrightarrow> gget q1 x = gget q x" and "x \<notin> set (mutation_names tn) \<Longrightarrow> gget m1 x = gget m x"
    and "(\<And>x. x \<in> set (query_names cat tn) \<Longrightarrow> gget q' x = gget q1 x) \<Longrightarrow>
      (\<And>x. x \<in> set (mutation_names tn) \<Longrightarrow> gget m' x = gget m1 x) \<Longrightarrow> owned cat tn ti q' m'"
proof -
  show "gget q1 x = gget q x" if x: "x \<notin> set (query_names cat tn)"
    using st(1) query_own(1) [OF v d _ x] by (cases "ta_select (ti_access ti)") simp_all
  show "gget m1 x = gget m x" if "x \<notin> set (mutation_names tn)"
    using mutation_own(1) [OF _ st(2)] v that by (simp add: view_ok_def)
  show "owned cat tn ti q' m'" if "\<And>x. x \<in> set (query_names cat tn) \<Longrightarrow> gget q' x = gget q1 x"
    "\<And>x. x \<in> set (mutation_names tn) \<Longrightarrow> gget m' x = gget m1 x"
    unfolding owned_def using st that by (intro conjI impI exI [of _ q1] exI [of _ m1] exI [of _ q] exI [of _ m]) simp_all
qed

lemma root_own:
  assumes views: "\<And>tn ti. gget infos tn = Some ti \<Longrightarrow> view_ok cat tn ti"
  shows "root_fields infos (q, m) tns = Inr (q', m') \<Longrightarrow> distinct (concat (map (query_names cat) tns)) \<Longrightarrow>
    distinct (concat (map mutation_names tns)) \<Longrightarrow>
    \<forall>tn\<in>set tns. distinct (map (\<lambda>c. graphql_name (col_name c)) (cat_columns cat tn)) \<Longrightarrow>
    (\<forall>x. x \<notin> set (concat (map (query_names cat) tns)) \<longrightarrow> gget q' x = gget q x) \<and>
    (\<forall>x. x \<notin> set (concat (map mutation_names tns)) \<longrightarrow> gget m' x = gget m x) \<and>
    (\<forall>tn\<in>set tns. \<forall>ti. gget infos tn = Some ti \<longrightarrow> owned cat tn ti q' m')"
proof (induction tns arbitrary: q m)
  case (Cons tn tns)
  show ?case
  proof (cases "gget infos tn")
    case None
    then have "root_fields infos (q, m) tns = Inr (q', m')" using Cons.prems(1) by simp
    from Cons.IH [OF this] Cons.prems(2-4) None show ?thesis by auto
  next
    case (Some ti)
    obtain q1 m1 where 1: "(if ta_select (ti_access ti) = None then Inr q else add_query_fields ti q) = Inr q1"
      "add_mutation_fields ti m = Inr m1" "root_fields infos (q1, m1) tns = Inr (q', m')"
      using Cons.prems(1) Some by auto
    have d: "distinct (query_names cat tn)" "distinct (map (\<lambda>c. graphql_name (col_name c)) (cat_columns cat tn))"
      "set (query_names cat tn) \<inter> set (concat (map (query_names cat) tns)) = {}"
      "set (mutation_names tn) \<inter> set (concat (map mutation_names tns)) = {}"
      using Cons.prems(2-4) by auto
    have IH: "\<And>x. x \<notin> set (concat (map (query_names cat) tns)) \<Longrightarrow> gget q' x = gget q1 x"
      "\<And>x. x \<notin> set (concat (map mutation_names tns)) \<Longrightarrow> gget m' x = gget m1 x"
      "\<And>u ti. u \<in> set tns \<Longrightarrow> gget infos u = Some ti \<Longrightarrow> owned cat u ti q' m'"
      using Cons.IH [OF 1(3)] Cons.prems(2-4) by auto
    note step = table_step_own [OF views [OF Some] d(1,2) 1(1,2)]
    have "owned cat tn ti q' m'" using IH(1,2) d(3,4) by (intro step(3)) blast+
    then show ?thesis using step(1,2) IH Some by auto
  qed
qed simp

lemma views_ok:
  assumes "catalog_ok cat" "resolve role (Some rc) cat = Inr acc" "infos_ok cat acc infos" "gget infos tn = Some ti"
  shows "view_ok cat tn ti"
proof -
  obtain ta t where t: "access_table acc tn = Some ta" "gget (cat_tables cat) tn = Some t" "ti = new_table_info tn t ta"
    using assms(3,4) unfolding infos_ok_def info_from_def by blast
  have "distinct (vector_columns ti) \<and> set (vector_columns ti) \<subseteq> set (tbl_columns t) \<and>
      (\<forall>c\<in>set (vector_columns ti). col_data_type c = ''vector'')"
  proof (cases "ta_select ta")
    case (Some oa)
    then have "granted ta ''select'' = Some oa" by (simp add: granted_def)
    from resolve_access [OF assms(2,1) t(1) this] obtain p where "op_from t p oa" using t(2) by auto
    then have oa: "oa_columns oa = filter (\<lambda>c. op_columns p = [] \<or> col_name c \<in> set (op_columns p) \<and> has_column t (col_name c)) (tbl_columns t)"
      by (simp add: op_from_def)
    have "table_ok t" using assms(1) t(2) by (simp add: catalog_ok_def tables_ok_def)
    then have "distinct (tbl_columns t)" by (simp add: table_ok_def distinct_map)
    then show ?thesis unfolding vector_columns_def t(3) new_info_simps Some by (auto simp: oa)
  qed (simp add: vector_columns_def t(3))
  moreover have "cat_columns cat tn = tbl_columns t" by (simp add: cat_columns_def t(2))
  ultimately show ?thesis using field_of_column [of _ t tn ta] t(3) by (auto simp: view_ok_def)
qed

lemma offered_mono:
  assumes "mutations_offered ti (graphql_name tn) fs"
    and "\<And>x r. x \<in> set (mutation_names tn) \<Longrightarrow> map_option f_resolve (gget fs x) = Some r \<Longrightarrow> map_option f_resolve (gget fs' x) = Some r"
  shows "mutations_offered ti (graphql_name tn) fs'"
proof -
  have "map_option f_resolve (gget fs' x) = Some r"
    if "map_option f_resolve (gget fs x) = Some r"
      "x \<in> {''insert_'' @ graphql_name tn, ''insert_'' @ graphql_name tn @ ''_one'', ''update_'' @ graphql_name tn,
        ''update_'' @ graphql_name tn @ ''_by_pk'', ''delete_'' @ graphql_name tn, ''delete_'' @ graphql_name tn @ ''_by_pk''}" for x r
    using assms(2) that by (simp add: mutation_names_def Let_def)
  then show ?thesis using assms(1) unfolding mutations_offered_def by blast
qed

lemma query_offered:
  assumes v: "view_ok cat tn ti"
    and q: "distinct (query_names cat tn)" "distinct (map (\<lambda>c. graphql_name (col_name c)) (cat_columns cat tn))"
    and q2: "add_query_fields ti q1 = Inr q2" "\<And>x. x \<in> set (query_names cat tn) \<Longrightarrow> gget q x = gget q2 x"
    and keep: "\<And>x f. gget q x = Some f \<Longrightarrow> gget q' x = Some f"
  shows "gget q' (graphql_name tn @ ''_aggregate'') = Some (aggregate_root ti)"
    and "\<forall>c\<in>set (vector_columns ti). gget q' (graphql_name tn @ ''_nearest_by_'' @ graphql_name (col_name c)) = Some (nearest_root ti c)"
    and "pk_exposable ti \<Longrightarrow> gget q' (graphql_name tn @ ''_connection'') = Some (connection_root ti)"
    and "pk_exposable ti \<Longrightarrow> map_option f_resolve (gget q' (graphql_name tn @ ''_by_pk'')) = Some (By_PK (tbl_name (ti_table ti)))"
proof -
  note qo = query_own(2-4) [OF v q q2(1)]
  have mem: "graphql_name tn @ ''_aggregate'' \<in> set (query_names cat tn)" "graphql_name tn @ ''_connection'' \<in> set (query_names cat tn)"
    "graphql_name tn @ ''_by_pk'' \<in> set (query_names cat tn)"
    by (simp_all add: query_names_def Let_def)
  show "gget q' (graphql_name tn @ ''_aggregate'') = Some (aggregate_root ti)"
    using qo(1) q2(2) [OF mem(1)] by (intro keep) simp
  show "\<forall>c\<in>set (vector_columns ti). gget q' (graphql_name tn @ ''_nearest_by_'' @ graphql_name (col_name c)) = Some (nearest_root ti c)"
  proof
    fix c assume c: "c \<in> set (vector_columns ti)"
    have "graphql_name tn @ ''_nearest_by_'' @ graphql_name (col_name c) \<in> set (query_names cat tn)"
      using v c by (auto simp: view_ok_def query_names_def Let_def)
    from q2(2) [OF this] qo(2) [OF c]
    show "gget q' (graphql_name tn @ ''_nearest_by_'' @ graphql_name (col_name c)) = Some (nearest_root ti c)"
      by (intro keep) simp
  qed
  assume pk: "pk_exposable ti"
  show "gget q' (graphql_name tn @ ''_connection'') = Some (connection_root ti)"
    using qo(3) [OF pk] q2(2) [OF mem(2)] by (intro keep) simp
  obtain f where f: "gget q2 (graphql_name tn @ ''_by_pk'') = Some f" "f_resolve f = By_PK (tbl_name (ti_table ti))"
    using qo(3) [OF pk] by auto
  have "gget q' (graphql_name tn @ ''_by_pk'') = Some f" using f(1) q2(2) [OF mem(3)] by (intro keep) simp
  with f(2) show "map_option f_resolve (gget q' (graphql_name tn @ ''_by_pk'')) = Some (By_PK (tbl_name (ti_table ti)))" by simp
qed



section \<open>Building does not fail\<close>

lemma add_infos_total:
  assumes "\<And>tn ta. access_table acc tn = Some ta \<Longrightarrow> gget (cat_tables cat) tn \<noteq> None"
  shows "\<exists>infos'. add_infos cat acc infos tns = Inr infos'"
proof (induction tns arbitrary: infos)
  case (Cons tn tns)
  then show ?case using assms [of tn] by (cases "access_table acc tn") (auto split: option.split)
qed simp

lemma pk_args_total:
  assumes "table_ok (ti_table ti)"
  shows "\<exists>args. pk_args ti = Inr args"
proof -
  have pk: "tbl_colmap (ti_table ti) pk \<noteq> None" if "pk \<in> set (tbl_pk (ti_table ti))" for pk
    using assms that unfolding table_ok_def by (auto simp: map_of_eq_None_iff image_image)
  have "\<exists>kvs. mapr (\<lambda>pk. case tbl_colmap (ti_table ti) pk of None \<Rightarrow> Inl (Go_Panic ''nil column'')
      | Some c \<Rightarrow> Inr (field_of ti pk, NonNull (scalar_type c))) pks = Inr kvs" if "set pks \<subseteq> set (tbl_pk (ti_table ti))" for pks
    using that by (induction pks) (auto split: option.splits dest: pk)
  then show ?thesis by (auto simp: pk_args_def)
qed

lemma root_fields_total:
  assumes "\<And>tn ti. gget infos tn = Some ti \<Longrightarrow> table_ok (ti_table ti)"
  shows "\<exists>q' m'. root_fields infos (q, m) tns = Inr (q', m')"
proof (induction tns arbitrary: q m)
  case (Cons tn tns)
  show ?case
  proof (cases "gget infos tn")
    case None
    with Cons show ?thesis by simp
  next
    case (Some ti)
    obtain args where a: "pk_args ti = Inr args" using pk_args_total [OF assms [OF Some]] by blast
    have "\<exists>q'. add_query_fields ti q = Inr q'" using a by (simp add: add_query_fields_def Let_def)
    moreover have "\<exists>m'. add_mutation_fields ti m = Inr m'"
    proof -
      have "\<exists>f. add_update_fields ti m = Inr f" for m using a by (simp add: add_update_fields_def Let_def split: option.split)
      moreover have "\<exists>f. add_delete_fields ti m = Inr f" for m using a by (simp add: add_delete_fields_def Let_def)
      ultimately show ?thesis unfolding add_mutation_fields_def rbind_Inr_iff by blast
    qed
    ultimately show ?thesis using Cons.IH Some by (auto simp del: split_paired_Ex)
  qed
qed simp

lemma mount_custom_error:
  "mount_custom role op fs cfs = Inl e \<Longrightarrow>
     \<exists>cf\<in>set cfs. (cf_name cf = [] \<or> cf_field cf = None) \<and> e = Gen_Err (Bad_Custom_Field op) \<or>
       e = Gen_Err (Custom_Field_Taken op (cf_name cf) role)"
  by (induction cfs arbitrary: fs) (fastforce split: option.splits if_splits)+

lemma resolved_tables:
  assumes "resolve role (Some rc) cat = Inr acc" "access_table acc tn = Some ta"
  shows "gget (cat_tables cat) tn \<noteq> None"
proof -
  have "entry_from role rc (cat_tables cat) (acc_tables acc)"
    using assms(1) by (auto simp: resolve_def entry_from_def split: option.splits dest!: resolve_tables_entry)
  then show ?thesis using assms(2) unfolding access_table_def entry_from_def by blast
qed

lemma view_table_ok:
  assumes "add_infos cat acc [] (cat_order cat) = Inr infos" "catalog_ok cat" "gget infos tn = Some ti"
  shows "table_ok (ti_table ti)"
proof -
  have "info_from cat acc tn ti" using add_infos_from [OF assms(1), of "set (cat_order cat)" tn ti] assms(3) by simp
  then obtain t ta where "gget (cat_tables cat) tn = Some t" "ti = new_table_info tn t ta" unfolding info_from_def by blast
  then show ?thesis using assms(2) by (simp add: catalog_ok_def tables_ok_def)
qed

lemma custom_fields_error:
  "add_custom_fields cfs role op fs = Inl e \<Longrightarrow> \<exists>cf\<in>set cfs. cf_allows cf role \<and>
     ((cf_name cf = [] \<or> cf_field cf = None) \<and> e = Gen_Err (Bad_Custom_Field (cf_operation cf)) \<or>
      e = Gen_Err (Custom_Field_Taken (cf_operation cf) (cf_name cf) role))"
  unfolding add_custom_fields_def by (drule mount_custom_error) (fastforce simp: custom_fields_for_def)



end
