(* ===== verification/Relations.thy ===== *)
theory Relations
  imports Schema_Build DataLoader Analytics
begin

text \<open>
  The resolvers of relationship fields and of fields by primary key (\<open>addRelationFields\<close>,
  \<open>addQueryFields\<close> in \<open>schema/builder.go\<close>). A relationship resolver registers its parent's key with a
  loader of the request and returns a thunk; the request's loaders are the state, and a thunk is the
  key of its loader and the parent's key.
\<close>

section \<open>The request's loaders\<close>

type_synonym loaders = "(load_fn \<times> loader) gmap"

datatype 'a deferred = Done "'a res" | Deferred string "gval list"

definition parent_key :: "string list \<Rightarrow> row \<Rightarrow> gval list option" where
  "parent_key cols row = (if list_all (\<lambda>c. gidx row c \<noteq> VNil) cols then Some (row_key cols row) else None)"

definition columns_equal :: "string list \<Rightarrow> gval list \<Rightarrow> condition" where
  "columns_equal cols key = cond (join '' AND '' (map (\<lambda>c. quote_ident c @ '' = ?'') cols)) key"

definition register :: "stdlib \<Rightarrow> string \<Rightarrow> load_fn \<Rightarrow> gval list \<Rightarrow> loaders \<Rightarrow> loaders" where
  "register sl lk loadf key ls =
     (case get_or_create lk (loadf, new_loader) ls of
        (ls', fn, l) \<Rightarrow> gput lk (fn, enqueue sl key l) ls')"

definition force :: "stdlib \<Rightarrow> string \<Rightarrow> gval list \<Rightarrow> loaders \<Rightarrow> loaders \<times> row list res" where
  "force sl lk key ls =
     (case gget ls lk of
        None \<Rightarrow> (ls, Inr [])
      | Some (fn, l) \<Rightarrow> (case fetch sl fn key l of (l', r) \<Rightarrow> (gput lk (fn, l') ls, r)))"

section \<open>The referenced row\<close>

definition ref_load :: "builder \<Rightarrow> query_db \<Rightarrow> table_info \<Rightarrow> identity \<Rightarrow> foreign_key \<Rightarrow> load_fn" where
  "ref_load b db target idn fk =
     batch_fn (b_stdlib b) (\<lambda>keys. run_select_by_keys b db target idn (fk_ref_columns fk) keys None [] 0) (fk_ref_columns fk)"

definition resolve_ref ::
    "builder \<Rightarrow> query_db \<Rightarrow> table_info \<Rightarrow> identity \<Rightarrow> foreign_key \<Rightarrow> bool \<Rightarrow> row \<Rightarrow> loaders \<Rightarrow> loaders \<times> row option deferred" where
  "resolve_ref b db target idn fk batchable row ls =
     (case parent_key (fk_columns fk) row of
        None \<Rightarrow> (ls, Done (Inr None))
      | Some key \<Rightarrow>
          if \<not> batchable then
            (ls, Done (first_row (run_select b db target idn no_args (Some (columns_equal (fk_ref_columns fk) key)) True)))
          else
            (let lk = loader_key ''out'' (fk_name fk) []
             in (register (b_stdlib b) lk (ref_load b db target idn fk) key ls, Deferred lk key)))"

definition force_ref :: "stdlib \<Rightarrow> string \<Rightarrow> gval list \<Rightarrow> loaders \<Rightarrow> loaders \<times> row option res" where
  "force_ref sl lk key ls = (case force sl lk key ls of (ls', r) \<Rightarrow> (ls', first_row r))"

section \<open>The child rows\<close>

definition children_load :: "builder \<Rightarrow> query_db \<Rightarrow> table_info \<Rightarrow> identity \<Rightarrow> foreign_key \<Rightarrow> list_args \<Rightarrow> int \<Rightarrow> load_fn" where
  "children_load b db child idn fk la per_key =
     batch_fn (b_stdlib b)
       (\<lambda>keys. run_select_by_keys b db child idn (fk_columns fk) keys (la_where la) (order_items la) per_key) (fk_columns fk)"

definition resolve_children ::
    "builder \<Rightarrow> query_db \<Rightarrow> table_info \<Rightarrow> identity \<Rightarrow> foreign_key \<Rightarrow> bool \<Rightarrow> row \<Rightarrow> gval gmap \<Rightarrow> loaders
      \<Rightarrow> loaders \<times> row list deferred" where
  "resolve_children b db child idn fk batchable row args ls =
     (case parent_key (fk_ref_columns fk) row of
        None \<Rightarrow> (ls, Done (Inr []))
      | Some key \<Rightarrow>
          let la = extract_list_args args in
          if \<not> batchable then
            (ls, Done (run_select b db child idn la (Some (columns_equal (fk_columns fk) key)) False))
          else
            (case page_bounds b la of
               Inl e \<Rightarrow> (ls, Done (Inl e))
             | Inr (limit, offset) \<Rightarrow>
                 let lk = loader_key ''in'' (fk_name fk) (args_signature (b_stdlib b) la)
                 in (register (b_stdlib b) lk (children_load b db child idn fk la (wrap64 (limit + offset))) key ls,
                     Deferred lk key)))"

definition force_children :: "builder \<Rightarrow> list_args \<Rightarrow> string \<Rightarrow> gval list \<Rightarrow> loaders \<Rightarrow> loaders \<times> row list res" where
  "force_children b la lk key ls =
     (case force (b_stdlib b) lk key ls of
        (ls', r) \<Rightarrow> (ls', rbind r (\<lambda>rows. apply_page b rows la)))"

section \<open>One row by primary key\<close>

definition by_pk_field :: "builder \<Rightarrow> query_db \<Rightarrow> table_info \<Rightarrow> identity \<Rightarrow> gval gmap \<Rightarrow> row option res" where
  "by_pk_field b db ti idn args =
     rbind (pk_cond b ti args) (\<lambda>c. first_row (run_select b db ti idn no_args (Some c) True))"

section \<open>The windowed batch\<close>

text \<open>A relation as the windowed statement sees it: of the rows of each key the first \<open>per\<close> in the
  order of the statement, all of them when \<open>per\<close> is 0 (then there is no window); or a fault.\<close>

fun window :: "stdlib \<Rightarrow> string list \<Rightarrow> nat \<Rightarrow> row list \<Rightarrow> row list \<Rightarrow> row list" where
  "window sl cols per seen [] = []"
| "window sl cols per seen (r # rs) =
     (if length (rows_at sl cols seen (key_sig sl (row_key cols r))) < per then r # window sl cols per (seen @ [r]) rs
      else window sl cols per (seen @ [r]) rs)"

definition windowed_query ::
    "(gval list list \<Rightarrow> gerr option) \<Rightarrow> stdlib \<Rightarrow> string list \<Rightarrow> row list \<Rightarrow> int \<Rightarrow> gval list list \<Rightarrow> row list res" where
  "windowed_query fault sl cols rows per ks =
     (case fault ks of
        Some e \<Rightarrow> Inl e
      | None \<Rightarrow> Inr (if 0 < per then window sl cols (nat per) [] (rows_with sl cols rows ks) else rows_with sl cols rows ks))"

lemma rows_at_simps [simp]:
  "rows_at sl cols [] s = []"
  "rows_at sl cols (r # rs) s = (if key_sig sl (row_key cols r) = s then r # rows_at sl cols rs s else rows_at sl cols rs s)"
  "rows_at sl cols (xs @ ys) s = rows_at sl cols xs s @ rows_at sl cols ys s"
  by (simp_all add: rows_at_def)

lemma rows_at_window:
  "rows_at sl cols (window sl cols per seen rs) s = take (per - length (rows_at sl cols seen s)) (rows_at sl cols rs s)"
proof (induction rs arbitrary: seen)
  case (Cons r rs)
  then show ?case
    by (auto simp: take_Cons' Suc_diff_le) (metis diff_Suc_eq_diff_pred diff_commute)?
qed simp

lemma set_window: "set (window sl cols per seen rs) \<subseteq> set rs"
  by (induction rs arbitrary: seen) auto

text \<open>A load function on the batches a loader really sends: some keys, each of the relation's arity.\<close>

definition key_batch :: "nat \<Rightarrow> gval list list \<Rightarrow> bool" where
  "key_batch n ks \<longleftrightarrow> ks \<noteq> [] \<and> (\<forall>k\<in>set ks. length k = n)"

definition on_keys :: "nat \<Rightarrow> load_fn \<Rightarrow> load_fn" where
  "on_keys n fn ks = (if key_batch n ks then fn ks else Inl (Ext_Error ''no batch''))"

definition first_rows :: "int \<Rightarrow> row list \<Rightarrow> row list" where
  "first_rows per rows = (if 0 < per then take (nat per) rows else rows)"

lemma windowed_query_Inr:
  "batch_fn sl (windowed_query fault sl cols rows per) cols ks = Inr g \<longleftrightarrow>
     fault ks = None \<and>
     g = group_by_columns sl (if 0 < per then window sl cols (nat per) [] (rows_with sl cols rows ks) else rows_with sl cols rows ks) cols"
  by (auto simp: batch_fn_def windowed_query_def split: option.splits)

interpretation windowed: batch_load sl "on_keys n (batch_fn sl (windowed_query fault sl cols rows per) cols)"
  "\<lambda>s. first_rows per (rows_at sl cols rows s)"
  for sl n fault cols rows per
proof unfold_locales
  fix ks g k s
  assume "on_keys n (batch_fn sl (windowed_query fault sl cols rows per) cols) ks = Inr g"
  then have g: "g = group_by_columns sl
      (if 0 < per then window sl cols (nat per) [] (rows_with sl cols rows ks) else rows_with sl cols rows ks) cols"
    by (simp add: on_keys_def windowed_query_Inr split: if_splits)
  show "k \<in> set ks \<Longrightarrow> group_at g (key_sig sl k) = first_rows per (rows_at sl cols rows (key_sig sl k))"
    by (simp add: g group_by_columns_at rows_at_window rows_at_with first_rows_def)
  show "s \<in> dom (gget g) \<Longrightarrow> s \<in> key_sig sl ` set ks"
    using set_window [of sl cols "nat per" "[]" "rows_with sl cols rows ks"] rows_with_keys
    by (auto simp: g group_by_columns_dom split: if_splits)
  show "gmap_ok g" by (simp add: g group_by_columns_ok)
qed

section \<open>A request\<close>

text \<open>The steps of one request on its loaders: a resolver registers a key, a thunk is forced, in any
  order. Each loader key \<open>lk\<close> stands for one batched query \<open>F lk\<close> on keys of \<open>N lk\<close> values.\<close>

inductive request_step :: "stdlib \<Rightarrow> (string \<Rightarrow> load_fn) \<Rightarrow> (string \<Rightarrow> nat) \<Rightarrow> loaders \<Rightarrow> loaders \<Rightarrow> bool" for sl F N where
  register: "length key = N lk \<Longrightarrow> request_step sl F N ls (register sl lk (F lk) key ls)"
| force: "request_step sl F N ls (fst (force sl lk key ls))"

text \<open>What holds of a loader throughout a request.\<close>

definition loader_ok :: "stdlib \<Rightarrow> nat \<Rightarrow> load_fn \<Rightarrow> loader \<Rightarrow> bool" where
  "loader_ok sl n fn l \<longleftrightarrow>
     (\<forall>k\<in>set (ld_pending l). length k = n) \<and> (\<exists>log. loader_reach sl (on_keys n fn) l log) \<and>
     (\<forall>e. ld_err l = Some e \<longrightarrow> (\<exists>ks. key_batch n ks \<and> fn ks = Inl e))"

lemma loader_ok_new: "loader_ok sl n fn new_loader"
proof -
  have "loader_reach sl (on_keys n fn) new_loader []" by (rule loader_reach.init)
  moreover have "ld_pending new_loader = []" "ld_err new_loader = None" by (simp_all add: new_loader_def)
  ultimately show ?thesis unfolding loader_ok_def by auto
qed

lemma loader_ok_enqueue:
  assumes "loader_ok sl n fn l" "length key = n"
  shows "loader_ok sl n fn (enqueue sl key l)"
proof -
  have "\<forall>k\<in>set (ld_pending (enqueue sl key l)). length k = n"
    using assms by (auto simp: loader_ok_def enqueue_def Let_def)
  then show ?thesis using assms(1) loader_reach.enqueue [of sl "on_keys n fn" l _ key] unfolding loader_ok_def by auto
qed

lemma fetch_on_keys: "\<forall>k\<in>set (ld_pending l). length k = n \<Longrightarrow> fetch sl (on_keys n fn) key l = fetch sl fn key l"
  by (auto simp: fetch_def Let_def on_keys_def key_batch_def split: option.splits)

lemma fetch_pending: "set (ld_pending (fst (fetch sl fn key l))) \<subseteq> set (ld_pending l)"
  by (auto simp: fetch_def Let_def split: option.splits sum.splits)

lemma fetch_fails:
  "snd (fetch sl fn key l) = Inl e \<or> ld_err (fst (fetch sl fn key l)) = Some e \<Longrightarrow>
     ld_err l = Some e \<or> ld_pending l \<noteq> [] \<and> fn (ld_pending l) = Inl e"
  by (auto simp: fetch_def Let_def split: option.splits sum.splits if_splits)

lemma loader_ok_fails:
  assumes "loader_ok sl n fn l" "snd (fetch sl fn key l) = Inl e \<or> ld_err (fst (fetch sl fn key l)) = Some e"
  shows "\<exists>ks. key_batch n ks \<and> fn ks = Inl e"
  using fetch_fails [OF assms(2)] assms(1) unfolding loader_ok_def key_batch_def by blast

lemma loader_ok_fetch:
  assumes "loader_ok sl n fn l"
  shows "loader_ok sl n fn (fst (fetch sl fn key l))"
proof -
  obtain log where l: "\<forall>k\<in>set (ld_pending l). length k = n" "loader_reach sl (on_keys n fn) l log"
    using assms unfolding loader_ok_def by blast
  have "loader_reach sl (on_keys n fn) (fst (fetch sl fn key l)) (log @ flushed sl key l)"
    using loader_reach.fetch [OF l(2), of key] fetch_on_keys [OF l(1)] by simp
  moreover have "\<forall>k\<in>set (ld_pending (fst (fetch sl fn key l))). length k = n"
    using fetch_pending [of sl fn key l] l(1) by blast
  ultimately show ?thesis using loader_ok_fails [OF assms] unfolding loader_ok_def by blast
qed

definition request_inv :: "stdlib \<Rightarrow> (string \<Rightarrow> load_fn) \<Rightarrow> (string \<Rightarrow> nat) \<Rightarrow> loaders \<Rightarrow> bool" where
  "request_inv sl F N ls \<longleftrightarrow> (\<forall>lk fn l. gget ls lk = Some (fn, l) \<longrightarrow> fn = F lk \<and> loader_ok sl (N lk) (F lk) l)"

lemma gget_register:
  "gget (register sl lk fn key ls) lk' =
     (if lk' = lk then Some (case gget ls lk of None \<Rightarrow> (fn, enqueue sl key new_loader) | Some (fn', l) \<Rightarrow> (fn', enqueue sl key l))
      else gget ls lk')"
  by (auto simp: register_def get_or_create_def split: option.splits prod.splits)

lemma gget_force:
  "gget (fst (force sl lk key ls)) lk' =
     (case gget ls lk of
        None \<Rightarrow> gget ls lk'
      | Some (fn, l) \<Rightarrow> if lk' = lk then Some (fn, fst (fetch sl fn key l)) else gget ls lk')"
  by (auto simp: force_def split: option.splits prod.splits)

lemma request_invI: "(\<And>lk fn l. gget ls lk = Some (fn, l) \<Longrightarrow> fn = F lk \<and> loader_ok sl (N lk) (F lk) l) \<Longrightarrow> request_inv sl F N ls"
  unfolding request_inv_def by blast

lemma request_invD: "request_inv sl F N ls \<Longrightarrow> gget ls lk = Some (fn, l) \<Longrightarrow> fn = F lk \<and> loader_ok sl (N lk) (F lk) l"
  unfolding request_inv_def by blast

lemma request_step_inv: "request_step sl F N ls ls' \<Longrightarrow> request_inv sl F N ls \<Longrightarrow> request_inv sl F N ls'"
proof (induction rule: request_step.induct)
  case (register key lk ls)
  show ?case
  proof (rule request_invI)
    fix lk' fn l
    assume g: "gget (register sl lk (F lk) key ls) lk' = Some (fn, l)"
    show "fn = F lk' \<and> loader_ok sl (N lk') (F lk') l"
    proof (cases "lk' = lk")
      case True
      then show ?thesis
        using g loader_ok_enqueue [OF loader_ok_new register.hyps, of sl "F lk"]
          loader_ok_enqueue [OF _ register.hyps] request_invD [OF register.prems, of lk]
        by (auto simp: gget_register split: option.splits)
    next
      case False
      then have "gget ls lk' = Some (fn, l)" using g by (simp add: gget_register)
      then show ?thesis by (rule request_invD [OF register.prems])
    qed
  qed
next
  case (force ls lk key)
  show ?case
  proof (rule request_invI)
    fix lk' fn l
    assume g: "gget (fst (force sl lk key ls)) lk' = Some (fn, l)"
    show "fn = F lk' \<and> loader_ok sl (N lk') (F lk') l"
    proof (cases "gget ls lk")
      case None
      then have "gget ls lk' = Some (fn, l)" using g by (simp add: gget_force)
      then show ?thesis by (rule request_invD [OF force])
    next
      case (Some p)
      obtain fn' m where m: "gget ls lk = Some (fn', m)" using Some by (cases p) simp
      then show ?thesis
        using g request_invD [OF force m] request_invD [OF force, of lk'] loader_ok_fetch [of sl "N lk" "F lk" m key]
        by (auto simp: gget_force split: if_splits)
    qed
  qed
qed

interpretation request: preserved "request_step sl F N" "request_inv sl F N" for sl F N
  by unfold_locales (rule request_step_inv)

lemma request_inv_start: "request_inv sl F N []"
  by (simp add: request_inv_def)

inductive_cases request_stepE: "request_step sl F N ls ls'"

lemma request_step_seen:
  "request_step sl F N ls ls' \<Longrightarrow> gget ls lk = Some (fn, l) \<Longrightarrow> \<exists>l'. gget ls' lk = Some (fn, l') \<and> ld_seen l \<subseteq> ld_seen l'"
  by (erule request_stepE) (auto simp: gget_register gget_force fetch_seen split: option.splits)

interpretation seen: preserved "request_step sl F N" "\<lambda>ls. \<exists>l'. gget ls lk = Some (fn, l') \<and> S \<subseteq> ld_seen l'"
  for sl F N lk fn S
  by unfold_locales (blast dest: request_step_seen)

lemma parent_key_length: "parent_key cols row = Some key \<Longrightarrow> length key = length cols"
  by (auto simp: parent_key_def row_key_def split: if_splits)

text \<open>The page of the rows of one parent.\<close>

definition page_of :: "int \<Rightarrow> int \<Rightarrow> 'a list \<Rightarrow> 'a list" where
  "page_of limit offset rows = take (nat limit) (drop (nat offset) rows)"

lemma apply_page_is:
  "page_bounds b la = Inr (limit, offset) \<Longrightarrow> 0 \<le> b_max_page b \<Longrightarrow> apply_page b rows la = Inr (page_of limit offset rows)"
  using apply_page_window [of b la limit offset rows] by (simp add: page_of_def)

lemma wrap64_positive:
  assumes "0 \<le> a" "a < 2 ^ 64" "0 < wrap64 a"
  shows "wrap64 a = a"
proof (cases "a < 2 ^ 63")
  case False
  have "(a + 2 ^ 63) mod 2 ^ 64 = (a - 2 ^ 63 + 2 ^ 64) mod 2 ^ 64" by (simp add: add.commute)
  also have "\<dots> = (a - 2 ^ 63) mod 2 ^ 64" by (rule mod_add_self2)
  also have "\<dots> = a - 2 ^ 63" using False assms(2) by (intro mod_pos_pos_trivial) simp_all
  finally show ?thesis using assms(2,3) by (simp add: wrap64_def)
qed (use assms(1) in \<open>simp add: wrap64_def\<close>)

lemma apply_page_first:
  assumes "page_bounds b la = Inr (limit, offset)" "0 \<le> b_max_page b" "limit < 2 ^ 63" "offset < 2 ^ 63"
  shows "apply_page b (first_rows (wrap64 (limit + offset)) rows) la = Inr (page_of limit offset rows)"
proof -
  have "0 \<le> limit" "0 \<le> offset" using page_bounds_range [OF assms(1,2)] by simp_all
  then have "0 < wrap64 (limit + offset) \<Longrightarrow> wrap64 (limit + offset) = limit + offset"
    using assms(3,4) by (intro wrap64_positive) simp_all
  moreover have "apply_page b (take (nat (limit + offset)) rows) la = apply_page b rows la"
    using apply_page_window [OF assms(1,2), of rows] by blast
  ultimately show ?thesis
    using apply_page_is [OF assms(1,2), of rows] by (cases "0 < wrap64 (limit + offset)") (simp_all add: first_rows_def)
qed


text \<open>The step that resolves a field.\<close>

lemma resolve_children_step:
  assumes "resolve_children b db child idn fk True row args ls = (ls1, Deferred lk key)"
    and "page_bounds b (extract_list_args args) = Inr (limit, offset)"
  shows "lk = loader_key ''in'' (fk_name fk) (args_signature (b_stdlib b) (extract_list_args args))
    \<and> parent_key (fk_ref_columns fk) row = Some key
    \<and> ls1 = register (b_stdlib b) lk (children_load b db child idn fk (extract_list_args args) (wrap64 (limit + offset))) key ls"
  using assms by (auto simp: resolve_children_def Let_def split: res_splits)

lemma forced_loader:
  assumes "request_inv sl F N ls" "gget ls lk = Some (fn, l)" "force sl lk key ls = (ls', r)"
    and F: "\<And>ks. key_batch (N lk) ks \<Longrightarrow> F lk ks = batch_fn sl (windowed_query fault sl cols rows per) cols ks"
    and "key_sig sl key \<in> ld_seen l"
  shows "r = Inr rs \<Longrightarrow> rs = first_rows per (rows_at sl cols rows (key_sig sl key))"
    and "r = Inl e \<Longrightarrow> \<exists>ks. key_batch (N lk) ks \<and> fault ks = Some e"
proof -
  let ?w = "on_keys (N lk) (batch_fn sl (windowed_query fault sl cols rows per) cols)"
  have w: "on_keys (N lk) (F lk) = ?w" by (auto simp: fun_eq_iff on_keys_def F)
  have ok: "fn = F lk" "loader_ok sl (N lk) (F lk) l" using request_invD [OF assms(1,2)] by simp_all
  then obtain log where l: "\<forall>k\<in>set (ld_pending l). length k = N lk" "loader_reach sl ?w l log"
    unfolding loader_ok_def w by blast
  have r: "r = snd (fetch sl fn key l)" using assms(2,3) by (auto simp: force_def split: prod.splits)
  show "rs = first_rows per (rows_at sl cols rows (key_sig sl key))" if "r = Inr rs"
  proof (rule windowed.fetch_direct [OF l(2) assms(5)])
    show "fetch sl ?w key l = (fst (fetch sl ?w key l), Inr rs)"
      using that r fetch_on_keys [OF l(1), of sl "F lk"] by (simp add: prod_eq_iff w ok(1))
  qed
  show "\<exists>ks. key_batch (N lk) ks \<and> fault ks = Some e" if e: "r = Inl e"
  proof -
    obtain ks where ks: "key_batch (N lk) ks" "F lk ks = Inl e"
      using loader_ok_fails [OF ok(2) disjI1, OF e [unfolded r ok(1)]] by blast
    have "fault ks = Some e"
      using ks(2) unfolding F [OF ks(1)] batch_fn_def windowed_query_def by (auto split: option.splits)
    then show ?thesis using ks(1) by blast
  qed
qed


text \<open>The loader key holds the constraint's name and not its table: two foreign keys of the same name
  share one loader, and the one resolved second is served by the query of the first.\<close>

lemma shared_constraint_name:
  assumes "fk_name fk' = fk_name fk"
    and "resolve_ref b db target idn fk True row [] = (ls1, Deferred lk key)"
    and "resolve_ref b db target' idn fk' True row' ls1 = (ls2, Deferred lk' key')"
  shows "lk' = lk \<and> (\<exists>l. gget ls2 lk' = Some (ref_load b db target idn fk, l))"
  using assms by (auto simp: resolve_ref_def Let_def gget_register split: option.splits)

section \<open>What a relationship field returns\<close>



definition demo_fk :: foreign_key where
  "demo_fk = \<lparr>fk_name = ''fk_1'', fk_table = ''notes'', fk_columns = [''owner''], fk_ref_table = ''users'', fk_ref_columns = [''id'']\<rparr>"

definition demo_sel :: op_access where
  "demo_sel = \<lparr>oa_columns = [demo_col 0 ''id'' ''bigint'' True, demo_col 1 ''owner'' ''bigint'' False],
     oa_colset = {''id'', ''owner''}, oa_filter = None, oa_presets = []\<rparr>"

definition demo_child :: table_info where
  "demo_child = demo_info\<lparr>ti_access := \<lparr>ta_select = Some demo_sel, ta_insert = None, ta_update = None, ta_delete = None\<rparr>\<rparr>"

definition demo_values :: "row \<Rightarrow> gval list" where
  "demo_values r = [gidx r ''id'', gidx r ''owner'']"

text \<open>A database that holds \<open>demo_children\<close> and reads the keys and the page from the arguments.\<close>

definition demo_keys_db :: query_db where
  "demo_keys_db q args =
     (case last args of
        VInt per \<Rightarrow> Inr (map demo_values (window demo_stdlib [''owner''] (nat per) []
                      (rows_with demo_stdlib [''owner''] demo_children (map (\<lambda>a. [a]) (butlast args)))))
      | _ \<Rightarrow> Inl (Ext_Error ''bad statement''))"

lemma demo_child_scan: "r \<in> set demo_children \<Longrightarrow> scan_row demo_builder (oa_columns demo_sel) (demo_values r) = Inr r"
proof -
  have "list_all (\<lambda>r. scan_row demo_builder (oa_columns demo_sel) (demo_values r) = Inr r) demo_children" by code_simp
  then show "r \<in> set demo_children \<Longrightarrow> ?thesis" by (simp add: list_all_iff)
qed

lemma mapr_inverse: "\<forall>r\<in>set rs. f (g r) = Inr r \<Longrightarrow> mapr f (map g rs) = Inr rs"
  by (induction rs) simp_all

lemma demo_keys_db_answers:
  assumes "key_batch 1 ks"
  shows "run_select_by_keys demo_builder demo_keys_db demo_child idn [''owner''] ks None [] 2 =
    windowed_query (\<lambda>_. None) demo_stdlib [''owner''] demo_children 2 ks"
proof -
  have ks: "ks \<noteq> []" "[] \<notin> set ks" "map (\<lambda>a. [a]) (map hd ks) = ks"
    using assms by (auto simp: key_batch_def length_Suc_conv intro!: map_idI)
  let ?rows = "window demo_stdlib [''owner''] 2 [] (rows_with demo_stdlib [''owner''] demo_children ks)"
  have sel: "ta_select (ti_access demo_child) = Some demo_sel" by (simp add: demo_child_def)
  have fc: "rbac_cond demo_sel idn = Inr None" by (simp add: rbac_cond_def demo_sel_def)
  obtain o' where o': "order_sql demo_child [] = Inr o'" by (auto simp: order_sql_def order_columns_def)
  obtain w where w: "window_order demo_child [] [''owner''] = Inr w" by (auto simp: window_order_def order_columns_def)
  obtain ic where ic: "in_condition [''owner''] ks = Inr ic" "c_sql ic \<noteq> []" "c_args ic = map hd ks"
    using ks(1,2) by (simp add: in_condition_def)
  have "c_args (combine_conds [Some ic, None, None]) = map hd ks"
    using ic(2,3) by (simp add: combine_conds_def live_conds_def)
  then obtain q where q: "keys_query demo_builder demo_child idn [''owner''] ks None [] 2 =
      Inr (oa_columns demo_sel, q, map hd ks @ [VInt 2])"
    by (simp add: keys_query_def sel fc o' w ic(1) user_cond_def Let_def)
  have "mapr (scan_row demo_builder (oa_columns demo_sel)) (map demo_values ?rows) = Inr ?rows"
    using set_window [of demo_stdlib "[''owner'']" 2 "[]" "rows_with demo_stdlib [''owner''] demo_children ks"]
    by (intro mapr_inverse) (auto simp: rows_with_def intro: demo_child_scan)
  then show ?thesis
    by (simp add: run_select_by_keys_def q scan_rows_def demo_keys_db_def windowed_query_def ks(3) del: map_map)
qed


definition demo_rel_args :: "gval gmap" where
  "demo_rel_args = [(''limit'', VInt 1), (''offset'', VInt 1)]"

definition demo_la :: list_args where
  "demo_la = \<lparr>la_where = None, la_order = None, la_limit = Some 1, la_offset = Some 1\<rparr>"


end
