(* ===== verification/Resolvers.thy ===== *)
theory Resolvers
  imports Relations Mutations
begin

text \<open>
  The resolvers a role's schema carries, put together: for each \<open>Resolve\<close> function of
  \<open>schema/builder.go\<close>, \<open>schema/aggregate.go\<close> and \<open>schema/vector.go\<close> the modelled operation that
  it calls, on the context of the request. The executor of \<open>graphql-go\<close>, which picks the next resolver to
  call from the answers so far, is a parameter.
\<close>

section \<open>The context of a request\<close>

record req_ctx =
  cx_identity :: "identity option"
  cx_loaders :: loaders

definition no_context :: req_ctx where
  "no_context = \<lparr>cx_identity = None, cx_loaders = []\<rparr>"

definition with_identity :: "identity \<Rightarrow> req_ctx \<Rightarrow> req_ctx" where
  "with_identity idn cx = cx\<lparr>cx_identity := Some idn\<rparr>"

definition with_loaders :: "req_ctx \<Rightarrow> req_ctx" where
  "with_loaders cx = cx\<lparr>cx_loaders := []\<rparr>"

definition identity_from :: "req_ctx \<Rightarrow> identity res" where
  "identity_from cx =
     (case cx_identity cx of None \<Rightarrow> Inl (Query_Err Unauthenticated) | Some idn \<Rightarrow> Inr idn)"

text \<open>What a resolver returns and the resolvers below it get as their source. A page keeps its table and
  filter for the count that runs when \<open>total_count\<close> is selected; a thunk keeps its loader and key.\<close>

datatype node =
    Root
  | Leaf gval
  | Row_Node row
  | Page_Node page string "gval gmap option"
  | Page_Info page
  | Agg_Node agg_out
  | Near_Node neighbor
  | List_Node "node list"
  | Thunk_Ref string "gval list"
  | Thunk_Children list_args string "gval list"

definition row_node :: "row option \<Rightarrow> node" where
  "row_node r = (case r of None \<Rightarrow> Leaf VNil | Some row \<Rightarrow> Row_Node row)"

definition rows_node :: "row list \<Rightarrow> node" where
  "rows_node rows = List_Node (map Row_Node rows)"

definition rmap :: "('a \<Rightarrow> 'b) \<Rightarrow> 'a res \<Rightarrow> 'b res" where
  "rmap f r = rbind r (\<lambda>x. Inr (f x))"

section \<open>Query fields\<close>

text \<open>The closures hold the role's view of their table; \<open>infos\<close> are the views of the role.\<close>

definition on_table :: "table_infos \<Rightarrow> string \<Rightarrow> (table_info \<Rightarrow> node res option) \<Rightarrow> node res option" where
  "on_table infos tn f = (case gget infos tn of None \<Rightarrow> Some (Inl (Go_Panic ''nil table'')) | Some ti \<Rightarrow> f ti)"

definition no_resolver :: "node res" where
  "no_resolver = Inl (Go_Panic ''no such field'')"

text \<open>\<open>None\<close> when the selection of an aggregate does not flatten, which the validation of the query
  excludes.\<close>

definition query_root ::
    "builder \<Rightarrow> table_infos \<Rightarrow> query_db \<Rightarrow> identity \<Rightarrow> gval gmap \<Rightarrow> sel_set gmap \<Rightarrow> sel_set list \<Rightarrow> resolver
      \<Rightarrow> node res option" where
  "query_root b infos db idn args fr asts r =
     (case r of
        Role_Name \<Rightarrow> Some (Inr (Leaf (VStr (id_role idn))))
      | By_PK tn \<Rightarrow> on_table infos tn (\<lambda>ti. Some (rmap row_node (by_pk_field b db ti idn args)))
      | Connection_Of tn \<Rightarrow>
          on_table infos tn (\<lambda>ti. Some (rmap (\<lambda>p. Page_Node p tn (where_arg args)) (connection_field b db ti idn args)))
      | Aggregate_Of tn \<Rightarrow>
          on_table infos tn (\<lambda>ti. map_option (rmap Agg_Node) (aggregate_field b db ti idn args fr asts))
      | Nearest_Of tn c \<Rightarrow>
          on_table infos tn (\<lambda>ti. Some (rmap (\<lambda>ns. List_Node (map Near_Node ns)) (nearest_field b db ti idn c args)))
      | _ \<Rightarrow> Some no_resolver)"

section \<open>Fields of a row\<close>

definition ref_node :: "row option deferred \<Rightarrow> node res" where
  "ref_node d = (case d of Done r \<Rightarrow> rmap row_node r | Deferred lk key \<Rightarrow> Inr (Thunk_Ref lk key))"

definition children_node :: "list_args \<Rightarrow> row list deferred \<Rightarrow> node res" where
  "children_node la d = (case d of Done r \<Rightarrow> rmap rows_node r | Deferred lk key \<Rightarrow> Inr (Thunk_Children la lk key))"

definition row_field ::
    "builder \<Rightarrow> table_infos \<Rightarrow> query_db \<Rightarrow> req_ctx \<Rightarrow> row \<Rightarrow> gval gmap \<Rightarrow> resolver \<Rightarrow> req_ctx \<times> node res" where
  "row_field b infos db cx row args r =
     (let related = (\<lambda>tn f. case identity_from cx of
            Inl e \<Rightarrow> (cx, Inl e)
          | Inr idn \<Rightarrow>
              (case gget infos tn of
                 None \<Rightarrow> (cx, Inl (Go_Panic ''nil table''))
               | Some ti \<Rightarrow> (case f ti idn of (ls, a) \<Rightarrow> (cx\<lparr>cx_loaders := ls\<rparr>, a))))
      in case r of
           Column_Of c \<Rightarrow> (cx, Inr (Leaf (gidx row c)))
         | Ref_Row fk batchable \<Rightarrow>
             related (fk_ref_table fk) (\<lambda>target idn.
               case resolve_ref b db target idn fk batchable row (cx_loaders cx) of (ls, d) \<Rightarrow> (ls, ref_node d))
         | Child_Rows fk batchable \<Rightarrow>
             related (fk_table fk) (\<lambda>child idn.
               case resolve_children b db child idn fk batchable row args (cx_loaders cx) of
                 (ls, d) \<Rightarrow> (ls, children_node (extract_list_args args) d))
         | _ \<Rightarrow> (cx, no_resolver))"

section \<open>Keys of a source\<close>

text \<open>\<open>sourceKey\<close> on the maps the resolvers place in \<open>p.Source\<close>.\<close>

definition page_key :: "builder \<Rightarrow> table_infos \<Rightarrow> query_db \<Rightarrow> req_ctx \<Rightarrow> page \<Rightarrow> string \<Rightarrow> gval gmap option \<Rightarrow> string \<Rightarrow> node res" where
  "page_key b infos db cx p tn w k =
     (if k = ''nodes'' then Inr (rows_node (pg_nodes p))
      else if k = ''page_info'' then Inr (Page_Info p)
      else if k = ''count'' then
        rbind (identity_from cx) (\<lambda>idn.
          case gget infos tn of
            None \<Rightarrow> Inl (Go_Panic ''nil table'')
          | Some ti \<Rightarrow> rmap (\<lambda>n. Leaf (VInt n)) (run_count b db ti idn w))
      else Inr (Leaf VNil))"

definition info_key :: "page \<Rightarrow> string \<Rightarrow> gval" where
  "info_key p k =
     (if k = ''has_next_page'' then VBool (pg_has_next p)
      else if k = ''end_cursor'' then (case pg_end_cursor p of None \<Rightarrow> VNil | Some c \<Rightarrow> VStr c)
      else VNil)"

definition agg_key :: "agg_out \<Rightarrow> string \<Rightarrow> node" where
  "agg_key a k =
     (if k = ''count'' then Leaf (VInt (ao_count a))
      else if k = ''sum'' then Row_Node (ao_sum a)
      else if k = ''avg'' then Row_Node (ao_avg a)
      else if k = ''min'' then Row_Node (ao_min a)
      else if k = ''max'' then Row_Node (ao_max a)
      else Leaf VNil)"

definition near_key :: "neighbor \<Rightarrow> string \<Rightarrow> node" where
  "near_key n k =
     (if k = ''node'' then Row_Node (nb_node n)
      else if k = ''distance'' then Leaf (nb_distance n)
      else Leaf VNil)"

section \<open>One call of a resolver\<close>

definition resolve_field ::
    "builder \<Rightarrow> table_infos \<Rightarrow> query_db \<Rightarrow> req_ctx \<Rightarrow> node \<Rightarrow> gval gmap \<Rightarrow> sel_set gmap \<Rightarrow> sel_set list \<Rightarrow> resolver
      \<Rightarrow> (req_ctx \<times> node res) option" where
  "resolve_field b infos db cx src args fr asts r =
     (case src of
        Root \<Rightarrow>
          (case identity_from cx of
             Inl e \<Rightarrow> Some (cx, Inl e)
           | Inr idn \<Rightarrow> map_option (Pair cx) (query_root b infos db idn args fr asts r))
      | Row_Node row \<Rightarrow>
          Some (case r of Source_Key k \<Rightarrow> (cx, Inr (Leaf (gidx row k))) | _ \<Rightarrow> row_field b infos db cx row args r)
      | _ \<Rightarrow>
          Some (cx, case r of
            Source_Key k \<Rightarrow>
              (case src of
                 Page_Node p tn w \<Rightarrow> page_key b infos db cx p tn w k
               | Page_Info p \<Rightarrow> Inr (Leaf (info_key p k))
               | Agg_Node a \<Rightarrow> Inr (agg_key a k)
               | Near_Node n \<Rightarrow> Inr (near_key n k)
               | _ \<Rightarrow> Inr (Leaf VNil))
          | _ \<Rightarrow> no_resolver))"

definition force_thunk :: "builder \<Rightarrow> req_ctx \<Rightarrow> node \<Rightarrow> req_ctx \<times> node res" where
  "force_thunk b cx t =
     (case t of
        Thunk_Ref lk key \<Rightarrow>
          (case force_ref (b_stdlib b) lk key (cx_loaders cx) of (ls, r) \<Rightarrow> (cx\<lparr>cx_loaders := ls\<rparr>, rmap row_node r))
      | Thunk_Children la lk key \<Rightarrow>
          (case force_children b la lk key (cx_loaders cx) of (ls, r) \<Rightarrow> (cx\<lparr>cx_loaders := ls\<rparr>, rmap rows_node r))
      | _ \<Rightarrow> (cx, Inr t))"

section \<open>A request\<close>

text \<open>The executor's next call, chosen from the answers so far; \<open>None\<close> when the response is complete.\<close>

datatype call = Resolve node "gval gmap" "sel_set gmap" "sel_set list" resolver | Force node

type_synonym executor = "node res list \<Rightarrow> call option"

definition run_call :: "builder \<Rightarrow> table_infos \<Rightarrow> query_db \<Rightarrow> req_ctx \<Rightarrow> call \<Rightarrow> (req_ctx \<times> node res) option" where
  "run_call b infos db cx c =
     (case c of
        Resolve src args fr asts r \<Rightarrow> resolve_field b infos db cx src args fr asts r
      | Force t \<Rightarrow> Some (force_thunk b cx t))"

text \<open>The answers of the first \<open>n\<close> calls.\<close>

fun run_calls :: "nat \<Rightarrow> builder \<Rightarrow> table_infos \<Rightarrow> query_db \<Rightarrow> executor \<Rightarrow> req_ctx \<Rightarrow> node res list \<Rightarrow> node res list option" where
  "run_calls 0 b infos db ex cx as = Some as"
| "run_calls (Suc n) b infos db ex cx as =
     (case ex as of
        None \<Rightarrow> Some as
      | Some c \<Rightarrow>
          Option.bind (run_call b infos db cx c) (\<lambda>(cx', a). run_calls n b infos db ex cx' (as @ [a])))"

section \<open>What a role reads\<close>

text \<open>The heads of the read statements of a table for which the role may read the columns of \<open>sel\<close>.\<close>

definition agg_reads :: "agg_request \<Rightarrow> column set" where
  "agg_reads req = set (ag_sum req) \<union> set (ag_avg req) \<union> set (ag_min req) \<union> set (ag_max req)"

inductive read_head :: "op_access \<Rightarrow> string \<Rightarrow> bool" for sel where
  columns: "read_head sel (''SELECT '' @ select_list (oa_columns sel))"
| total: "read_head sel ''SELECT COUNT(*)''"
| aggregates: "agg_reads req \<subseteq> set (oa_columns sel) \<Longrightarrow> read_head sel (''SELECT '' @ join '', '' (map fst (agg_plan req)))"
| nearest: "col \<in> set (oa_columns sel) \<Longrightarrow> closed dist 0 \<Longrightarrow>
    read_head sel (''SELECT '' @ select_list (oa_columns sel) @ '', '' @ dist @ ''('' @ quote_ident (col_name col) @
      '', ?) AS __gqlgate_dist'')"
| first_of_each: "set js \<subseteq> oa_colset sel \<Longrightarrow> closed ord 0 \<Longrightarrow>
    read_head sel (''SELECT '' @ select_list (oa_columns sel) @ '' FROM (SELECT '' @ select_list (oa_columns sel) @
      '', ROW_NUMBER() OVER (PARTITION BY '' @ join '', '' (map quote_ident js) @ '' ORDER BY '' @ ord @
      '') AS __gqlgate_rn'')"

definition table_read :: "builder \<Rightarrow> table_info \<Rightarrow> identity \<Rightarrow> string \<Rightarrow> gval list \<Rightarrow> bool" where
  "table_read b ti idn q args \<longleftrightarrow>
     (\<exists>sel. ta_select (ti_access ti) = Some sel \<and> guarded sel idn q args \<and>
        (\<exists>head rest. read_head sel head \<and> q = head @ '' FROM '' @ qualified_table b (ti_table ti) @ '' WHERE '' @ rest))"

definition role_read :: "builder \<Rightarrow> table_infos \<Rightarrow> identity \<Rightarrow> string \<Rightarrow> gval list \<Rightarrow> bool" where
  "role_read b infos idn q args \<longleftrightarrow> (\<exists>tn ti. gget infos tn = Some ti \<and> table_read b ti idn q args)"

text \<open>A database behind a guard that lets only such statements through.\<close>

definition behind_guard :: "(string \<Rightarrow> gval list \<Rightarrow> bool) \<Rightarrow> query_db \<Rightarrow> query_db" where
  "behind_guard P db q args = (if P q args then db q args else Inl (Ext_Error ''statement refused''))"

definition views_wf :: "table_infos \<Rightarrow> bool" where
  "views_wf infos \<longleftrightarrow> (\<forall>tn ti sel. gget infos tn = Some ti \<longrightarrow> ta_select (ti_access ti) = Some sel \<longrightarrow> filters_wf sel)"

lemma guard_passes: "gget infos tn = Some ti \<Longrightarrow> table_read b ti idn q args \<Longrightarrow>
    behind_guard (role_read b infos idn) db q args = db q args"
  by (auto simp: behind_guard_def role_read_def)

lemma select_table_read:
  assumes "select_query b ti idn la extra single = Inr (cols, q, args)"
    and "\<And>sel. ta_select (ti_access ti) = Some sel \<Longrightarrow> filters_wf sel" "\<forall>c. extra = Some c \<longrightarrow> cond_ok c"
  shows "table_read b ti idn q args"
proof -
  obtain sel where sel: "ta_select (ti_access ti) = Some sel"
    using assms(1) by (auto simp: select_query_def split: option.splits)
  have "guarded sel idn q args" using select_query_guarded [OF assms(1) sel assms(2) [OF sel] assms(3)] by blast
  moreover have "\<exists>rest. q = (''SELECT '' @ select_list (oa_columns sel)) @ '' FROM '' @ qualified_table b (ti_table ti) @ '' WHERE '' @ rest"
    using assms(1) sel by (auto simp: select_query_def select_from_def Let_def)
  ultimately show ?thesis using sel read_head.columns unfolding table_read_def by blast
qed

lemma keyset_table_read:
  assumes "keyset_query b ti idn w after limit = Inr (cols, q, args)"
    and "\<And>sel. ta_select (ti_access ti) = Some sel \<Longrightarrow> filters_wf sel" "\<forall>c. after = Some c \<longrightarrow> cond_ok c"
  shows "table_read b ti idn q args"
proof -
  obtain sel where sel: "ta_select (ti_access ti) = Some sel"
    using assms(1) by (auto simp: keyset_query_def split: option.splits)
  have "guarded sel idn q args" using keyset_query_guarded [OF assms(1) sel assms(2) [OF sel] assms(3)] by blast
  moreover have "\<exists>rest. q = (''SELECT '' @ select_list (oa_columns sel)) @ '' FROM '' @ qualified_table b (ti_table ti) @ '' WHERE '' @ rest"
    using assms(1) sel by (auto simp: keyset_query_def select_from_def Let_def)
  ultimately show ?thesis using sel read_head.columns unfolding table_read_def by blast
qed

lemma keys_table_read:
  assumes "keys_query b ti idn js keys w os per_key = Inr (cols, q, args)"
    and wf: "\<And>sel. ta_select (ti_access ti) = Some sel \<Longrightarrow> filters_wf sel" and keys: "\<forall>k\<in>set keys. length k = length js"
    and js: "0 < per_key \<Longrightarrow> columns_readable ti js"
  shows "table_read b ti idn q args"
proof -
  obtain sel where sel: "ta_select (ti_access ti) = Some sel"
    using assms(1) by (auto simp: keys_query_def split: option.splits)
  have g: "guarded sel idn q args"
    using keys_query_guarded [OF assms(1) sel wf [OF sel]] in_condition_ok [OF _ keys] by blast
  have "\<exists>head rest. read_head sel head \<and> q = head @ '' FROM '' @ qualified_table b (ti_table ti) @ '' WHERE '' @ rest"
  proof (cases "0 < per_key")
    case False
    then have "\<exists>rest. q = (''SELECT '' @ select_list (oa_columns sel)) @ '' FROM '' @ qualified_table b (ti_table ti) @ '' WHERE '' @ rest"
      using assms(1) sel by (auto simp: keys_query_def select_from_def Let_def)
    then show ?thesis using read_head.columns by blast
  next
    case True
    obtain ord where ord: "window_order ti os js = Inr ord"
      using assms(1) sel True by (auto simp: keys_query_def Let_def)
    have "set js \<subseteq> oa_colset sel" using js [OF True] sel by (auto simp: columns_readable_def list_all_iff)
    note head = read_head.first_of_each [OF this window_order_closed [OF ord]]
    have "\<exists>rest. q = (''SELECT '' @ select_list (oa_columns sel) @ '' FROM (SELECT '' @ select_list (oa_columns sel) @
        '', ROW_NUMBER() OVER (PARTITION BY '' @ join '', '' (map quote_ident js) @ '' ORDER BY '' @ ord @
        '') AS __gqlgate_rn'') @ '' FROM '' @ qualified_table b (ti_table ti) @ '' WHERE '' @ rest"
      using assms(1) sel True ord by (auto simp: keys_query_def Let_def)
    with head show ?thesis by blast
  qed
  then show ?thesis using sel g unfolding table_read_def by blast
qed

lemma count_table_read:
  assumes "count_query b ti idn w = Inr (q, args)" "\<And>sel. ta_select (ti_access ti) = Some sel \<Longrightarrow> filters_wf sel"
  shows "table_read b ti idn q args"
proof -
  obtain sel where sel: "ta_select (ti_access ti) = Some sel"
    using assms(1) by (auto simp: count_query_def split: option.splits)
  have "guarded sel idn q args" using count_query_guarded [OF assms(1) sel assms(2) [OF sel]] by blast
  moreover have "\<exists>rest. q = ''SELECT COUNT(*)'' @ '' FROM '' @ qualified_table b (ti_table ti) @ '' WHERE '' @ rest"
    using assms(1) sel by (auto simp: count_query_def Let_def)
  ultimately show ?thesis using sel read_head.total unfolding table_read_def by blast
qed

lemma aggregate_table_read:
  assumes "agg_query b ti idn w req = Inr (q, args)" "\<And>sel. ta_select (ti_access ti) = Some sel \<Longrightarrow> filters_wf sel"
    and "\<And>sel. ta_select (ti_access ti) = Some sel \<Longrightarrow> agg_reads req \<subseteq> set (oa_columns sel)"
  shows "table_read b ti idn q args"
proof -
  obtain sel where sel: "ta_select (ti_access ti) = Some sel"
    using assms(1) by (auto simp: agg_query_def split: option.splits)
  have "guarded sel idn q args" using agg_query_guarded [OF assms(1) sel assms(2) [OF sel]] by blast
  moreover have "\<exists>rest. q = (''SELECT '' @ join '', '' (map fst (agg_plan req))) @ '' FROM '' @ qualified_table b (ti_table ti) @ '' WHERE '' @ rest"
    using assms(1) sel by (auto simp: agg_query_def Let_def)
  ultimately show ?thesis using sel read_head.aggregates [OF assms(3) [OF sel]] unfolding table_read_def by blast
qed

lemma nearest_table_read:
  assumes "nearest_query b ti idn col dist to w n = Inr (cols, q, args)" "closed dist 0"
    and "\<And>sel. ta_select (ti_access ti) = Some sel \<Longrightarrow> filters_wf sel"
    and "\<And>sel. ta_select (ti_access ti) = Some sel \<Longrightarrow> col \<in> set (oa_columns sel)"
  shows "table_read b ti idn q args"
proof -
  obtain sel where sel: "ta_select (ti_access ti) = Some sel"
    using assms(1) by (auto simp: nearest_query_def split: option.splits)
  have "guarded sel idn q args" using nearest_query_guarded [OF assms(1,2) sel assms(3) [OF sel]] by blast
  moreover have "\<exists>rest. q = (''SELECT '' @ select_list (oa_columns sel) @ '', '' @ dist @ ''('' @ quote_ident (col_name col) @
      '', ?) AS __gqlgate_dist'') @ '' FROM '' @ qualified_table b (ti_table ti) @ '' WHERE '' @ rest"
    using assms(1) sel by (auto simp: nearest_query_def Let_def)
  ultimately show ?thesis using sel read_head.nearest [OF assms(4) [OF sel] assms(2)] unfolding table_read_def by blast
qed

text \<open>The operations behind a guard.\<close>

lemma scan_behind_guard:
  "gget infos tn = Some ti \<Longrightarrow> table_read b ti idn q args \<Longrightarrow>
     scan_rows b (behind_guard (role_read b infos idn) db) cols q args = scan_rows b db cols q args"
  by (simp add: scan_rows_def guard_passes)

lemma views_wfD: "views_wf infos \<Longrightarrow> gget infos tn = Some ti \<Longrightarrow> ta_select (ti_access ti) = Some sel \<Longrightarrow> filters_wf sel"
  unfolding views_wf_def by blast

lemma select_behind_guard:
  assumes "gget infos tn = Some ti" "views_wf infos" "\<forall>c. extra = Some c \<longrightarrow> cond_ok c"
  shows "run_select b (behind_guard (role_read b infos idn) db) ti idn la extra single = run_select b db ti idn la extra single"
  unfolding run_select_def
  by (rule rbind_cong [OF refl])
    (auto intro: scan_behind_guard [OF assms(1)] select_table_read [OF _ views_wfD [OF assms(2,1)] assms(3)])

lemma keyset_behind_guard:
  assumes "gget infos tn = Some ti" "views_wf infos" "\<forall>c. after = Some c \<longrightarrow> cond_ok c"
  shows "run_keyset_page b (behind_guard (role_read b infos idn) db) ti idn w after n = run_keyset_page b db ti idn w after n"
  unfolding run_keyset_page_def
  by (rule rbind_cong [OF refl])
    (auto intro: scan_behind_guard [OF assms(1)] keyset_table_read [OF _ views_wfD [OF assms(2,1)] assms(3)])

lemma keys_behind_guard:
  assumes "gget infos tn = Some ti" "views_wf infos" "\<forall>k\<in>set keys. length k = length js" "0 < per \<Longrightarrow> columns_readable ti js"
  shows "run_select_by_keys b (behind_guard (role_read b infos idn) db) ti idn js keys w os per =
    run_select_by_keys b db ti idn js keys w os per"
  unfolding run_select_by_keys_def
  by (rule rbind_cong [OF refl])
    (auto intro: scan_behind_guard [OF assms(1)] keys_table_read [OF _ views_wfD [OF assms(2,1)] assms(3,4)])

lemma count_behind_guard:
  assumes "gget infos tn = Some ti" "views_wf infos"
  shows "run_count b (behind_guard (role_read b infos idn) db) ti idn w = run_count b db ti idn w"
  unfolding run_count_def
  by (rule rbind_cong [OF refl])
    (auto simp: guard_passes [OF assms(1) count_table_read [OF _ views_wfD [OF assms(2,1)]]])

lemma aggregate_behind_guard:
  assumes "gget infos tn = Some ti" "views_wf infos"
    and "\<And>sel. ta_select (ti_access ti) = Some sel \<Longrightarrow> agg_reads req \<subseteq> set (oa_columns sel)"
  shows "run_aggregate b (behind_guard (role_read b infos idn) db) ti idn w req = run_aggregate b db ti idn w req"
  unfolding run_aggregate_def
  by (rule rbind_cong [OF refl])
    (auto simp: guard_passes [OF assms(1) aggregate_table_read [OF _ views_wfD [OF assms(2,1)] assms(3)]])

lemma nearest_behind_guard:
  assumes "gget infos tn = Some ti" "views_wf infos" "closed dist 0"
    and "\<And>sel. ta_select (ti_access ti) = Some sel \<Longrightarrow> col \<in> set (oa_columns sel)"
  shows "run_nearest b (behind_guard (role_read b infos idn) db) ti idn col dist to w n = run_nearest b db ti idn col dist to w n"
  unfolding run_nearest_def
  by (rule rbind_cong [OF refl])
    (auto simp: guard_passes [OF assms(1) nearest_table_read [OF _ assms(3) views_wfD [OF assms(2,1)] assms(4)]])

section \<open>Fields behind a guard\<close>

text \<open>What the schema and the validation of a query give: a search is over a readable column, an
  aggregate selects readable columns, a batched relationship joins readable columns, and the key of a
  loader fixes the number of its columns (\<open>N\<close>).\<close>

fun field_ok :: "table_infos \<Rightarrow> (string \<Rightarrow> nat) \<Rightarrow> sel_set gmap \<Rightarrow> sel_set list \<Rightarrow> resolver \<Rightarrow> bool" where
  "field_ok infos N fr asts (Nearest_Of tn c) =
     (\<forall>ti sel. gget infos tn = Some ti \<longrightarrow> ta_select (ti_access ti) = Some sel \<longrightarrow> c \<in> set (oa_columns sel))"
| "field_ok infos N fr asts (Aggregate_Of tn) =
     (\<forall>ti sel req. gget infos tn = Some ti \<longrightarrow> ta_select (ti_access ti) = Some sel \<longrightarrow>
        collect_agg ti fr asts = Some req \<longrightarrow> agg_reads req \<subseteq> set (oa_columns sel))"
| "field_ok infos N fr asts (Ref_Row fk batchable) =
     (length (fk_ref_columns fk) = length (fk_columns fk) \<and>
      (batchable \<longrightarrow> N (loader_key ''out'' (fk_name fk) []) = length (fk_columns fk)))"
| "field_ok infos N fr asts (Child_Rows fk batchable) =
     (length (fk_ref_columns fk) = length (fk_columns fk) \<and>
      (batchable \<longrightarrow> (\<forall>s. N (loader_key ''in'' (fk_name fk) s) = length (fk_columns fk)) \<and>
        (\<forall>child. gget infos (fk_table fk) = Some child \<longrightarrow> columns_readable child (fk_columns fk))))"
| "field_ok infos N fr asts r = True"

lemma after_arg_ok: "after_arg b ti shape args = Inr after \<Longrightarrow> \<forall>c. after = Some c \<longrightarrow> cond_ok c"
proof (intro allI impI)
  fix c
  assume "after_arg b ti shape args = Inr after" "after = Some c"
  then obtain a keys where a: "decode_cursor (b_stdlib b) a shape (length (tbl_pk (ti_table ti))) = Inr keys"
    "c = keyset_condition (tbl_pk (ti_table ti)) keys"
    by (auto simp: after_arg_def split: option.splits gval.splits if_splits)
  then have "length keys = length (tbl_pk (ti_table ti))"
    by (auto simp: decode_cursor_def split: option.splits if_splits)
  then show "cond_ok c" unfolding a(2) by (rule keyset_condition_ok)
qed

lemma by_pk_behind_guard:
  assumes "gget infos tn = Some ti" "views_wf infos"
  shows "by_pk_field b (behind_guard (role_read b infos idn) db) ti idn args = by_pk_field b db ti idn args"
  unfolding by_pk_field_def
  by (rule rbind_cong [OF refl]) (simp add: select_behind_guard [OF assms] pk_cond_ok)

lemma connection_behind_guard:
  assumes "gget infos tn = Some ti" "views_wf infos"
  shows "connection_field b (behind_guard (role_read b infos idn) db) ti idn args = connection_field b db ti idn args"
  unfolding connection_field_def Let_def
  by (intro rbind_cong [OF refl]) (simp add: keyset_behind_guard [OF assms after_arg_ok])

lemma metric_field_behind_guard:
  assumes "gget infos tn = Some ti" "views_wf infos"
    and "\<And>sel. ta_select (ti_access ti) = Some sel \<Longrightarrow> col \<in> set (oa_columns sel)"
  shows "nearest_field b (behind_guard (role_read b infos idn) db) ti idn col args = nearest_field b db ti idn col args"
  unfolding nearest_field_def Let_def
  by (auto simp: nearest_behind_guard [OF assms(1,2) metric_closed assms(3)] intro!: rbind_cong [OF refl] split: option.splits)

lemma query_root_behind_guard:
  assumes "views_wf infos" "field_ok infos N fr asts r"
  shows "query_root b infos (behind_guard (role_read b infos idn) db) idn args fr asts r = query_root b infos db idn args fr asts r"
proof (cases r)
  case (Aggregate_Of tn)
  then show ?thesis
    using assms(2) aggregate_behind_guard [OF _ assms(1)]
    by (cases "gget infos tn") (auto simp: query_root_def on_table_def aggregate_field_def intro!: option.map_cong)
next
  case (Nearest_Of tn c)
  then show ?thesis
    using assms(2) metric_field_behind_guard [OF _ assms(1), of tn _ c]
    by (cases "gget infos tn") (auto simp: query_root_def on_table_def)
qed (auto simp: query_root_def on_table_def by_pk_behind_guard [OF _ assms(1)] connection_behind_guard [OF _ assms(1)]
    split: option.splits)

section \<open>The loaders of a request behind a guard\<close>

text \<open>Two sets of loaders in the same state, whose batched queries agree on the batches they may get.\<close>

definition same_loaders :: "(string \<Rightarrow> nat) \<Rightarrow> loaders \<Rightarrow> loaders \<Rightarrow> bool" where
  "same_loaders N ls ls' \<longleftrightarrow>
     (\<forall>lk. (gget ls lk = None \<longleftrightarrow> gget ls' lk = None) \<and>
        (\<forall>fn l fn' l'. gget ls lk = Some (fn, l) \<longrightarrow> gget ls' lk = Some (fn', l') \<longrightarrow>
           l' = l \<and> on_keys (N lk) fn' = on_keys (N lk) fn \<and> (\<forall>k\<in>set (ld_pending l). length k = N lk)))"

lemma same_loaders_cases:
  assumes "same_loaders N ls ls'"
  obtains "gget ls lk = None" "gget ls' lk = None"
  | fn fn' l where "gget ls lk = Some (fn, l)" "gget ls' lk = Some (fn', l)" "on_keys (N lk) fn' = on_keys (N lk) fn"
      "\<forall>k\<in>set (ld_pending l). length k = N lk"
  using assms unfolding same_loaders_def by (metis not_None_eq surj_pair)

lemma same_loadersI:
  assumes "\<And>lk. (gget ls lk = None \<and> gget ls' lk = None) \<or>
    (\<exists>fn fn' l. gget ls lk = Some (fn, l) \<and> gget ls' lk = Some (fn', l) \<and> on_keys (N lk) fn' = on_keys (N lk) fn \<and>
       (\<forall>k\<in>set (ld_pending l). length k = N lk))"
  shows "same_loaders N ls ls'"
  unfolding same_loaders_def using assms by (metis option.distinct(1) option.inject prod.inject)

lemma enqueue_pending: "k \<in> set (ld_pending (enqueue sl key l)) \<Longrightarrow> k = key \<or> k \<in> set (ld_pending l)"
  by (auto simp: enqueue_def Let_def split: if_splits)

lemma register_same:
  assumes "same_loaders N ls ls'" "length key = N lk" "on_keys (N lk) fn' = on_keys (N lk) fn"
  shows "same_loaders N (register sl lk fn key ls) (register sl lk fn' key ls')"
proof (rule same_loadersI)
  fix lk0
  have new: "ld_pending new_loader = []" by (simp add: new_loader_def)
  show "(gget (register sl lk fn key ls) lk0 = None \<and> gget (register sl lk fn' key ls') lk0 = None) \<or>
    (\<exists>g g' l. gget (register sl lk fn key ls) lk0 = Some (g, l) \<and> gget (register sl lk fn' key ls') lk0 = Some (g', l) \<and>
       on_keys (N lk0) g' = on_keys (N lk0) g \<and> (\<forall>k\<in>set (ld_pending l). length k = N lk0))"
    using assms(1)
  proof (cases rule: same_loaders_cases [of _ _ _ lk0])
    case 1
    then show ?thesis using assms(2,3) by (auto simp: gget_register new dest!: enqueue_pending)
  next
    case (2 fn1 fn2 l)
    then show ?thesis using assms(2,3) by (auto simp: gget_register dest!: enqueue_pending)
  qed
qed

lemma force_same:
  assumes "same_loaders N ls ls'"
  shows "same_loaders N (fst (force sl lk key ls)) (fst (force sl lk key ls')) \<and>
    snd (force sl lk key ls) = snd (force sl lk key ls')"
  using assms
proof (cases rule: same_loaders_cases [of _ _ _ lk])
  case 1
  then show ?thesis using assms by (simp add: force_def)
next
  case (2 fn fn' l)
  have f: "fetch sl fn' key l = fetch sl fn key l"
    using fetch_on_keys [OF 2(4), of sl fn key] fetch_on_keys [OF 2(4), of sl fn' key] 2(3) by simp
  have "same_loaders N (fst (force sl lk key ls)) (fst (force sl lk key ls'))"
  proof (rule same_loadersI)
    fix lk0
    show "(gget (fst (force sl lk key ls)) lk0 = None \<and> gget (fst (force sl lk key ls')) lk0 = None) \<or>
      (\<exists>g g' l. gget (fst (force sl lk key ls)) lk0 = Some (g, l) \<and> gget (fst (force sl lk key ls')) lk0 = Some (g', l) \<and>
         on_keys (N lk0) g' = on_keys (N lk0) g \<and> (\<forall>k\<in>set (ld_pending l). length k = N lk0))"
      using assms
    proof (cases rule: same_loaders_cases [of _ _ _ lk0])
      case (2 g g' l0)
      then show ?thesis using f fetch_pending [of sl fn key l] \<open>gget ls lk = _\<close> \<open>gget ls' lk = _\<close>
          \<open>\<forall>k\<in>set (ld_pending l). length k = N lk\<close> \<open>on_keys (N lk) fn' = on_keys (N lk) fn\<close>
        by (auto simp: gget_force)
    qed (use \<open>gget ls lk = _\<close> \<open>gget ls' lk = _\<close> in \<open>auto simp: gget_force\<close>)
  qed
  moreover have "snd (force sl lk key ls) = snd (force sl lk key ls')"
    using 2(1,2) f by (simp add: force_def split: prod.splits)
  ultimately show ?thesis by blast
qed

lemma columns_equal_ok: "length key = length cols \<Longrightarrow> cond_ok (columns_equal cols key)"
  using sqlid.quoted_equalities [of cols] by (simp add: columns_equal_def cond_ok_def)

lemma resolve_ref_same:
  assumes "gget infos tn = Some target" "views_wf infos" "same_loaders N ls ls'"
    and "field_ok infos N fr asts (Ref_Row fk batchable)"
    and "db' = behind_guard (role_read b infos idn) db"
  shows "same_loaders N (fst (resolve_ref b db target idn fk batchable row ls)) (fst (resolve_ref b db' target idn fk batchable row ls')) \<and>
    snd (resolve_ref b db target idn fk batchable row ls) = snd (resolve_ref b db' target idn fk batchable row ls')"
proof (cases "parent_key (fk_columns fk) row")
  case None
  then show ?thesis using assms(3) by (simp add: resolve_ref_def)
next
  case (Some key)
  note len = parent_key_length [OF Some]
  show ?thesis
  proof (cases batchable)
    case False
    have "cond_ok (columns_equal (fk_ref_columns fk) key)" using assms(4) len by (intro columns_equal_ok) simp
    then show ?thesis
      using Some False assms(3) select_behind_guard [OF assms(1,2), of "Some (columns_equal (fk_ref_columns fk) key)"]
      by (simp add: resolve_ref_def assms(5))
  next
    case True
    let ?lk = "loader_key ''out'' (fk_name fk) []"
    have N: "N ?lk = length key" "length (fk_ref_columns fk) = length key" using assms(4) True len by simp_all
    have "on_keys (N ?lk) (ref_load b db' target idn fk) = on_keys (N ?lk) (ref_load b db target idn fk)"
      using keys_behind_guard [OF assms(1,2), of _ "fk_ref_columns fk" 0]
      by (auto simp: fun_eq_iff on_keys_def key_batch_def ref_load_def batch_fn_def assms(5) N)
    then show ?thesis
      using Some True N(1) register_same [OF assms(3)] by (simp add: resolve_ref_def Let_def)
  qed
qed

lemma resolve_children_same:
  assumes "gget infos (fk_table fk) = Some child" "views_wf infos" "same_loaders N ls ls'"
    and "field_ok infos N fr asts (Child_Rows fk batchable)"
    and "db' = behind_guard (role_read b infos idn) db"
  shows "same_loaders N (fst (resolve_children b db child idn fk batchable row args ls)) (fst (resolve_children b db' child idn fk batchable row args ls')) \<and>
    snd (resolve_children b db child idn fk batchable row args ls) = snd (resolve_children b db' child idn fk batchable row args ls')"
proof (cases "parent_key (fk_ref_columns fk) row")
  case None
  then show ?thesis using assms(3) by (simp add: resolve_children_def)
next
  case (Some key)
  have len: "length (fk_columns fk) = length key" using parent_key_length [OF Some] assms(4) by simp
  show ?thesis
  proof (cases batchable)
    case False
    have "cond_ok (columns_equal (fk_columns fk) key)" using len by (intro columns_equal_ok) simp
    then show ?thesis
      using Some False assms(3) select_behind_guard [OF assms(1,2), of "Some (columns_equal (fk_columns fk) key)"]
      by (simp add: resolve_children_def assms(5) Let_def)
  next
    case True
    let ?la = "extract_list_args args"
    let ?lk = "loader_key ''in'' (fk_name fk) (args_signature (b_stdlib b) ?la)"
    have N: "N ?lk = length key" "columns_readable child (fk_columns fk)" using assms(1,4) True len by simp_all
    have "on_keys (N ?lk) (children_load b db' child idn fk ?la n) = on_keys (N ?lk) (children_load b db child idn fk ?la n)" for n
      using keys_behind_guard [OF assms(1,2), of _ "fk_columns fk" n] N(2)
      by (auto simp: fun_eq_iff on_keys_def key_batch_def children_load_def batch_fn_def assms(5) N(1) len)
    then show ?thesis
      using Some True N(1) assms(3) register_same [OF assms(3)]
      by (auto simp: resolve_children_def Let_def split: sum.splits prod.splits)
  qed
qed

text \<open>One call.\<close>

definition same_ctx :: "(string \<Rightarrow> nat) \<Rightarrow> req_ctx \<Rightarrow> req_ctx \<Rightarrow> bool" where
  "same_ctx N cx cx' \<longleftrightarrow> cx_identity cx' = cx_identity cx \<and> same_loaders N (cx_loaders cx) (cx_loaders cx')"

definition same_outcome :: "(string \<Rightarrow> nat) \<Rightarrow> (req_ctx \<times> node res) \<Rightarrow> (req_ctx \<times> node res) \<Rightarrow> bool" where
  "same_outcome N x y \<longleftrightarrow> same_ctx N (fst x) (fst y) \<and> snd x = snd y"

lemma identity_from_same: "same_ctx N cx cx' \<Longrightarrow> identity_from cx' = identity_from cx"
  by (simp add: same_ctx_def identity_from_def)

lemma same_ctx_loaders:
  "same_ctx N cx cx' \<Longrightarrow> same_loaders N ls ls' \<Longrightarrow> same_ctx N (cx\<lparr>cx_loaders := ls\<rparr>) (cx'\<lparr>cx_loaders := ls'\<rparr>)"
  by (simp add: same_ctx_def)

lemma same_loaders_ctx: "same_ctx N cx cx' \<Longrightarrow> same_loaders N (cx_loaders cx) (cx_loaders cx')"
  by (simp add: same_ctx_def)

lemma row_field_same:
  assumes "same_ctx N cx cx'" "cx_identity cx = Some idn" "views_wf infos" "field_ok infos N fr asts r"
    and "db' = behind_guard (role_read b infos idn) db"
  shows "same_outcome N (row_field b infos db cx row args r) (row_field b infos db' cx' row args r)"
proof -
  have idn: "identity_from cx = Inr idn" "identity_from cx' = Inr idn"
    using assms(1,2) identity_from_same [OF assms(1)] by (simp_all add: identity_from_def)
  note ls = same_loaders_ctx [OF assms(1)]
  show ?thesis
  proof (cases r)
    case (Ref_Row fk batchable)
    then show ?thesis
      using assms(1) resolve_ref_same [OF _ assms(3) ls _ assms(5), of "fk_ref_table fk" _ fr asts fk batchable row] assms(4)
      by (cases "gget infos (fk_ref_table fk)")
        (auto simp: row_field_def idn same_outcome_def case_prod_beta intro!: same_ctx_loaders)
  next
    case (Child_Rows fk batchable)
    then show ?thesis
      using assms(1) resolve_children_same [OF _ assms(3) ls _ assms(5), of fk _ fr asts batchable row args] assms(4)
      by (cases "gget infos (fk_table fk)")
        (auto simp: row_field_def idn same_outcome_def case_prod_beta intro!: same_ctx_loaders)
  qed (use assms(1) in \<open>simp_all add: row_field_def same_outcome_def\<close>)
qed

lemma page_key_same:
  assumes "same_ctx N cx cx'" "cx_identity cx = Some idn" "views_wf infos"
  shows "page_key b infos (behind_guard (role_read b infos idn) db) cx' p tn w k = page_key b infos db cx p tn w k"
proof -
  have "identity_from cx' = Inr idn" "identity_from cx = Inr idn"
    using assms(1,2) by (simp_all add: identity_from_def same_ctx_def)
  then show ?thesis using count_behind_guard [OF _ assms(3), of tn] by (simp add: page_key_def split: option.splits)
qed

lemma force_thunk_same: "same_ctx N cx cx' \<Longrightarrow> same_outcome N (force_thunk b cx t) (force_thunk b cx' t)"
  using force_same [OF same_loaders_ctx, of N cx cx']
  by (cases t)
    (auto simp: force_thunk_def same_outcome_def force_ref_def force_children_def case_prod_beta intro!: same_ctx_loaders)

definition same_result :: "(string \<Rightarrow> nat) \<Rightarrow> (req_ctx \<times> node res) option \<Rightarrow> (req_ctx \<times> node res) option \<Rightarrow> bool" where
  "same_result N = rel_option (same_outcome N)"

lemma resolve_field_same:
  assumes "same_ctx N cx cx'" "cx_identity cx = Some idn" "views_wf infos" "field_ok infos N fr asts r"
    and "db' = behind_guard (role_read b infos idn) db"
  shows "same_result N (resolve_field b infos db cx src args fr asts r) (resolve_field b infos db' cx' src args fr asts r)"
proof -
  have idn: "identity_from cx = Inr idn" "identity_from cx' = Inr idn"
    using assms(1,2) by (simp_all add: identity_from_def same_ctx_def)
  show ?thesis
  proof (cases src)
    case Root
    then show ?thesis
      using query_root_behind_guard [OF assms(3,4), of b idn db args] assms(1)
      by (auto simp: resolve_field_def idn same_result_def same_outcome_def assms(5) option.rel_map intro!: option.rel_refl)
  next
    case (Row_Node row)
    then show ?thesis
      using row_field_same [OF assms, of row args] assms(1)
      by (auto simp: resolve_field_def same_result_def same_outcome_def split: resolver.splits)
  next
    case (Page_Node p tn w)
    then show ?thesis
      using page_key_same [OF assms(1-3)] assms(1)
      by (auto simp: resolve_field_def same_result_def same_outcome_def assms(5) split: resolver.splits)
  qed (use assms(1) in \<open>simp_all add: resolve_field_def same_result_def same_outcome_def split: resolver.split\<close>)
qed

fun call_ok :: "table_infos \<Rightarrow> (string \<Rightarrow> nat) \<Rightarrow> call \<Rightarrow> bool" where
  "call_ok infos N (Resolve src args fr asts r) = field_ok infos N fr asts r"
| "call_ok infos N (Force t) = True"

lemma run_call_same:
  assumes "same_ctx N cx cx'" "cx_identity cx = Some idn" "views_wf infos" "call_ok infos N c"
  shows "same_result N (run_call b infos db cx c) (run_call b infos (behind_guard (role_read b infos idn) db) cx' c)"
  using assms resolve_field_same [OF assms(1-3) _ refl] force_thunk_same [OF assms(1)]
  by (cases c) (simp_all add: run_call_def same_result_def)

lemma run_call_identity: "run_call b infos db cx c = Some (cx', a) \<Longrightarrow> cx_identity cx' = cx_identity cx"
  by (auto simp: run_call_def resolve_field_def row_field_def force_thunk_def Let_def
      split: call.splits node.splits resolver.splits sum.splits option.splits prod.splits)

lemma run_calls_same:
  assumes "same_ctx N cx cx'" "cx_identity cx = Some idn" "views_wf infos" "\<And>as c. ex as = Some c \<Longrightarrow> call_ok infos N c"
  shows "run_calls n b infos (behind_guard (role_read b infos idn) db) ex cx' as = run_calls n b infos db ex cx as"
  using assms(1,2)
proof (induction n arbitrary: cx cx' as)
  case (Suc n)
  show ?case
  proof (cases "ex as")
    case c: (Some c)
    let ?db' = "behind_guard (role_read b infos idn) db"
    from run_call_same [OF Suc.prems assms(3) assms(4) [OF c], of b db]
    show ?thesis unfolding same_result_def
    proof (cases rule: option.rel_cases)
      case None
      then show ?thesis by (simp add: c)
    next
      case (Some x y)
      obtain cx1 a cx2 where xy: "x = (cx1, a)" "y = (cx2, a)" "same_ctx N cx1 cx2"
        using Some(3) by (cases x; cases y) (auto simp: same_outcome_def)
      have "cx_identity cx1 = Some idn" using run_call_identity [of b infos db cx c cx1 a] Some(1) xy(1) Suc.prems(2) by simp
      then show ?thesis using Suc.IH [OF xy(3)] Some(1,2) xy by (simp add: c)
    qed
  qed simp
qed simp

text \<open>A request on acyclic fragments, which the validation gives, never hangs in a resolver.\<close>

fun call_acyclic :: "call \<Rightarrow> bool" where
  "call_acyclic (Resolve src args fr asts r) = acyclic (frag_edges fr)"
| "call_acyclic (Force t) = True"

lemma run_call_returns: "call_acyclic c \<Longrightarrow> run_call b infos db cx c \<noteq> None"
  using collect_agg_returns
  by (cases c)
    (auto simp: run_call_def resolve_field_def query_root_def on_table_def aggregate_field_def
      split: node.splits resolver.splits sum.splits option.splits)

lemma request_returns:
  assumes "\<And>as c. ex as = Some c \<Longrightarrow> call_acyclic c"
  shows "run_calls n b infos db ex cx as \<noteq> None"
proof (induction n arbitrary: cx as)
  case (Suc n)
  show ?case
  proof (cases "ex as")
    case (Some c)
    then show ?thesis using run_call_returns [OF assms [OF Some], of b infos db cx] Suc.IH by auto
  qed simp
qed simp

text \<open>C1: A request sees only what its role may read. Run any request, whatever resolvers the executor
  calls in whatever order, against the database or against the database behind a guard that refuses
  every statement except the role's own reads (the head of a read of one of the role's tables over
  columns it may select, from that table, with the role's row filter as a conjunct of the condition, as
  a closed text with its arguments bound): every answer is the same. So two databases that answer those
  statements alike cannot be told apart through the gateway.\<close>

theorem answers_behind_guard:
  assumes "views_wf infos" and "\<forall>as c. ex as = Some c \<longrightarrow> call_ok infos N c"
  shows "run_calls n b infos (behind_guard (role_read b infos idn) db) ex (with_identity idn (with_loaders cx)) [] =
      run_calls n b infos db ex (with_identity idn (with_loaders cx)) [] \<and>
    (\<forall>db'. (\<forall>q args. role_read b infos idn q args \<longrightarrow> db' q args = db q args) \<longrightarrow>
      run_calls n b infos db' ex (with_identity idn (with_loaders cx)) [] =
      run_calls n b infos db ex (with_identity idn (with_loaders cx)) [])"
proof -
  let ?cx = "with_identity idn (with_loaders cx)" and ?P = "role_read b infos idn"
  have cx: "same_ctx N ?cx ?cx" "cx_identity ?cx = Some idn"
    by (simp_all add: same_ctx_def with_identity_def with_loaders_def same_loaders_def)
  have run: "run_calls n b infos (behind_guard ?P db) ex ?cx [] = run_calls n b infos db ex ?cx []" for db
    using run_calls_same [OF cx assms(1), of ex] assms(2) by blast
  moreover have "behind_guard ?P db' = behind_guard ?P db" if "\<forall>q args. ?P q args \<longrightarrow> db' q args = db q args" for db'
    using that by (auto simp: behind_guard_def fun_eq_iff)
  ultimately show ?thesis by metis
qed

definition demo_views :: table_infos where
  "demo_views = [(''notes'', demo_child)]"

definition demo_executor :: executor where
  "demo_executor as =
     (case as of
        [] \<Rightarrow> Some (Resolve (Row_Node [(''id'', VInt64 1)]) demo_rel_args [] [] (Child_Rows demo_fk True))
      | [Inr t] \<Rightarrow> Some (Force t)
      | _ \<Rightarrow> None)"

lemma demo_executor_answers:
  "run_calls 3 demo_builder demo_views demo_keys_db demo_executor (with_identity demo_id (with_loaders no_context)) [] =
     Some [Inr (Thunk_Children demo_la (loader_key ''in'' ''fk_1'' (args_signature demo_stdlib demo_la)) [VInt64 1]),
       Inr (List_Node [Row_Node [(''id'', VInt64 12), (''owner'', VInt64 1)]])]"
proof -
  have sl: "b_stdlib demo_builder = demo_stdlib" by (simp add: demo_builder_def)
  let ?lk = "loader_key ''in'' ''fk_1'' (args_signature demo_stdlib demo_la)"
  let ?fn = "children_load demo_builder demo_keys_db demo_child demo_id demo_fk demo_la 2"
  let ?cx = "with_identity demo_id (with_loaders no_context)"
  let ?rows = "[[(''id'', VInt64 10), (''owner'', VInt64 1)], [(''id'', VInt64 12), (''owner'', VInt64 1)]]"
  have la: "extract_list_args demo_rel_args = demo_la" by code_simp
  have pb: "page_bounds demo_builder demo_la = Inr (1, 1)" by code_simp
  have w: "wrap64 2 = 2" by (simp add: wrap64_def)
  have "?fn [[VInt64 1]] = batch_fn demo_stdlib (windowed_query (\<lambda>_. None) demo_stdlib [''owner''] demo_children 2) [''owner''] [[VInt64 1]]"
    using demo_keys_db_answers [of "[[VInt64 1]]" demo_id]
    by (simp add: children_load_def batch_fn_def sl demo_fk_def demo_la_def order_items_def key_batch_def)
  also have "\<dots> = Inr [(key_sig demo_stdlib [VInt64 1], ?rows)]" by code_simp
  finally have fn: "?fn [[VInt64 1]] = Inr [(key_sig demo_stdlib [VInt64 1], ?rows)]" .
  have page: "apply_page demo_builder ?rows demo_la = Inr [[(''id'', VInt64 12), (''owner'', VInt64 1)]]" by code_simp
  let ?ls = "register demo_stdlib ?lk ?fn [VInt64 1] []"
  have "resolve_children demo_builder demo_keys_db demo_child demo_id demo_fk True [(''id'', VInt64 1)] demo_rel_args [] =
      (?ls, Deferred ?lk [VInt64 1])"
    by (simp add: resolve_children_def la pb w parent_key_def demo_fk_def row_key_def gidx_def Let_def sl)
  then have one: "run_call demo_builder demo_views demo_keys_db ?cx
      (Resolve (Row_Node [(''id'', VInt64 1)]) demo_rel_args [] [] (Child_Rows demo_fk True)) =
      Some (?cx\<lparr>cx_loaders := ?ls\<rparr>, Inr (Thunk_Children demo_la ?lk [VInt64 1]))"
    by (simp add: run_call_def resolve_field_def row_field_def identity_from_def with_identity_def with_loaders_def
        demo_views_def demo_fk_def children_node_def la)
  have "snd (force demo_stdlib ?lk [VInt64 1] ?ls) = Inr ?rows"
    by (simp add: force_def gget_register fetch_def enqueue_def new_loader_def Let_def fn add_groups_def group_at_def
        split: prod.splits)
  then have two: "\<exists>cx. run_call demo_builder demo_views demo_keys_db (?cx\<lparr>cx_loaders := ?ls\<rparr>)
      (Force (Thunk_Children demo_la ?lk [VInt64 1])) = Some (cx, Inr (rows_node [[(''id'', VInt64 12), (''owner'', VInt64 1)]]))"
    by (simp add: run_call_def force_thunk_def force_children_def case_prod_beta sl page rmap_def)
  show ?thesis
    using two by (auto simp: numeral_3_eq_3 demo_executor_def one rows_node_def)
qed

theorem answers_behind_guard_witness:
  "run_calls 3 demo_builder demo_views (behind_guard (role_read demo_builder demo_views demo_id) demo_keys_db) demo_executor
     (with_identity demo_id (with_loaders no_context)) [] =
   Some [Inr (Thunk_Children demo_la (loader_key ''in'' ''fk_1'' (args_signature demo_stdlib demo_la)) [VInt64 1]),
     Inr (List_Node [Row_Node [(''id'', VInt64 12), (''owner'', VInt64 1)]])]"
proof -
  have wf: "views_wf demo_views"
    by (auto simp: views_wf_def demo_views_def demo_child_def filters_wf_def demo_sel_def split: if_splits)
  have "call_ok demo_views (\<lambda>_. 1) c" if "demo_executor as = Some c" for as c
    using that
    by (auto simp: demo_executor_def demo_views_def demo_fk_def demo_child_def demo_sel_def columns_readable_def
        split: list.splits sum.splits if_splits)
  then show ?thesis
    using answers_behind_guard [of demo_views demo_executor "\<lambda>_. 1" 3 demo_builder demo_id demo_keys_db no_context] wf
      demo_executor_answers by simp
qed

section \<open>The schema gives the calls their form\<close>

text \<open>The fields of a role's schema meet what the guard needs. A foreign key fixes the number of columns
  of its loaders when no other constraint of another width has its name.\<close>

lemma search_field_ok:
  assumes "infos_ok cat acc infos" "catalog_ok cat" "resolver_granted cat acc (Nearest_Of n c)"
  shows "field_ok infos N fr asts (Nearest_Of n c)"
proof -
  obtain tn t ta oa where t: "access_table acc tn = Some ta" "gget (cat_tables cat) tn = Some t" "tbl_name t = n"
    "ta_select ta = Some oa" "c \<in> set (oa_columns oa)"
    using assms(3) by (auto simp: table_granted_def)
  have "tn = n" using assms(2) t(2,3) by (auto simp: catalog_ok_def tables_ok_def)
  moreover have "ti_access ti = ta" if "gget infos n = Some ti" for ti
    using assms(1) that t(1) \<open>tn = n\<close> unfolding infos_ok_def info_from_def by (metis new_info_simps(2) option.inject)
  ultimately show ?thesis using t(4,5) by simp
qed

definition arity_ok :: "(string \<Rightarrow> nat) \<Rightarrow> foreign_key \<Rightarrow> bool" where
  "arity_ok N fk \<longleftrightarrow> length (fk_ref_columns fk) = length (fk_columns fk) \<and>
     (\<forall>s. N (loader_key ''out'' (fk_name fk) s) = length (fk_columns fk) \<and>
          N (loader_key ''in'' (fk_name fk) s) = length (fk_columns fk))"

definition fields_ok :: "table_infos \<Rightarrow> (string \<Rightarrow> nat) \<Rightarrow> sel_set gmap \<Rightarrow> sel_set list \<Rightarrow> out_fields option \<Rightarrow> bool" where
  "fields_ok infos N fr asts ofs \<longleftrightarrow> (\<forall>fs x f. ofs = Some fs \<longrightarrow> gget fs x = Some f \<longrightarrow> field_ok infos N fr asts (f_resolve f))"

lemma add_ref_ok:
  "fields_ok infos N fr asts ofs \<Longrightarrow> arity_ok N fk \<Longrightarrow> fields_ok infos N fr asts (add_ref infos sel ofs fk)"
  by (cases ofs) (auto simp: add_ref_def fields_ok_def arity_ok_def split: option.splits if_splits)

lemma add_children_ok:
  "fields_ok infos N fr asts ofs \<Longrightarrow> arity_ok N fk \<Longrightarrow> fields_ok infos N fr asts (add_children infos sel ofs fk)"
  by (cases ofs) (auto simp: add_children_def fields_ok_def arity_ok_def selectable_def split: option.splits if_splits)

lemma foldl_keeps: "P a \<Longrightarrow> (\<And>a x. x \<in> set xs \<Longrightarrow> P a \<Longrightarrow> P (f a x)) \<Longrightarrow> P (foldl f a xs)"
  by (induction xs arbitrary: a) simp_all

lemma object_fields_ok:
  assumes "\<forall>fk\<in>set (tbl_fks (ti_table ti)) \<union> set (tbl_incoming (ti_table ti)). arity_ok N fk"
  shows "fields_ok infos N fr asts (object_fields infos ti sel)"
proof -
  let ?cols = "foldl (\<lambda>fs c. gput (field_of ti (col_name c)) (column_field c) fs) [] (oa_columns sel)"
  have "fields_ok infos N fr asts (Some ?cols)"
    by (auto simp: fields_ok_def column_field_def dest!: gget_foldl_gput)
  then have "fields_ok infos N fr asts (foldl (add_ref infos sel) (Some ?cols) (tbl_fks (ti_table ti)))"
    by (rule foldl_keeps [where P = "fields_ok infos N fr asts"]) (use assms in \<open>auto intro: add_ref_ok\<close>)
  then show ?thesis
    unfolding object_fields_def
    by (rule foldl_keeps [where P = "fields_ok infos N fr asts"]) (use assms in \<open>auto intro: add_children_ok\<close>)
qed

end
