(* ===== verification/Write_Resolvers.thy ===== *)
theory Write_Resolvers
  imports Resolvers
begin

text \<open>
  The resolvers of mutation fields (\<open>addMutationFields\<close> in \<open>schema/builder.go\<close>), put together as in
  \<open>Resolvers\<close>: a mutation request calls them one after the other, each on the state the one before
  left. The statements of a role's writes are described by \<open>role_write\<close>.
\<close>

section \<open>Mutation fields\<close>

definition affected_node :: "int \<Rightarrow> node" where
  "affected_node n = Row_Node [(''affected_rows'', VInt n)]"

definition mutation_root ::
    "builder \<Rightarrow> table_infos \<Rightarrow> 's sqldb \<Rightarrow> 's hooks option \<Rightarrow> identity \<Rightarrow> gval gmap \<Rightarrow> resolver \<Rightarrow> 's \<Rightarrow> 's \<times> node res" where
  "mutation_root b infos db hs idn args r s =
     (let at = (\<lambda>tn f. case gget infos tn of None \<Rightarrow> (s, Inl (Go_Panic ''nil table'')) | Some ti \<Rightarrow> f ti);
          affected = (\<lambda>x. case x of (s', r) \<Rightarrow> (s', rmap affected_node r));
          returning = (\<lambda>x. case x of (s', r) \<Rightarrow> (s', rmap row_node r))
      in case r of
           Insert_Many tn \<Rightarrow> at tn (\<lambda>ti. affected (insert_field b db hs ti idn args s))
         | Insert_One tn \<Rightarrow> at tn (\<lambda>ti. returning (insert_one_field b db hs ti idn args s))
         | Update_Many tn \<Rightarrow> at tn (\<lambda>ti. affected (update_field b db hs ti idn args s))
         | Update_One tn \<Rightarrow> at tn (\<lambda>ti. returning (update_by_pk_field b db hs ti idn args s))
         | Delete_Many tn \<Rightarrow> at tn (\<lambda>ti. affected (delete_field b db hs ti idn args s))
         | Delete_One tn \<Rightarrow> at tn (\<lambda>ti. returning (delete_by_pk_field b db hs ti idn args s))
         | _ \<Rightarrow> (s, no_resolver))"

text \<open>The root fields of one mutation request, one after the other: the executor picks the next from the
  answers so far (it may stop at an error), and each resolver takes the caller from the context first.\<close>

type_synonym mutation_executor = "node res list \<Rightarrow> (gval gmap \<times> resolver) option"

fun run_mutations ::
    "nat \<Rightarrow> builder \<Rightarrow> table_infos \<Rightarrow> 's sqldb \<Rightarrow> 's hooks option \<Rightarrow> mutation_executor \<Rightarrow> req_ctx \<Rightarrow> node res list \<Rightarrow> 's
      \<Rightarrow> 's \<times> node res list" where
  "run_mutations 0 b infos db hs ex cx as s = (s, as)"
| "run_mutations (Suc n) b infos db hs ex cx as s =
     (case ex as of
        None \<Rightarrow> (s, as)
      | Some (args, r) \<Rightarrow>
          (case (case identity_from cx of Inl e \<Rightarrow> (s, Inl e) | Inr idn \<Rightarrow> mutation_root b infos db hs idn args r s) of
             (s', a) \<Rightarrow> run_mutations n b infos db hs ex cx (as @ [a]) s'))"

section \<open>What a role writes\<close>

text \<open>The columns and values of a write: presets have the values of the caller and are never left out,
  everything else is a column the operation covers.\<close>

definition confined :: "table_info \<Rightarrow> op_access \<Rightarrow> identity \<Rightarrow> column list \<Rightarrow> gval list \<Rightarrow> bool" where
  "confined ti oa idn cols vals \<longleftrightarrow>
     length vals = length cols \<and> set cols \<subseteq> set (tbl_columns (ti_table ti)) \<and>
     (\<forall>i<length cols. if col_name (cols ! i) \<in> preset_columns oa then by_preset oa idn (col_name (cols ! i)) (vals ! i)
        else col_name (cols ! i) \<in> oa_colset oa) \<and>
     (\<forall>c\<in>set (tbl_columns (ti_table ti)). col_name c \<in> preset_columns oa \<longrightarrow> c \<in> set cols)"

definition assignments :: "column list \<Rightarrow> string" where
  "assignments cols = join '', '' (map (\<lambda>c. quote_ident (col_name c) @ '' = ?'') cols)"

definition insert_write :: "builder \<Rightarrow> table_info \<Rightarrow> identity \<Rightarrow> string \<Rightarrow> gval list \<Rightarrow> bool" where
  "insert_write b ti idn q args \<longleftrightarrow>
     (\<exists>oa cols vals. ta_insert (ti_access ti) = Some oa \<and> confined ti oa idn cols vals \<and>
        (q, args) = insert_stmt b ti (cols, vals))"

definition update_write :: "builder \<Rightarrow> table_info \<Rightarrow> identity \<Rightarrow> string \<Rightarrow> gval list \<Rightarrow> bool" where
  "update_write b ti idn q args \<longleftrightarrow>
     (\<exists>oa cols vals cargs rest. ta_update (ti_access ti) = Some oa \<and> guarded oa idn q args \<and> confined ti oa idn cols vals \<and>
        q = ''UPDATE '' @ qualified_table b (ti_table ti) @ '' SET '' @ assignments cols @ '' WHERE '' @ rest \<and>
        args = vals @ cargs)"

definition delete_write :: "builder \<Rightarrow> table_info \<Rightarrow> identity \<Rightarrow> string \<Rightarrow> gval list \<Rightarrow> bool" where
  "delete_write b ti idn q args \<longleftrightarrow>
     (\<exists>oa rest. ta_delete (ti_access ti) = Some oa \<and> guarded oa idn q args \<and>
        q = ''DELETE FROM '' @ qualified_table b (ti_table ti) @ '' WHERE '' @ rest)"

definition role_write :: "builder \<Rightarrow> table_infos \<Rightarrow> identity \<Rightarrow> string \<Rightarrow> gval list \<Rightarrow> bool" where
  "role_write b infos idn q args \<longleftrightarrow>
     (\<exists>tn ti. gget infos tn = Some ti \<and> (insert_write b ti idn q args \<or> update_write b ti idn q args \<or> delete_write b ti idn q args))"

text \<open>A database behind two guards, one for queries and one for statements that change it.\<close>

definition db_behind_guard ::
    "(string \<Rightarrow> gval list \<Rightarrow> bool) \<Rightarrow> (string \<Rightarrow> gval list \<Rightarrow> bool) \<Rightarrow> 's sqldb \<Rightarrow> 's sqldb" where
  "db_behind_guard R W db = db\<lparr>d_query := \<lambda>s. behind_guard R (d_query db s),
     d_exec := \<lambda>s q args. if W q args then d_exec db s q args else (s, Inl (Ext_Error ''statement refused''))\<rparr>"

definition writes_wf :: "table_infos \<Rightarrow> bool" where
  "writes_wf infos \<longleftrightarrow> views_wf infos \<and> (\<forall>tn ti oa. gget infos tn = Some ti \<longrightarrow>
     ta_update (ti_access ti) = Some oa \<or> ta_delete (ti_access ti) = Some oa \<longrightarrow> filters_wf oa)"

lemma write_values_confined:
  assumes "write_values b ti oa obj idn cols vals"
  shows "confined ti oa idn cols vals"
proof -
  obtain m where m: "by_col b ti oa obj idn = Inr m" "cols = written_columns ti m" "vals = map (\<lambda>c. gidx m (col_name c)) cols"
    using write_values_by_col [OF assms] by blast
  have "if n \<in> preset_columns oa then by_preset oa idn n (gidx m n) else n \<in> oa_colset oa" if "gget m n \<noteq> None" for n
    using that by_col_entry(1) [OF m(1), of n] by (auto simp: gidx_def by_client_def split: if_splits)
  then have "\<forall>i<length cols. if col_name (cols ! i) \<in> preset_columns oa then by_preset oa idn (col_name (cols ! i)) (vals ! i)
      else col_name (cols ! i) \<in> oa_colset oa"
    using nth_mem [of _ cols] by (auto simp: m(2,3) written_columns_def)
  then show ?thesis
    using by_col_entry(2) [OF m(1)] unfolding confined_def by (auto simp: m(2,3) written_columns_def)
qed

lemma merged_insert_write:
  assumes "ta_insert (ti_access ti) = Some oa" "merge_object b ti oa idn item = Inr m"
  shows "insert_write b ti idn (fst (insert_stmt b ti m)) (snd (insert_stmt b ti m))"
proof -
  obtain obj where "merged_row_values b ti oa obj idn = Inr m"
    using assms(2) by (cases item) (auto simp: merge_object_def split: if_splits)
  then have "confined ti oa idn (fst m) (snd m)"
    by (intro write_values_confined [of b ti oa obj]) (simp add: write_values_def)
  then show ?thesis using assms(1) unfolding insert_write_def by (metis prod.collapse)
qed

lemma update_stmt_write:
  assumes "ta_update (ti_access ti) = Some oa" "filters_wf oa" "\<forall>c. w = Some c \<longrightarrow> cond_ok c"
    and "update_stmt b ti oa idn set_values w = Inr (q, args, m)"
  shows "update_write b ti idn q args"
proof -
  obtain st sargs fc where u: "set_clause b ti oa set_values idn = Inr (st, sargs, m)" "rbac_cond oa idn = Inr fc"
    "q = ''UPDATE '' @ qualified_table b (ti_table ti) @ '' SET '' @ st @ '' WHERE '' @ c_sql (combine_conds [w, fc])"
    "args = sargs @ c_args (combine_conds [w, fc])"
    using assms(4) by (auto simp: update_stmt_def Let_def)
  have "confined ti oa idn (written_columns ti m) sargs"
    using u(1) by (intro write_values_confined [of b ti oa set_values]) (auto simp: write_values_def)
  moreover have "st = assignments (written_columns ti m)"
    using u(1) by (auto simp: set_clause_def assignments_def split: if_splits)
  ultimately show ?thesis
    using assms(1) u(3,4) update_guarded [OF assms(2,3,4)] unfolding update_write_def by blast
qed

lemma delete_stmt_write:
  assumes "ta_delete (ti_access ti) = Some oa" "filters_wf oa" "\<forall>c. w = Some c \<longrightarrow> cond_ok c"
    and "delete_stmt b ti oa idn w = Inr (q, args)"
  shows "delete_write b ti idn q args"
proof -
  have "\<exists>rest. q = ''DELETE FROM '' @ qualified_table b (ti_table ti) @ '' WHERE '' @ rest"
    using assms(4) by (auto simp: delete_stmt_def Let_def)
  then show ?thesis using assms(1) delete_guarded [OF assms(2,3,4)] unfolding delete_write_def by blast
qed

text \<open>The views of a role are such views when its row filters are closed texts.\<close>

definition access_wf :: "access \<Rightarrow> bool" where
  "access_wf acc \<longleftrightarrow> (\<forall>tn ta op oa. access_table acc tn = Some ta \<longrightarrow> granted ta op = Some oa \<longrightarrow> filters_wf oa)"

lemma role_views_wf:
  assumes "infos_ok cat acc infos" "access_wf acc"
  shows "writes_wf infos"
proof -
  have wf: "filters_wf oa" if ti: "gget infos tn = Some ti" and op: "granted (ti_access ti) op = Some oa" for tn ti op oa
  proof -
    obtain t ta where "access_table acc tn = Some ta" "ti = new_table_info tn t ta"
      using assms(1) ti unfolding infos_ok_def info_from_def by blast
    then show ?thesis using assms(2) op unfolding access_wf_def by simp
  qed
  show ?thesis
    using wf [of _ _ "''select''"] wf [of _ _ "''update''"] wf [of _ _ "''delete''"]
    by (simp add: writes_wf_def views_wf_def granted_def)
qed

section \<open>Writes behind a guard\<close>

lemma guard_fields [simp]:
  "d_begin (db_behind_guard R W db) = d_begin db" "d_commit (db_behind_guard R W db) = d_commit db"
  "d_query (db_behind_guard R W db) s = behind_guard R (d_query db s)"
  by (simp_all add: db_behind_guard_def)

lemma exec_stmt_guard: "W (fst st) (snd st) \<Longrightarrow> exec_stmt b (db_behind_guard R W db) s st = exec_stmt b db s st"
  by (simp add: exec_stmt_def db_behind_guard_def)

lemma exec_all_guard:
  "\<forall>st\<in>set sts. W (fst st) (snd st) \<Longrightarrow> exec_all b (db_behind_guard R W db) s sts n i = exec_all b db s sts n i"
  by (induction b db s sts n i rule: exec_all.induct)
    (auto simp: exec_stmt_guard tx_bind_def split: prod.splits sum.splits)

lemma exec_in_tx_guard: "exec_in_tx b (db_behind_guard R W db) s fn = exec_in_tx b db s fn"
  unfolding exec_in_tx_def guard_fields ..

lemma tx_body_guard: "W (fst st) (snd st) \<Longrightarrow> tx_body b (db_behind_guard R W db) hs ev st = tx_body b db hs ev st"
  by (auto simp: fun_eq_iff tx_body_def exec_stmt_guard)

lemma insert_behind_guard:
  assumes "gget infos tn = Some ti"
  shows "run_insert b (db_behind_guard R (role_write b infos idn) db) hs ti idn objects s = run_insert b db hs ti idn objects s"
proof (cases "ta_insert (ti_access ti)")
  case (Some oa)
  have "\<forall>st\<in>set (map (insert_stmt b ti) ms). role_write b infos idn (fst st) (snd st)"
    if ms: "mapr (merge_object b ti oa idn) objects = Inr ms" for ms
  proof
    fix st
    assume "st \<in> set (map (insert_stmt b ti) ms)"
    then obtain m where m: "m \<in> set ms" "st = insert_stmt b ti m" by auto
    then obtain item where "merge_object b ti oa idn item = Inr m" using mapr_in [OF ms] by blast
    from merged_insert_write [OF Some this] show "role_write b infos idn (fst st) (snd st)"
      using assms m(2) unfolding role_write_def by blast
  qed
  then show ?thesis
    by (simp add: run_insert_def Some exec_in_tx_guard exec_all_guard split: sum.split)
qed (simp add: run_insert_def)

lemma writes_wfD:
  assumes "writes_wf infos" "gget infos tn = Some ti"
  shows "ta_update (ti_access ti) = Some oa \<Longrightarrow> filters_wf oa" "ta_delete (ti_access ti) = Some oa \<Longrightarrow> filters_wf oa"
    "views_wf infos"
  using assms unfolding writes_wf_def by blast+

lemma update_behind_guard:
  assumes "gget infos tn = Some ti" "writes_wf infos" "\<forall>c. w = Some c \<longrightarrow> cond_ok c"
  shows "run_update b (db_behind_guard R (role_write b infos idn) db) hs ti idn vs w s = run_update b db hs ti idn vs w s"
proof (cases "ta_update (ti_access ti)")
  case (Some oa)
  have "role_write b infos idn q args" if "update_stmt b ti oa idn vs w = Inr (q, args, m)" for q args m
    using update_stmt_write [OF Some writes_wfD(1) [OF assms(2,1) Some] assms(3) that] assms(1) unfolding role_write_def by blast
  then show ?thesis by (auto simp: run_update_def Some exec_in_tx_guard tx_body_guard split: sum.split prod.split)
qed (simp add: run_update_def)

lemma delete_behind_guard:
  assumes "gget infos tn = Some ti" "writes_wf infos" "\<forall>c. w = Some c \<longrightarrow> cond_ok c"
  shows "run_delete b (db_behind_guard R (role_write b infos idn) db) hs ti idn w s = run_delete b db hs ti idn w s"
proof (cases "ta_delete (ti_access ti)")
  case (Some oa)
  have "role_write b infos idn q args" if "delete_stmt b ti oa idn w = Inr (q, args)" for q args
    using delete_stmt_write [OF Some writes_wfD(2) [OF assms(2,1) Some] assms(3) that] assms(1) unfolding role_write_def by blast
  then show ?thesis by (auto simp: run_delete_def Some exec_in_tx_guard tx_body_guard split: sum.split)
qed (simp add: run_delete_def)

section \<open>Mutation fields behind a guard\<close>

lemma inserted_pk_cond_ok: "inserted_pk_cond ti last_id values = Some c \<Longrightarrow> cond_ok c"
  using sqlid.quoted_equalities [of "[n]" for n] sqlid.quoted_equalities [of "tbl_pk (ti_table ti)"]
  by (auto simp: inserted_pk_cond_def Let_def cond_ok_def split: option.splits if_splits list.splits)

abbreviation role_db :: "builder \<Rightarrow> table_infos \<Rightarrow> identity \<Rightarrow> 's sqldb \<Rightarrow> 's sqldb" where
  "role_db b infos idn db \<equiv> db_behind_guard (role_read b infos idn) (role_write b infos idn) db"

lemma row_read_guard:
  assumes "gget infos tn = Some ti" "writes_wf infos" "cond_ok c"
  shows "run_select b (behind_guard (role_read b infos idn) qdb) ti idn la (Some c) single = run_select b qdb ti idn la (Some c) single"
  using select_behind_guard [OF assms(1) writes_wfD(3) [OF assms(2,1)]] assms(3) by simp

lemma insert_one_guard:
  assumes "gget infos tn = Some ti" "writes_wf infos"
  shows "insert_one_field b (role_db b infos idn db) hs ti idn args s = insert_one_field b db hs ti idn args s"
  unfolding insert_one_field_def insert_behind_guard [OF assms(1)] guard_fields
  using row_read_guard [OF assms] inserted_pk_cond_ok by (auto split: prod.splits sum.splits option.splits)

lemma where_sql_ok: "where_sql b ti w = Inr c \<Longrightarrow> cond_ok c"
  using user_cond_ok [of b ti "Some w" c] by (simp add: user_cond_def)

lemma row_write_guard:
  assumes "gget infos tn = Some ti" "writes_wf infos" "cond_ok c"
  shows "run_update b (db_behind_guard R (role_write b infos idn) db) hs ti idn vs (Some c) s = run_update b db hs ti idn vs (Some c) s"
    and "run_delete b (db_behind_guard R (role_write b infos idn) db) hs ti idn (Some c) s = run_delete b db hs ti idn (Some c) s"
  by (rule update_behind_guard [OF assms(1,2)], use assms(3) in simp, rule delete_behind_guard [OF assms(1,2)], use assms(3) in simp)

lemma update_field_guard:
  assumes "gget infos tn = Some ti" "writes_wf infos"
  shows "update_field b (role_db b infos idn db) hs ti idn args s = update_field b db hs ti idn args s"
  by (cases "where_sql b ti (arg_map args ''where'')")
    (simp_all add: update_field_def row_write_guard [OF assms] where_sql_ok)

lemma update_by_pk_guard:
  assumes "gget infos tn = Some ti" "writes_wf infos"
  shows "update_by_pk_field b (role_db b infos idn db) hs ti idn args s = update_by_pk_field b db hs ti idn args s"
  by (cases "pk_cond b ti args")
    (simp_all add: update_by_pk_field_def row_write_guard [OF assms pk_cond_ok] row_read_guard [OF assms pk_cond_ok]
      split: prod.split sum.split)

lemma delete_read_ok:
  assumes "filters_wf oa" "rbac_cond oa idn = Inr dc" "cond_ok c"
  shows "cond_ok (combine_conds [Some c, dc])"
  using rbac_cond_ok [OF assms(1)] assms(2,3) by (intro combine_ok) auto

lemma delete_field_guard:
  assumes "gget infos tn = Some ti" "writes_wf infos"
  shows "delete_field b (role_db b infos idn db) hs ti idn args s = delete_field b db hs ti idn args s"
  by (cases "where_sql b ti (arg_map args ''where'')")
    (simp_all add: delete_field_def row_write_guard [OF assms] where_sql_ok)

lemma delete_by_pk_guard:
  assumes "gget infos tn = Some ti" "writes_wf infos"
  shows "delete_by_pk_field b (role_db b infos idn db) hs ti idn args s = delete_by_pk_field b db hs ti idn args s"
proof (cases "pk_cond b ti args")
  case pk: (Inr c)
  show ?thesis
  proof (cases "ta_delete (ti_access ti)")
    case (Some oa)
    have "rbind (rbac_cond oa idn) (\<lambda>dc. run_select b (behind_guard (role_read b infos idn) (d_query db s)) ti idn no_args
          (Some (combine_conds [Some c, dc])) True) =
        rbind (rbac_cond oa idn) (\<lambda>dc. run_select b (d_query db s) ti idn no_args (Some (combine_conds [Some c, dc])) True)"
      by (rule rbind_cong [OF refl])
        (rule row_read_guard [OF assms delete_read_ok [OF writes_wfD(2) [OF assms(2,1) Some] _ pk_cond_ok [OF pk]]])
    then show ?thesis
      unfolding delete_by_pk_field_def guard_fields by (simp only: pk Some sum.case option.case row_write_guard [OF assms pk_cond_ok [OF pk]])
  qed (simp add: delete_by_pk_field_def pk)
qed (simp add: delete_by_pk_field_def)

lemma mutation_root_guard:
  assumes "writes_wf infos"
  shows "mutation_root b infos (role_db b infos idn db) hs idn args r s = mutation_root b infos db hs idn args r s"
  by (cases r)
    (simp_all add: mutation_root_def insert_field_def insert_behind_guard insert_one_guard [OF _ assms]
      update_field_guard [OF _ assms] update_by_pk_guard [OF _ assms] delete_field_guard [OF _ assms] delete_by_pk_guard [OF _ assms] split: option.split)

text \<open>C2: A mutation request writes only what its role may write. Run any sequence of mutation fields
  against the database or against the same database behind two guards, one that lets only the role's
  reads through and one that lets only its writes through: inserts into its tables and updates of
  them in which every preset column has the caller's preset value and every other column is one the
  operation covers, and updates and deletes with the operation's row filter as a conjunct of the
  condition. Final state and answers are the same, so the gateway sends no other statement.\<close>

theorem mutations_behind_guard:
  assumes "writes_wf infos"
  shows "run_mutations n b infos (db_behind_guard (role_read b infos idn) (role_write b infos idn) db) hs ex
      (with_identity idn cx) [] s =
    run_mutations n b infos db hs ex (with_identity idn cx) [] s"
proof -
  have idn: "identity_from (with_identity idn cx) = Inr idn" by (simp add: identity_from_def with_identity_def)
  have "run_mutations n b infos (role_db b infos idn db) hs ex (with_identity idn cx) as s =
      run_mutations n b infos db hs ex (with_identity idn cx) as s" for as
    by (induction n arbitrary: as s) (simp_all add: idn mutation_root_guard [OF assms] split: option.split prod.split)
  then show ?thesis .
qed

text \<open>A database that records each statement it runs.\<close>

definition log_db :: "(string \<times> gval list) list sqldb" where
  "log_db = \<lparr>d_query = (\<lambda>s q args. Inr []), d_begin = (\<lambda>s. None),
     d_exec = (\<lambda>s q args. (s @ [(q, args)], Inr (1, 7))), d_commit = (\<lambda>s. None)\<rparr>"

definition demo_write_views :: table_infos where
  "demo_write_views = [(''notes'', demo_info)]"

definition demo_mutations :: mutation_executor where
  "demo_mutations as =
     (case as of
        [] \<Rightarrow> Some ([(''objects'', VList [VMap [(''id'', VInt64 1)]])], Insert_Many ''notes'')
      | _ \<Rightarrow> None)"

theorem mutations_behind_guard_witness:
  "run_mutations 2 demo_builder demo_write_views
     (db_behind_guard (role_read demo_builder demo_write_views demo_id) (role_write demo_builder demo_write_views demo_id) log_db)
     None demo_mutations (with_identity demo_id no_context) [] [] =
   ([(''INSERT INTO `app`.`notes` (`id`, `owner`) VALUES (?, ?)'', [VInt64 1, VStr ''u1''])], [Inr (affected_node 1)])"
proof -
  have "writes_wf demo_write_views"
    by (auto simp: writes_wf_def views_wf_def demo_write_views_def demo_info_def filters_wf_def demo_op_def filter_wf_def
        code_step_def split: if_splits)
  moreover have "run_mutations 2 demo_builder demo_write_views log_db None demo_mutations (with_identity demo_id no_context) [] [] =
      ([(''INSERT INTO `app`.`notes` (`id`, `owner`) VALUES (?, ?)'', [VInt64 1, VStr ''u1''])], [Inr (affected_node 1)])"
    by code_simp
  ultimately show ?thesis by (simp add: mutations_behind_guard)
qed

end
