(* ===== verification/Hook_Wiring.thy ===== *)
theory Hook_Wiring
  imports Mutations Schema_Build
begin

text \<open>
  The registry that hook files fill (\<open>register/register.go\<close>) and the wiring of the configured hook
  names and custom fields to it (\<open>buildHooks\<close> in \<open>options.go\<close>). The registry is used under its mutex,
  so each operation is one step; a second registration of a name panics.
\<close>

section \<open>The registry\<close>

record ('h, 'c) registry =
  rg_hooks :: "'h hook gmap"
  rg_fields :: "custom_field list"
  rg_resolver :: "'c option"

definition empty_registry :: "('h, 'c) registry" where
  "empty_registry = \<lparr>rg_hooks = [], rg_fields = [], rg_resolver = None\<rparr>"

definition register_hook :: "string \<Rightarrow> 'h hook \<Rightarrow> ('h, 'c) registry \<Rightarrow> ('h, 'c) registry res" where
  "register_hook name fn rg =
     (if gget (rg_hooks rg) name \<noteq> None then Inl (Go_Panic ''mutation hook registered twice'')
      else Inr (rg\<lparr>rg_hooks := gput name fn (rg_hooks rg)\<rparr>))"

definition register_field :: "custom_field \<Rightarrow> ('h, 'c) registry \<Rightarrow> ('h, 'c) registry" where
  "register_field cf rg = rg\<lparr>rg_fields := rg_fields rg @ [cf]\<rparr>"

definition register_resolver :: "'c \<Rightarrow> ('h, 'c) registry \<Rightarrow> ('h, 'c) registry res" where
  "register_resolver fn rg =
     (if rg_resolver rg \<noteq> None then Inl (Go_Panic ''role resolver registered twice'')
      else Inr (rg\<lparr>rg_resolver := Some fn\<rparr>))"

definition registered :: "('h, 'c) registry \<Rightarrow> 'h hook gmap \<times> custom_field list \<times> 'c option" where
  "registered rg = (foldl (\<lambda>m (k, v). gput k v m) [] (rg_hooks rg), rg_fields rg, rg_resolver rg)"

section \<open>Wiring\<close>

fun add_names :: "'h hook gmap \<Rightarrow> string \<Rightarrow> string \<Rightarrow> string \<Rightarrow> 'h hook list gmap \<Rightarrow> string list \<Rightarrow> 'h hook list gmap res" where
  "add_names reg table timing key dst [] = Inr dst"
| "add_names reg table timing key dst (n # ns) =
     (case gget reg n of
        None \<Rightarrow> Inl (Hook_Err (Unknown_Hook table timing n))
      | Some fn \<Rightarrow> add_names reg table timing key (gput key (hooks_at dst key @ [fn]) dst) ns)"

text \<open>The rows of \<open>specs\<close>; the flag is the destination, true for \<open>before\<close>.\<close>

type_synonym hook_spec = "mutation_op \<times> string list \<times> bool \<times> string"

definition hook_specs :: "table_hooks \<Rightarrow> hook_spec list" where
  "hook_specs th =
     [(Op_Insert, th_before_insert th, True, ''before_insert''), (Op_Insert, th_after_insert th, False, ''after_insert''),
      (Op_Update, th_before_update th, True, ''before_update''), (Op_Update, th_after_update th, False, ''after_update''),
      (Op_Delete, th_before_delete th, True, ''before_delete''), (Op_Delete, th_after_delete th, False, ''after_delete'')]"

type_synonym 'h wired = "'h hook list gmap \<times> 'h hook list gmap"

fun wire_specs :: "'h hook gmap \<Rightarrow> string \<Rightarrow> hook_spec list \<Rightarrow> 'h wired \<Rightarrow> 'h wired res" where
  "wire_specs reg table [] ba = Inr ba"
| "wire_specs reg table ((op, names, is_before, timing) # ss) (bf, af) =
     (if is_before
      then rbind (add_names reg table timing (hook_key table op) bf names) (\<lambda>bf'. wire_specs reg table ss (bf', af))
      else rbind (add_names reg table timing (hook_key table op) af names) (\<lambda>af'. wire_specs reg table ss (bf, af')))"

fun wire_tables :: "'h hook gmap \<Rightarrow> table_hooks option gmap \<Rightarrow> 'h wired \<Rightarrow> 'h wired res" where
  "wire_tables reg [] ba = Inr ba"
| "wire_tables reg ((table, None) # ts) ba = wire_tables reg ts ba"
| "wire_tables reg ((table, Some th) # ts) ba = rbind (wire_specs reg table (hook_specs th) ba) (wire_tables reg ts)"

fun known_roles :: "config \<Rightarrow> string \<Rightarrow> string list \<Rightarrow> unit res" where
  "known_roles cfg name [] = Inr ()"
| "known_roles cfg name (r # rs) =
     (if gget (cfg_roles cfg) r = None then Inl (Hook_Err (Custom_Unknown_Role name r)) else known_roles cfg name rs)"

definition validate_custom_field :: "config \<Rightarrow> string \<Rightarrow> string \<Rightarrow> string list \<Rightarrow> unit res" where
  "validate_custom_field cfg name operation roles =
     (if operation \<noteq> ''query'' \<and> operation \<noteq> ''mutation'' then Inl (Hook_Err (Bad_Custom_Operation name operation))
      else known_roles cfg name roles)"

fun validate_fields :: "config \<Rightarrow> custom_field list \<Rightarrow> unit res" where
  "validate_fields cfg [] = Inr ()"
| "validate_fields cfg (cf # cfs) =
     rbind (validate_custom_field cfg (cf_name cf) (cf_operation cf) (cf_roles cf)) (\<lambda>_. validate_fields cfg cfs)"

definition build_hooks :: "config \<Rightarrow> ('h, 'c) registry \<Rightarrow> ('h hooks \<times> custom_field list) res" where
  "build_hooks cfg rg =
     (case registered rg of
        (hs, flds, _) \<Rightarrow>
          rbind (wire_tables hs (cfg_hooks cfg) ([], [])) (\<lambda>(bf, af).
          rbind (validate_fields cfg flds) (\<lambda>_.
            Inr (\<lparr>h_before = bf, h_after = af\<rparr>, flds))))"

section \<open>What is wired\<close>

lemma hook_key_inj: "hook_key t op = hook_key t' op' \<longleftrightarrow> t = t' \<and> op = op'"
proof
  assume k: "hook_key t op = hook_key t' op'"
  have tail: "takeWhile (\<lambda>c. c \<noteq> CHR 0x00) (rev (hook_key t op)) = rev (op_name op)" for t op
    by (cases op) (simp_all add: hook_key_def op_name_def)
  have "rev (op_name op) = rev (op_name op')" using tail k by metis
  then have "op = op'" by (cases op; cases op') (simp_all add: op_name_def)
  then show "t = t' \<and> op = op'" using k by (simp add: hook_key_def)
qed simp

abbreviation hook_fns :: "'h hook gmap \<Rightarrow> string list \<Rightarrow> 'h hook list" where
  "hook_fns reg ns \<equiv> map (\<lambda>n. the (gget reg n)) ns"

fun_cases add_names_ConsE: "add_names reg table timing key dst (n # ns) = Inr dst'"

lemma add_names_ok:
  "add_names reg table timing key dst ns = Inr dst' \<Longrightarrow>
     set ns \<subseteq> dom (gget reg) \<and> hooks_at dst' k = hooks_at dst k @ (if k = key then hook_fns reg ns else [])"
proof (induction ns arbitrary: dst)
  case (Cons n ns)
  then obtain fn where fn: "gget reg n = Some fn"
    "add_names reg table timing key (gput key (hooks_at dst key @ [fn]) dst) ns = Inr dst'"
    by (auto elim!: add_names_ConsE split: option.splits)
  from Cons.IH [OF fn(2)] fn(1) show ?case by (auto simp: hooks_at_def)
qed simp

definition spec_names :: "bool \<Rightarrow> string \<Rightarrow> string \<Rightarrow> hook_spec list \<Rightarrow> string list" where
  "spec_names b table k ss = concat (map (\<lambda>(op, ns, b', _). if b' = b \<and> hook_key table op = k then ns else []) ss)"

lemma wire_specs_ok:
  "wire_specs reg table ss (bf, af) = Inr (bf', af') \<Longrightarrow>
     (\<forall>(op, ns, b, tm)\<in>set ss. set ns \<subseteq> dom (gget reg)) \<and>
     hooks_at bf' k = hooks_at bf k @ hook_fns reg (spec_names True table k ss) \<and>
     hooks_at af' k = hooks_at af k @ hook_fns reg (spec_names False table k ss)"
proof (induction reg table ss "(bf, af)" arbitrary: bf af rule: wire_specs.induct)
  case (2 reg table op names is_before timing ss bf af)
  show ?case
  proof (cases is_before)
    case True
    then obtain b1 where b1: "add_names reg table timing (hook_key table op) bf names = Inr b1"
      "wire_specs reg table ss (b1, af) = Inr (bf', af')" using 2(3) by auto
    from 2(1) [OF True b1] add_names_ok [OF b1(1), of k] True show ?thesis
      by (auto simp: spec_names_def)
  next
    case False
    then obtain a1 where a1: "add_names reg table timing (hook_key table op) af names = Inr a1"
      "wire_specs reg table ss (bf, a1) = Inr (bf', af')" using 2(3) by auto
    from 2(2) [OF False a1] add_names_ok [OF a1(1), of k] False show ?thesis
      by (auto simp: spec_names_def)
  qed
qed (simp add: spec_names_def)

text \<open>The names configured for a table, an operation and a timing.\<close>

definition names_at :: "bool \<Rightarrow> mutation_op \<Rightarrow> table_hooks \<Rightarrow> string list" where
  "names_at b op th =
     (case op of
        Op_Insert \<Rightarrow> if b then th_before_insert th else th_after_insert th
      | Op_Update \<Rightarrow> if b then th_before_update th else th_after_update th
      | Op_Delete \<Rightarrow> if b then th_before_delete th else th_after_delete th)"

definition configured :: "table_hooks option gmap \<Rightarrow> bool \<Rightarrow> string \<Rightarrow> mutation_op \<Rightarrow> string list" where
  "configured ts b t op = (case gget ts t of Some (Some th) \<Rightarrow> names_at b op th | _ \<Rightarrow> [])"

lemma spec_names_table: "spec_names b table (hook_key t op) (hook_specs th) = (if t = table then names_at b op th else [])"
  by (cases op; cases b) (simp_all add: spec_names_def hook_specs_def names_at_def hook_key_inj)

lemma names_of_specs: "(\<forall>(op, ns, b, tm)\<in>set (hook_specs th). set ns \<subseteq> D) \<longleftrightarrow> (\<forall>b op. set (names_at b op th) \<subseteq> D)"
  by (auto simp: hook_specs_def names_at_def all_bool_eq all_mutation_op)

lemma wire_tables_ok:
  "gmap_ok ts \<Longrightarrow> wire_tables reg ts (bf, af) = Inr (bf', af') \<Longrightarrow>
     set (configured ts b t op) \<subseteq> dom (gget reg) \<and>
     hooks_at bf' (hook_key t op) = hooks_at bf (hook_key t op) @ hook_fns reg (configured ts True t op) \<and>
     hooks_at af' (hook_key t op) = hooks_at af (hook_key t op) @ hook_fns reg (configured ts False t op)"
proof (induction reg ts "(bf, af)" arbitrary: bf af rule: wire_tables.induct)
  case (2 reg table ts bf af)
  then have "gget ts table = None" by (auto simp: gmap_ok_def map_of_eq_None_iff)
  then have "configured ((table, None) # ts) b t op = configured ts b t op" for b by (simp add: configured_def)
  moreover have "gmap_ok ts" using 2(2) by (simp add: gmap_ok_def)
  ultimately show ?case using 2(1) 2(3) by simp
next
  case (3 reg table th ts bf af)
  have none: "gget ts table = None" using 3(2) by (auto simp: gmap_ok_def map_of_eq_None_iff)
  obtain b1 a1 where w: "wire_specs reg table (hook_specs th) (bf, af) = Inr (b1, a1)"
    "wire_tables reg ts (b1, a1) = Inr (bf', af')" using 3(3) by auto
  note s = wire_specs_ok [OF w(1), of "hook_key t op", unfolded names_of_specs spec_names_table]
  have "gmap_ok ts" using 3(2) by (simp add: gmap_ok_def)
  from 3(1) [OF w(1) this w(2)] s none show ?case
    by (cases "t = table") (auto simp: configured_def)
qed (simp add: configured_def)


lemma known_roles_ok: "known_roles cfg name rs = Inr () \<longleftrightarrow> set rs \<subseteq> dom (gget (cfg_roles cfg))"
  by (induction rs) auto

lemma validate_fields_ok:
  "validate_fields cfg cfs = Inr () \<longleftrightarrow>
     (\<forall>cf\<in>set cfs. cf_operation cf \<in> {''query'', ''mutation''} \<and> set (cf_roles cf) \<subseteq> dom (gget (cfg_roles cfg)))"
  by (induction cfs) (auto simp: validate_custom_field_def known_roles_ok)

text \<open>The registry as hook files build it.\<close>

inductive registry_reach :: "('h, 'c) registry \<Rightarrow> bool" where
  start: "registry_reach empty_registry"
| hook: "registry_reach rg \<Longrightarrow> register_hook name fn rg = Inr rg' \<Longrightarrow> registry_reach rg'"
| field: "registry_reach rg \<Longrightarrow> registry_reach (register_field cf rg)"
| resolver: "registry_reach rg \<Longrightarrow> register_resolver r rg = Inr rg' \<Longrightarrow> registry_reach rg'"

lemma registry_ok: "registry_reach rg \<Longrightarrow> gmap_ok (rg_hooks rg)"
proof (induction rule: registry_reach.induct)
  case (hook rg name fn rg')
  then show ?case by (auto simp: register_hook_def gmap_ok_gput split: if_splits)
qed (auto simp: empty_registry_def gmap_ok_def register_field_def register_resolver_def split: if_splits)

lemma registered_hooks:
  "registry_reach rg \<Longrightarrow> registered rg = (hs, flds, res) \<Longrightarrow> gget hs = gget (rg_hooks rg) \<and> flds = rg_fields rg \<and> res = rg_resolver rg"
  using registry_ok [of rg] by (auto simp: registered_def foldl_gput_gget map_of_rev_distinct)

text \<open>C35: Hooks are wired as configured. When the hooks of a configuration are built, every table and
  operation has exactly the registered functions whose names the configuration lists for it, before
  and after, in the listed order and once per listing; every listed name is registered; and every
  custom field is a query or a mutation whose roles are configured roles. The registry is any that
  hook files can build.\<close>

theorem hooks_wired_as_configured:
  assumes "registry_reach rg" and "gmap_ok (cfg_hooks cfg)" and "build_hooks cfg rg = Inr (hs, flds)"
  shows "hooks_at (h_before hs) (hook_key t op) = map (\<lambda>n. the (gget (rg_hooks rg) n)) (configured (cfg_hooks cfg) True t op) \<and>
    hooks_at (h_after hs) (hook_key t op) = map (\<lambda>n. the (gget (rg_hooks rg) n)) (configured (cfg_hooks cfg) False t op) \<and>
    set (configured (cfg_hooks cfg) b t op) \<subseteq> dom (gget (rg_hooks rg)) \<and>
    flds = rg_fields rg \<and>
    (\<forall>cf\<in>set flds. cf_operation cf \<in> {''query'', ''mutation''} \<and> set (cf_roles cf) \<subseteq> dom (gget (cfg_roles cfg)))"
proof -
  obtain reg flds' res where r: "registered rg = (reg, flds', res)" by (cases "registered rg") auto
  note ok = registered_hooks [OF assms(1) r]
  obtain bf af where w: "wire_tables reg (cfg_hooks cfg) ([], []) = Inr (bf, af)" "validate_fields cfg flds' = Inr ()"
    "hs = \<lparr>h_before = bf, h_after = af\<rparr>" "flds = flds'"
    using assms(3) r by (auto simp: build_hooks_def)
  have empty: "hooks_at ([] :: 'a hook list gmap) k = []" for k by (simp add: hooks_at_def)
  from wire_tables_ok [OF assms(2) w(1), of b t op] w(2-4) ok show ?thesis
    by (simp add: empty validate_fields_ok)
qed

definition demo_table_hooks :: table_hooks where
  "demo_table_hooks = \<lparr>th_before_insert = [''stamp'', ''audit''], th_after_insert = [], th_before_update = [],
     th_after_update = [], th_before_delete = [], th_after_delete = [''audit'']\<rparr>"

definition demo_hook_config :: config where
  "demo_hook_config = demo_config\<lparr>cfg_hooks := [(''notes'', Some demo_table_hooks), (''tags'', None)]\<rparr>"

definition demo_registry :: "((string \<times> gval list) list, unit) registry" where
  "demo_registry = \<lparr>rg_hooks = [(''stamp'', demo_hook ''stamp'' False), (''audit'', demo_hook ''audit'' False)],
     rg_fields = [], rg_resolver = None\<rparr>"

lemma demo_registry_reach: "registry_reach demo_registry"
proof -
  let ?r1 = "\<lparr>rg_hooks = [(''stamp'', demo_hook ''stamp'' False)], rg_fields = [], rg_resolver = None\<rparr> :: ((string \<times> gval list) list, unit) registry"
  have "register_hook ''stamp'' (demo_hook ''stamp'' False) empty_registry = Inr ?r1"
    "register_hook ''audit'' (demo_hook ''audit'' False) ?r1 = Inr demo_registry"
    by (simp_all add: register_hook_def empty_registry_def demo_registry_def )
  then show ?thesis by (meson registry_reach.hook registry_reach.start)
qed

theorem hooks_wired_as_configured_witness:
  "\<exists>hs flds. build_hooks demo_hook_config demo_registry = Inr (hs, flds) \<and>
     hooks_at (h_before hs) (hook_key ''notes'' Op_Insert) = [demo_hook ''stamp'' False, demo_hook ''audit'' False] \<and>
     hooks_at (h_after hs) (hook_key ''notes'' Op_Delete) = [demo_hook ''audit'' False]"
proof -
  have ok: "gmap_ok (cfg_hooks demo_hook_config)" by (simp add: gmap_ok_def demo_hook_config_def)
  obtain hs flds where b: "build_hooks demo_hook_config demo_registry = Inr (hs, flds)"
    by (simp add: build_hooks_def registered_def demo_registry_def demo_hook_config_def demo_table_hooks_def hook_specs_def )
  from hooks_wired_as_configured [OF demo_registry_reach ok b] b show ?thesis
    by (simp add: demo_registry_def demo_hook_config_def demo_table_hooks_def configured_def names_at_def)
qed

end
