(* ===== verification/Server.thy ===== *)
theory Server
  imports Auth Depth
begin

text \<open>
  The HTTP front (\<open>server/server.go\<close>): routing, the endpoint with the gates a request passes before
  it is executed, and the CORS middleware; \<open>WriteError\<close> and \<open>Middleware\<close> are from \<open>auth/auth.go\<close>. The
  token parser, the JSON decoder of the body, the GraphQL parser and the execution of a query are
  the parameters of an \<open>engine\<close>. A handler maps the state of the caller's role lookup and the state
  of the world (database and hooks) to the new states and the response.
\<close>

section \<open>Requests and responses\<close>

record request =
  rq_method :: string
  rq_path :: string
  rq_accept :: string
  rq_origin :: string
  rq_auth :: string
  rq_body :: string

record gql_request =
  gr_query :: string
  gr_variables :: "gval gmap"
  gr_operation :: string

datatype 'r body = Plain string | IDE_Page | Error_Body gerr | Result_Body 'r | Empty_Body

record 'r response =
  rp_status :: nat
  rp_headers :: "string gmap"
  rp_body :: "'r body"

record ('s, 'c) server_state =
  ss_cfg :: config
  ss_schemas :: "'s gmap"
  ss_verifier :: "'c verifier"

text \<open>The libraries a request goes through. \<open>en_json\<close> decodes the first JSON value of a text, an
  incomplete one is an error; \<open>en_run\<close> executes a query under a schema for a caller, with a timeout.\<close>

record ('s, 'w, 'r) engine =
  en_token :: token_parser
  en_json :: "string \<Rightarrow> gql_request res"
  en_graphql :: "string \<Rightarrow> document option"
  en_run :: "'s \<Rightarrow> identity \<Rightarrow> int \<Rightarrow> gql_request \<Rightarrow> 'w \<Rightarrow> 'w \<times> 'r"

type_synonym ('c, 'w, 'r) handler = "request \<Rightarrow> 'c \<times> 'w \<Rightarrow> ('c \<times> 'w) \<times> 'r response"

definition reply :: "nat \<Rightarrow> string \<Rightarrow> 'r body \<Rightarrow> 'r response" where
  "reply status ctype bod = \<lparr>rp_status = status, rp_headers = [(''Content-Type'', ctype)], rp_body = bod\<rparr>"

definition write_error :: "nat \<Rightarrow> gerr \<Rightarrow> 'r response" where
  "write_error status e = reply status ''application/json'' (Error_Body e)"

section \<open>Executing a query\<close>

definition max_body_bytes :: nat where
  "max_body_bytes = 2 ^ 20"

definition execute :: "('s, 'w, 'r) engine \<Rightarrow> ('s, 'c) server_state \<Rightarrow> ('c, 'w, 'r) handler" where
  "execute en st rq s =
     (case identify (en_token en) (ss_verifier st) (rq_auth rq) (fst s) of
        (c, Inl (status, e)) \<Rightarrow> ((c, snd s), write_error status e)
      | (c, Inr idn) \<Rightarrow>
          (case gget (ss_schemas st) (id_role idn) of
             None \<Rightarrow> ((c, snd s), write_error 403 (Server_Err (No_Schema_For_Role (id_role idn))))
           | Some sch \<Rightarrow>
               (case en_json en (take max_body_bytes (rq_body rq)) of
                  Inl e \<Rightarrow> ((c, snd s), write_error 400 (Invalid_Body e))
                | Inr req \<Rightarrow>
                    if trim_space (gr_query req) = [] then ((c, snd s), write_error 400 (Server_Err No_Query))
                    else
                      (case check_depth (en_graphql en) (gr_query req) (srv_max_depth (cfg_server (ss_cfg st))) of
                         Inl e \<Rightarrow> ((c, snd s), write_error 400 e)
                       | Inr _ \<Rightarrow>
                           (case en_run en sch idn (duration_of_seconds (db_query_timeout (cfg_database (ss_cfg st)))) req (snd s) of
                              (w, r) \<Rightarrow> ((c, w), reply 200 ''application/json'' (Result_Body r)))))))"

definition wants_html :: "request \<Rightarrow> bool" where
  "wants_html rq = str_contains (rq_accept rq) ''text/html''"

definition endpoint :: "('s, 'w, 'r) engine \<Rightarrow> ('s, 'c) server_state \<Rightarrow> ('c, 'w, 'r) handler" where
  "endpoint en st rq s =
     (if rq_method rq = ''GET'' then
        if srv_graphiql (cfg_server (ss_cfg st)) \<and> wants_html rq then (s, reply 200 ''text/html; charset=utf-8'' IDE_Page)
        else (s, write_error 405 (Server_Err Method_Not_Allowed))
      else if rq_method rq = ''POST'' then execute en st rq s
      else (s, write_error 405 (Server_Err Method_Not_Allowed)))"

section \<open>Routing\<close>

text \<open>\<open>http.ServeMux\<close> on patterns that are plain paths: a path matches itself, and a pattern that ends
  in a slash everything under it; the longest match wins. Redirects to cleaned paths are left out.\<close>

definition pattern_matches :: "string \<Rightarrow> string \<Rightarrow> bool" where
  "pattern_matches path p = (p = path \<or> p \<noteq> [] \<and> last p = CHR ''/'' \<and> has_prefix path p)"

definition mux_match :: "string list \<Rightarrow> string \<Rightarrow> string option" where
  "mux_match ps path =
     foldl (\<lambda>best p. if \<not> pattern_matches path p then best
                     else (case best of None \<Rightarrow> Some p | Some q \<Rightarrow> if length q < length p then Some p else Some q)) None ps"

definition health_path :: string where
  "health_path = ''/healthz''"

definition routes :: "string \<Rightarrow> ('s, 'w, 'r) engine \<Rightarrow> ('s, 'c) server_state \<Rightarrow> ('c, 'w, 'r) handler" where
  "routes path en st rq s =
     (case mux_match [health_path, path] (rq_path rq) of
        None \<Rightarrow> (s, reply 404 ''text/plain; charset=utf-8'' (Plain ''404 page not found''))
      | Some p \<Rightarrow>
          if p = health_path then (s, reply 200 ''text/plain'' (Plain ''ok''))
          else endpoint en st rq s)"

section \<open>CORS\<close>

definition cors_allows :: "cors \<Rightarrow> string \<Rightarrow> bool" where
  "cors_allows cfg origin =
     (origin \<noteq> [] \<and> (''*'' \<in> set (cors_origins cfg) \<or> origin \<in> set (cors_origins cfg)))"

definition cors_headers :: "cors \<Rightarrow> request \<Rightarrow> string gmap" where
  "cors_headers cfg rq =
     (if cors_allows cfg (rq_origin rq) then
        [(''Access-Control-Allow-Origin'', rq_origin rq), (''Vary'', ''Origin''),
         (''Access-Control-Allow-Headers'', ''Authorization, Content-Type''),
         (''Access-Control-Allow-Methods'', ''POST, GET, OPTIONS'')]
      else [])"

definition cors_middleware :: "cors \<Rightarrow> ('c, 'w, 'r) handler \<Rightarrow> ('c, 'w, 'r) handler" where
  "cors_middleware cfg nxt rq s =
     (if rq_method rq = ''OPTIONS''
      then (s, \<lparr>rp_status = 204, rp_headers = cors_headers cfg rq, rp_body = Empty_Body\<rparr>)
      else (case nxt rq s of
              (s', rp) \<Rightarrow>
                (s', rp\<lparr>rp_headers := foldl (\<lambda>m (k, v). gput k v m) (cors_headers cfg rq) (rp_headers rp)\<rparr>)))"

text \<open>The handler that \<open>New\<close> returns: routing is fixed by the static configuration, the rest is read
  from the current state at each request.\<close>

definition serve :: "config \<Rightarrow> ('s, 'w, 'r) engine \<Rightarrow> ('s, 'c) server_state \<Rightarrow> ('c, 'w, 'r) handler" where
  "serve static en st =
     (let mux = routes (srv_path (cfg_server static)) en st
      in if cors_enabled (srv_cors (cfg_server static)) then cors_middleware (srv_cors (cfg_server static)) mux else mux)"

text \<open>\<open>HandleFunc\<close> panics on an empty pattern and on one that is taken.\<close>

definition new_handler ::
    "config \<Rightarrow> ('s, 'w, 'r) engine \<Rightarrow> (('s, 'c) server_state \<Rightarrow> ('c, 'w, 'r) handler) res" where
  "new_handler static en =
     (if srv_path (cfg_server static) \<in> {[], health_path} then Inl (Go_Panic ''http: invalid or conflicting pattern'')
      else Inr (serve static en))"

text \<open>The middleware for embedding hosts: the next handler runs for an identified caller only.\<close>

definition auth_middleware ::
    "token_parser \<Rightarrow> 'c verifier \<Rightarrow> (identity \<Rightarrow> ('c, 'w, 'r) handler) \<Rightarrow> ('c, 'w, 'r) handler" where
  "auth_middleware parse v nxt rq s =
     (case identify parse v (rq_auth rq) (fst s) of
        (c, Inl (status, e)) \<Rightarrow> ((c, snd s), write_error status e)
      | (c, Inr idn) \<Rightarrow> nxt idn rq (c, snd s))"

section \<open>What a request can do\<close>

text \<open>A request passes every gate of \<open>execute\<close> with the caller, the schema and the query it runs.\<close>

definition admitted ::
    "('s, 'w, 'r) engine \<Rightarrow> ('s, 'c) server_state \<Rightarrow> request \<Rightarrow> 'c \<Rightarrow> 'c \<Rightarrow> identity \<Rightarrow> 's \<Rightarrow> gql_request \<Rightarrow> bool" where
  "admitted en st rq c c' idn sch req \<longleftrightarrow>
     rq_method rq = ''POST'' \<and>
     identify (en_token en) (ss_verifier st) (rq_auth rq) c = (c', Inr idn) \<and>
     gget (ss_schemas st) (id_role idn) = Some sch \<and>
     en_json en (take max_body_bytes (rq_body rq)) = Inr req \<and>
     trim_space (gr_query req) \<noteq> [] \<and>
     check_depth (en_graphql en) (gr_query req) (srv_max_depth (cfg_server (ss_cfg st))) = Inr ()"

definition refused :: "'r body \<Rightarrow> bool" where
  "refused bod = (case bod of Result_Body r \<Rightarrow> False | _ \<Rightarrow> True)"

lemma refused_simps [simp]:
  "refused (Plain t)" "refused IDE_Page" "refused (Error_Body e)" "\<not> refused (Result_Body r)" "refused Empty_Body"
  by (simp_all add: refused_def)

lemma reply_simps [simp]:
  "rp_status (reply n t b) = n" "rp_headers (reply n t b) = [(''Content-Type'', t)]" "rp_body (reply n t b) = b"
  "rp_status (write_error n e) = n" "rp_headers (write_error n e) = [(''Content-Type'', ''application/json'')]"
  "rp_body (write_error n e) = Error_Body e"
  by (simp_all add: reply_def write_error_def)

lemma identify_status: "identify p v h c = (c1, Inl (status, e)) \<Longrightarrow> status = 401 \<or> status = 403"
  by (auto simp: identify_def split: if_splits sum.splits option.splits prod.splits gval.splits)

lemma execute_cases:
  assumes "execute en st rq (c, w) = ((c', w'), rp)" "rq_method rq = ''POST''"
  shows "w' = w \<and> refused (rp_body rp) \<and> rp_status rp \<in> {400, 401, 403} \<or>
    (\<exists>idn sch req r. admitted en st rq c c' idn sch req \<and>
       en_run en sch idn (duration_of_seconds (db_query_timeout (cfg_database (ss_cfg st)))) req w = (w', r) \<and>
       rp = reply 200 ''application/json'' (Result_Body r))"
proof -
  show ?thesis
  proof (cases "identify (en_token en) (ss_verifier st) (rq_auth rq) c")
    case (Pair c1 i)
    show ?thesis
    proof (cases i)
      case (Inl a)
      then show ?thesis using assms Pair identify_status by (cases a) (fastforce simp: execute_def)
    next
      case (Inr idn)
      then show ?thesis using assms Pair
        by (auto simp: execute_def admitted_def Let_def split: res_splits if_splits)
    qed
  qed
qed

lemma endpoint_cases:
  assumes "endpoint en st rq (c, w) = ((c', w'), rp)"
  shows "w' = w \<and> refused (rp_body rp) \<or>
    (\<exists>idn sch req r. admitted en st rq c c' idn sch req \<and>
       en_run en sch idn (duration_of_seconds (db_query_timeout (cfg_database (ss_cfg st)))) req w = (w', r) \<and>
       rp = reply 200 ''application/json'' (Result_Body r))"
proof (cases "rq_method rq = ''POST''")
  case True
  then show ?thesis using assms execute_cases [of en st rq c w c' w' rp] by (auto simp: endpoint_def)
qed (use assms in \<open>auto simp: endpoint_def split: if_splits\<close>)


lemma serve_cases:
  assumes "serve static en st rq (c, w) = ((c', w'), rp)"
  shows "w' = w \<and> refused (rp_body rp) \<or>
    (\<exists>idn sch req r. admitted en st rq c c' idn sch req \<and>
       en_run en sch idn (duration_of_seconds (db_query_timeout (cfg_database (ss_cfg st)))) req w = (w', r) \<and>
       rp_status rp = 200 \<and> rp_body rp = Result_Body r)"
proof -
  have r: "w' = w \<and> refused (rp_body rp) \<or>
    (\<exists>idn sch req r. admitted en st rq c c' idn sch req \<and>
       en_run en sch idn (duration_of_seconds (db_query_timeout (cfg_database (ss_cfg st)))) req w = (w', r) \<and>
       rp_status rp = 200 \<and> rp_body rp = Result_Body r)"
    if "routes path en st rq (c, w) = ((c', w'), rp)" for path rp
    using that endpoint_cases [of en st rq c w c' w' rp]
    by (fastforce simp: routes_def split: option.splits if_splits)
  show ?thesis
  proof (cases "cors_enabled (srv_cors (cfg_server static)) \<and> rq_method rq = ''OPTIONS''")
    case True
    then show ?thesis using assms by (auto simp: serve_def cors_middleware_def)
  next
    case False
    then obtain rp0 where "routes (srv_path (cfg_server static)) en st rq (c, w) = ((c', w'), rp0)"
      "rp_status rp = rp_status rp0" "rp_body rp = rp_body rp0"
      using assms by (auto simp: serve_def cors_middleware_def Let_def split: prod.splits if_splits)
    with r show ?thesis by simp
  qed
qed

section \<open>The guarantees of the front\<close>

text \<open>C34: Only an admitted request touches the database. Whatever request arrives at the handler, either
  the world is left as it was and the response holds no result, or the request is a POST whose caller
  the verifier identified, whose role has a schema, whose body (at most 1 MiB of it) decodes to a
  query that is not blank and not nested deeper than the limit; then the query ran once, under the
  schema of that very role and for that caller, with the configured timeout.\<close>

theorem only_admitted_requests_run:
  assumes "new_handler static en = Inr h" and "h st rq (c, w) = ((c', w'), rp)"
  shows "w' = w \<and> (\<forall>r. rp_body rp \<noteq> Result_Body r) \<or>
    (\<exists>idn sch req r. rq_method rq = ''POST'' \<and>
       identify (en_token en) (ss_verifier st) (rq_auth rq) c = (c', Inr idn) \<and>
       gget (ss_schemas st) (id_role idn) = Some sch \<and>
       en_json en (take max_body_bytes (rq_body rq)) = Inr req \<and>
       trim_space (gr_query req) \<noteq> [] \<and>
       check_depth (en_graphql en) (gr_query req) (srv_max_depth (cfg_server (ss_cfg st))) = Inr () \<and>
       en_run en sch idn (duration_of_seconds (db_query_timeout (cfg_database (ss_cfg st)))) req w = (w', r) \<and>
       rp_status rp = 200 \<and> rp_body rp = Result_Body r)"
proof -
  have "serve static en st rq (c, w) = ((c', w'), rp)"
    using assms by (auto simp: new_handler_def split: if_splits)
  from serve_cases [OF this] show ?thesis
    by (auto simp: admitted_def refused_def split: body.splits)
qed

definition demo_gql :: gql_request where
  "demo_gql = \<lparr>gr_query = ''{ notes_aggregate { count } }'', gr_variables = [], gr_operation = []\<rparr>"

definition demo_json :: "string \<Rightarrow> gql_request res" where
  "demo_json b = (if b = ''body'' then Inr demo_gql else Inl (Ext_Error ''EOF''))"

definition demo_graphql :: "string \<Rightarrow> document option" where
  "demo_graphql q = Some [OperationDefinition (Some [FieldNode (Some ''notes_aggregate'')
     (Some [FieldNode (Some ''count'') None])])]"

definition demo_run :: "string \<Rightarrow> identity \<Rightarrow> int \<Rightarrow> gql_request \<Rightarrow> nat \<Rightarrow> nat \<times> string" where
  "demo_run sch idn timeout req w = (w + 1, sch)"

definition demo_engine :: "(string, nat, string) engine" where
  "demo_engine = \<lparr>en_token = demo_parse, en_json = demo_json, en_graphql = demo_graphql, en_run = demo_run\<rparr>"

definition demo_server :: server where
  "demo_server = \<lparr>srv_host = ''127.0.0.1'', srv_port = 8080, srv_path = ''/graphql'', srv_graphiql = True, srv_debug = False,
     srv_cors = \<lparr>cors_enabled = True, cors_origins = [''https://app.example'']\<rparr>, srv_max_depth = 2,
     srv_hot_reload = False, srv_reload_interval = 2\<rparr>"

definition front_config :: config where
  "front_config = \<lparr>cfg_version = 1,
     cfg_database = \<lparr>db_host = ''127.0.0.1'', db_port = 4000, db_user = ''root'', db_password = [], db_schema = ''app'',
       db_params = [], db_max_open = 10, db_max_idle = 5, db_query_timeout = 30, db_startup_wait = 0\<rparr>,
     cfg_server = demo_server, cfg_jwt = demo_jwt,
     cfg_schema_gen = \<lparr>sg_include = [], sg_exclude = [], sg_default_page = 25, sg_max_page = 200\<rparr>,
     cfg_roles = [(''user'', None)], cfg_hooks = []\<rparr>"

definition demo_state :: "(string, unit) server_state" where
  "demo_state = \<lparr>ss_cfg = front_config, ss_schemas = [(''user'', ''schema of user'')], ss_verifier = demo_verifier\<rparr>"

definition demo_request :: request where
  "demo_request = \<lparr>rq_method = ''POST'', rq_path = ''/graphql'', rq_accept = [], rq_origin = ''https://app.example'',
     rq_auth = ''BEARER tok '', rq_body = ''body''\<rparr>"

lemma demo_gates:
  "identify demo_parse demo_verifier ''BEARER tok '' () =
     ((), Inr \<lparr>id_role = ''user'', id_claims = [(''role'', VStr ''user''), (''exp'', VInt64 99), (''iss'', VStr ''iss'')]\<rparr>)"
  "demo_json (take max_body_bytes ''body'') = Inr demo_gql"
  "check_depth demo_graphql (gr_query demo_gql) 2 = Inr ()"
  "trim_space (gr_query demo_gql) \<noteq> []"
proof -
  show "identify demo_parse demo_verifier ''BEARER tok '' () =
     ((), Inr \<lparr>id_role = ''user'', id_claims = [(''role'', VStr ''user''), (''exp'', VInt64 99), (''iss'', VStr ''iss'')]\<rparr>)"
    by code_simp
  show "demo_json (take max_body_bytes ''body'') = Inr demo_gql" by (simp add: max_body_bytes_def demo_json_def)
  show "check_depth demo_graphql (gr_query demo_gql) 2 = Inr ()" by code_simp
  show "trim_space (gr_query demo_gql) \<noteq> []" by code_simp
qed

lemma demo_served: "\<exists>rp. serve front_config demo_engine demo_state demo_request ((), 0) = (((), 1), rp)"
proof -
  have "execute demo_engine demo_state demo_request ((), 0) = (((), 1), reply 200 ''application/json'' (Result_Body ''schema of user''))"
    by (simp add: execute_def demo_engine_def demo_state_def demo_request_def demo_gates demo_run_def front_config_def demo_server_def)
  then show ?thesis
    by (simp add: serve_def cors_middleware_def routes_def mux_match_def pattern_matches_def endpoint_def
        front_config_def demo_server_def demo_request_def health_path_def)
qed

theorem only_admitted_requests_run_witness:
  "\<exists>h rp idn. new_handler front_config demo_engine = Inr h \<and> h demo_state demo_request ((), 0) = (((), 1), rp) \<and>
     identify demo_parse demo_verifier (rq_auth demo_request) () = ((), Inr idn) \<and>
     gget (ss_schemas demo_state) (id_role idn) = Some ''schema of user''"
proof -
  have h: "new_handler front_config demo_engine = Inr (serve front_config demo_engine)"
    by (simp add: new_handler_def front_config_def demo_server_def health_path_def)
  obtain rp where rp: "serve front_config demo_engine demo_state demo_request ((), 0) = (((), 1), rp)"
    using demo_served ..
  from only_admitted_requests_run [OF h rp] obtain idn where
    "identify (en_token demo_engine) (ss_verifier demo_state) (rq_auth demo_request) () = ((), Inr idn)"
    "\<exists>sch. gget (ss_schemas demo_state) (id_role idn) = Some sch" by auto
  then show ?thesis using h rp by (auto simp: demo_state_def demo_engine_def split: if_splits)
qed


lemma routes_headers: "\<exists>t. rp_headers (snd (routes path en st rq s)) = [(''Content-Type'', t)]"
proof -
  have "\<exists>t. rp_headers (snd (execute en st rq s)) = [(''Content-Type'', t)]"
    by (auto simp: execute_def Let_def split: res_splits)
  then show ?thesis by (auto simp: routes_def endpoint_def split: option.splits)
qed

text \<open>Cross-origin access is granted to configured origins only. A response carries
  \<open>Access-Control-Allow-Origin\<close> exactly when CORS is enabled and the request's origin is listed or a
  wildcard is, and then it names that origin; a preflight request with CORS on is answered without
  any effect.\<close>

lemma cors_only_allowed_origins:
  assumes "new_handler static en = Inr h" and "h st rq s = (s', rp)"
  shows "(gget (rp_headers rp) ''Access-Control-Allow-Origin'' = Some org \<longleftrightarrow>
      cors_enabled (srv_cors (cfg_server static)) \<and> org = rq_origin rq \<and> org \<noteq> [] \<and>
      (''*'' \<in> set (cors_origins (srv_cors (cfg_server static))) \<or> org \<in> set (cors_origins (srv_cors (cfg_server static))))) \<and>
    (cors_enabled (srv_cors (cfg_server static)) \<and> rq_method rq = ''OPTIONS'' \<longrightarrow> s' = s \<and> rp_status rp = 204 \<and> rp_body rp = Empty_Body)"
proof -
  have h: "serve static en st rq s = (s', rp)" using assms by (auto simp: new_handler_def split: if_splits)
  obtain s1 rp1 where r: "routes (srv_path (cfg_server static)) en st rq s = (s1, rp1)" by fastforce
  obtain t where t: "rp_headers rp1 = [(''Content-Type'', t)]"
    using routes_headers [of "srv_path (cfg_server static)" en st rq s] r by auto
  show ?thesis using h r t
    by (auto simp: serve_def cors_middleware_def cors_headers_def cors_allows_def Let_def split: if_splits)
qed

end
