(* ===== verification/Gate.thy ===== *)
theory Gate
  imports Server Hook_Wiring
begin

text \<open>
  The gateway (\<open>gqlgate.go\<close>): one configuration generation and how it is built, opening with its
  retries, hot reload and the watcher of the configuration file. The database, the file system, the
  environment, the YAML decoder, \<open>graphql.NewSchema\<close> and the key decoders are parameters, taken as they
  are when an operation runs; the state of the role lookup (its cache, the clock and the identity
  database) is the \<open>'c\<close> of the verifier.
\<close>

section \<open>One generation\<close>

text \<open>What a lookup of a role sees: the cache, the two times it reads and the database.\<close>

record role_env =
  re_cache :: role_cache
  re_now :: int
  re_after :: int
  re_db :: role_db

definition db_role_resolver :: "stdlib \<Rightarrow> role_lookup \<Rightarrow> role_env Auth.resolver" where
  "db_role_resolver sl cfg claims e =
     (case resolve_role sl (re_db e) cfg (re_now e) (re_after e) claims (re_cache e) of
        (cache, r) \<Rightarrow> (e\<lparr>re_cache := cache\<rparr>, r))"

text \<open>The outside of the gateway when a generation is built.\<close>

record 's platform =
  pf_stdlib :: stdlib
  pf_keys :: key_reader
  pf_new_schema :: "role_schema \<Rightarrow> 's res"
  pf_is :: is_db
  pf_open :: "string \<Rightarrow> gerr option"
  pf_ping :: "gerr option"

record ('s, 'h) gate_state =
  gs_srv :: "('s, role_env) server_state"
  gs_catalog :: catalog
  gs_hooks :: "'h hooks"

type_synonym 'h registrations = "('h, role_env Auth.resolver) registry"

fun missing_column :: "string \<Rightarrow> string \<Rightarrow> string set \<Rightarrow> (string \<times> string) list \<Rightarrow> unit res" where
  "missing_column schema t cols [] = Inr ()"
| "missing_column schema t cols ((key, col) # rs) =
     (if col \<notin> cols then Inl (Config_Err (Role_Column_Missing schema t col key)) else missing_column schema t cols rs)"

text \<open>The columns required of the identity table. Go ranges over them in any order, so of several
  missing columns any one is reported; the model reports the first.\<close>

definition required_columns :: "role_lookup \<Rightarrow> (string \<times> string) list" where
  "required_columns rl =
     [(''id_column'', rl_id_column rl), (''role_column'', rl_role_column rl)] @
     (case rl_username rl of Some u \<Rightarrow> if u \<noteq> [] then [(''username_column'', u)] else [] | None \<Rightarrow> []) @
     (case rl_password rl of Some p \<Rightarrow> if p \<noteq> [] then [(''password_column'', p)] else [] | None \<Rightarrow> [])"

definition validate_role_lookup :: "is_db \<Rightarrow> role_lookup \<Rightarrow> unit res" where
  "validate_role_lookup db rl =
     rbind (table_columns db (rl_schema rl) (rl_table rl)) (\<lambda>cols.
       if cols = {} then Inl (Config_Err (Role_Table_Missing (rl_schema rl) (rl_table rl)))
       else missing_column (rl_schema rl) (rl_table rl) cols (required_columns rl))"

definition pick_resolver :: "'s platform \<Rightarrow> role_env Auth.resolver option \<Rightarrow> role_lookup \<Rightarrow> role_env Auth.resolver option res" where
  "pick_resolver pf own rl =
     (if own = None \<and> lookup_enabled rl then
        rbind (validate_role_lookup (pf_is pf) rl) (\<lambda>_. Inr (Some (db_role_resolver (pf_stdlib pf) rl)))
      else Inr own)"

definition build_state :: "'s platform \<Rightarrow> 'h registrations \<Rightarrow> config \<Rightarrow> ('s, 'h) gate_state res" where
  "build_state pf rg cfg =
     rbind (build_hooks cfg rg) (\<lambda>(hs, flds).
     rbind (load (pf_is pf) (db_schema (cfg_database cfg)) (sg_include (cfg_schema_gen cfg)) (sg_exclude (cfg_schema_gen cfg))) (\<lambda>cat.
     rbind (build_all (pf_new_schema pf) flds cat (cfg_roles cfg)) (\<lambda>schemas.
     rbind (pick_resolver pf (snd (snd (registered rg))) (jwt_role_lookup (cfg_jwt cfg))) (\<lambda>resolver.
     rbind (new_verifier (pf_keys pf) (cfg_jwt cfg) (map fst (cfg_roles cfg)) resolver) (\<lambda>v.
       Inr \<lparr>gs_srv = \<lparr>ss_cfg = cfg, ss_schemas = schemas, ss_verifier = v\<rparr>, gs_catalog = cat, gs_hooks = hs\<rparr>)))))"

section \<open>The gate\<close>

text \<open>The cache is the one of the resolver of the current generation.\<close>

record ('s, 'h) gate =
  g_static :: config
  g_path :: string
  g_state :: "('s, 'h) gate_state"
  g_cache :: role_cache

definition open_gate :: "'s platform \<Rightarrow> 'h registrations \<Rightarrow> string \<Rightarrow> config \<Rightarrow> ('s, 'h) gate res" where
  "open_gate pf rg path cfg =
     (case pf_open pf (dsn (cfg_database cfg)) of
        Some e \<Rightarrow> Inl (Open_Database e)
      | None \<Rightarrow>
          (case pf_ping pf of
             Some e \<Rightarrow> Inl (Cannot_Reach_Database (db_host (cfg_database cfg)) (db_port (cfg_database cfg)) e)
           | None \<Rightarrow>
               rbind (build_state pf rg cfg) (\<lambda>st.
                 if srv_path (cfg_server cfg) \<in> {[], health_path}
                 then Inl (Go_Panic ''http: invalid or conflicting pattern'')
                 else Inr \<lparr>g_static = cfg, g_path = path, g_state = st, g_cache = Map.empty\<rparr>)))"

text \<open>A request: the handler reads the current generation.\<close>

definition gate_serve ::
    "('s, 'w, 'r) engine \<Rightarrow> ('s, 'h) gate \<Rightarrow> request \<Rightarrow> role_env \<times> 'w \<Rightarrow> (('s, 'h) gate \<times> 'w) \<times> 'r response" where
  "gate_serve en g rq s =
     (case serve (g_static g) en (gs_srv (g_state g)) rq ((fst s)\<lparr>re_cache := g_cache g\<rparr>, snd s) of
        ((e, w), rp) \<Rightarrow> ((g\<lparr>g_cache := re_cache e\<rparr>, w), rp))"

section \<open>Hot reload\<close>

text \<open>The file, the decoder and the environment when the file is read.\<close>

record config_io =
  io_read :: "string \<Rightarrow> string res"
  io_yaml :: "string \<Rightarrow> config res"
  io_env :: "string \<rightharpoonup> string"

definition load_config :: "config_io \<Rightarrow> string \<Rightarrow> config res" where
  "load_config io path = rbind (io_read io path) (parse_config (io_yaml io) (io_env io))"

definition reload_compatible :: "config \<Rightarrow> config \<Rightarrow> unit res" where
  "reload_compatible old nxt =
     (if dsn (cfg_database old) \<noteq> dsn (cfg_database nxt) then Inl (Config_Err Reload_Database_Changed)
      else if srv_host (cfg_server old) \<noteq> srv_host (cfg_server nxt) \<or> srv_port (cfg_server old) \<noteq> srv_port (cfg_server nxt) \<or>
              srv_path (cfg_server old) \<noteq> srv_path (cfg_server nxt)
      then Inl (Config_Err Reload_Server_Changed)
      else Inr ())"

definition reload :: "config_io \<Rightarrow> 's platform \<Rightarrow> 'h registrations \<Rightarrow> ('s, 'h) gate \<Rightarrow> ('s, 'h) gate \<times> unit res" where
  "reload io pf rg g =
     (if g_path g = [] then (g, Inl (Config_Err Reload_No_Path))
      else (case load_config io (g_path g) of
              Inl e \<Rightarrow> (g, Inl (Reload_Failed e))
            | Inr cfg \<Rightarrow>
                (case reload_compatible (g_static g) cfg of
                   Inl e \<Rightarrow> (g, Inl e)
                 | Inr _ \<Rightarrow>
                     (case build_state pf rg cfg of
                        Inl e \<Rightarrow> (g, Inl (Reload_Failed e))
                      | Inr st \<Rightarrow> (g\<lparr>g_state := st, g_cache := Map.empty\<rparr>, Inr ())))))"

text \<open>The watcher. A stamp is the time and size of the file, or that it is missing.\<close>

definition watch_stamps :: "(string \<Rightarrow> string option) \<Rightarrow> string \<Rightarrow> string gmap" where
  "watch_stamps stat path = [(path, case stat path of Some s \<Rightarrow> s | None \<Rightarrow> ''missing'')]"

definition same_stamps :: "string gmap \<Rightarrow> string gmap \<Rightarrow> bool" where
  "same_stamps a b =
     (length a = length b \<and> list_all (\<lambda>(k, v). (case gget b k of Some x \<Rightarrow> x | None \<Rightarrow> []) = v) a)"

text \<open>One tick: the file as it is when it is looked at, read, and looked at again.\<close>

definition watch_tick ::
    "(string \<Rightarrow> string option) \<Rightarrow> config_io \<Rightarrow> (string \<Rightarrow> string option) \<Rightarrow> 's platform \<Rightarrow> 'h registrations
      \<Rightarrow> string gmap \<times> ('s, 'h) gate \<Rightarrow> string gmap \<times> ('s, 'h) gate" where
  "watch_tick stat io stat' pf rg lg =
     (case lg of (lst, g) \<Rightarrow>
        if same_stamps lst (watch_stamps stat (g_path g)) then (lst, g)
        else (watch_stamps stat' (g_path g), fst (reload io pf rg g)))"

definition reload_interval :: "config \<Rightarrow> int" where
  "reload_interval cfg =
     (let i = duration_of_seconds (srv_reload_interval (cfg_server cfg))
      in if i \<le> 0 then duration_of_seconds 2 else i)"

definition gate_sign_token ::
    "(string \<Rightarrow> gval gmap \<Rightarrow> string \<Rightarrow> string res) \<Rightarrow> ('s, 'h) gate \<Rightarrow> int \<Rightarrow> gval gmap \<Rightarrow> string res" where
  "gate_sign_token sign g now claims = sign_token sign (cfg_jwt (g_static g)) now claims"

definition gate_tables :: "('s, 'h) gate \<Rightarrow> string list" where
  "gate_tables g = cat_order (gs_catalog (g_state g))"

section \<open>Opening with retries\<close>

text \<open>One attempt: what \<open>Open\<close> returns, whether the context is done behind it, the clock, and whether
  the context ends during the wait.\<close>

record 'g attempt =
  at_open :: "'g res"
  at_ctx :: "gerr option"
  at_now :: int
  at_wait :: "gerr option"

definition not_ready_texts :: "string list" where
  "not_ready_texts = [''cannot reach database'', ''contains no exposable base tables'', ''Unknown database'', ''does not exist'']"

definition is_not_ready :: "string \<Rightarrow> bool" where
  "is_not_ready msg = list_ex (str_contains msg) not_ready_texts"

fun open_with_retry :: "(gerr \<Rightarrow> string) \<Rightarrow> int \<Rightarrow> 'g attempt list \<Rightarrow> 'g res option" where
  "open_with_retry txt deadline [] = None"
| "open_with_retry txt deadline (a # as) =
     (case at_open a of
        Inr g \<Rightarrow> Some (Inr g)
      | Inl e \<Rightarrow>
          (case at_ctx a of
             Some c \<Rightarrow> Some (Inl c)
           | None \<Rightarrow>
               if \<not> is_not_ready (txt e) \<or> \<not> at_now a < deadline then Some (Inl e)
               else (case at_wait a of
                       Some c \<Rightarrow> Some (Inl c)
                     | None \<Rightarrow> open_with_retry txt deadline as)))"

definition startup_wait :: "(string \<rightharpoonup> string) \<Rightarrow> config \<Rightarrow> int" where
  "startup_wait env cfg =
     (case (if env_str env ''GQLGATE_WAIT_DB'' = [] then None else parse_int64 (env_str env ''GQLGATE_WAIT_DB'')) of
        Some n \<Rightarrow> if 0 \<le> n then duration_of_seconds n else duration_of_seconds (db_startup_wait (cfg_database cfg))
      | None \<Rightarrow> duration_of_seconds (db_startup_wait (cfg_database cfg)))"


text \<open>The configured listen address (\<open>net.JoinHostPort\<close> brackets IPv6 hosts).\<close>

definition gate_addr :: "('s, 'h) gate \<Rightarrow> string" where
  "gate_addr g =
     (let h = srv_host (cfg_server (g_static g))
      in (if list_ex (\<lambda>c. c = CHR '':'' \<or> c = CHR ''%'') h then ''['' @ h @ '']'' else h) @ '':'' @
         show_int (srv_port (cfg_server (g_static g))))"

text \<open>\<open>Run\<close> up to the point where the gate serves: each try meets the platform as it is then.\<close>

definition open_attempt :: "'h registrations \<Rightarrow> string \<Rightarrow> config \<Rightarrow> 's platform \<times> gerr option \<times> int \<times> gerr option
    \<Rightarrow> ('s, 'h) gate attempt" where
  "open_attempt rg path cfg = (\<lambda>(pf, ctx, now, wait). \<lparr>at_open = open_gate pf rg path cfg, at_ctx = ctx, at_now = now, at_wait = wait\<rparr>)"

definition run_until_open :: "config_io \<Rightarrow> (gerr \<Rightarrow> string) \<Rightarrow> 'h registrations \<Rightarrow> string \<Rightarrow> int
    \<Rightarrow> ('s platform \<times> gerr option \<times> int \<times> gerr option) list \<Rightarrow> ('s, 'h) gate res option" where
  "run_until_open io txt rg path start tries =
     (case load_config io path of
        Inl e \<Rightarrow> Some (Inl e)
      | Inr cfg \<Rightarrow> open_with_retry txt (start + startup_wait (io_env io) cfg) (map (open_attempt rg path cfg) tries))"

section \<open>Generations\<close>

lemma build_roles_from:
  "build_roles ns cfs cat out roles = Inr out' \<Longrightarrow> gget out' rn = Some s \<Longrightarrow>
     gget out rn = Some s \<or>
     (\<exists>rc acc rs. (rn, rc) \<in> set roles \<and> resolve rn rc cat = Inr acc \<and> build_role cfs cat rn acc = Inr rs \<and> ns rs = Inr s)"
proof (induction ns cfs cat out roles rule: build_roles.induct)
  case (2 ns cfs cat out r rc roles)
  then obtain acc rs x where x: "resolve r rc cat = Inr acc" "build_role cfs cat r acc = Inr rs" "ns rs = Inr x"
    "build_roles ns cfs cat (gput r x out) roles = Inr out'" by auto
  from "2.IH" [OF x 2(3)] x show ?case by (auto split: if_splits)
qed simp

lemma build_roles_all:
  "build_roles ns cfs cat out roles = Inr out' \<Longrightarrow> dom (gget out') = dom (gget out) \<union> fst ` set roles"
proof (induction ns cfs cat out roles rule: build_roles.induct)
  case (2 ns cfs cat out r rc roles)
  then obtain acc rs x where x: "resolve r rc cat = Inr acc" "build_role cfs cat r acc = Inr rs" "ns rs = Inr x"
    "build_roles ns cfs cat (gput r x out) roles = Inr out'" by auto
  from "2.IH" [OF x] show ?case by simp
qed simp

text \<open>\<open>generation\<close>: all parts of a state come from one configuration and one catalog.\<close>

definition generation :: "'h registrations \<Rightarrow> (role_schema \<Rightarrow> 's res) \<Rightarrow> config \<Rightarrow> ('s, 'h) gate_state \<Rightarrow> bool" where
  "generation rg ns cfg st \<longleftrightarrow>
     ss_cfg (gs_srv st) = cfg \<and>
     build_all ns (rg_fields rg) (gs_catalog st) (cfg_roles cfg) = Inr (ss_schemas (gs_srv st)) \<and>
     build_hooks cfg rg = Inr (gs_hooks st, rg_fields rg) \<and>
     (\<exists>kr resolver. new_verifier kr (cfg_jwt cfg) (map fst (cfg_roles cfg)) resolver = Inr (ss_verifier (gs_srv st)))"

lemma build_state_generation: "build_state pf rg cfg = Inr st \<Longrightarrow> generation rg (pf_new_schema pf) cfg st"
proof -
  have f: "flds = rg_fields rg" if "build_hooks cfg rg = Inr (hs, flds)" for hs flds
    using that by (auto simp: build_hooks_def registered_def)
  show "build_state pf rg cfg = Inr st \<Longrightarrow> generation rg (pf_new_schema pf) cfg st"
    unfolding build_state_def generation_def using f by fastforce
qed

lemma compatible_refl: "reload_compatible c c = Inr ()"
  by (simp add: reload_compatible_def)

lemma load_config_ok: "load_config io path = Inr cfg \<Longrightarrow> config_ok cfg"
  by (auto simp: load_config_def parse_config_def Let_def validate_defaults_ok)

text \<open>The life of a gate: it is opened, serves requests (which change the cache of the role lookup) and
  is reloaded any number of times, with the file and the database as they are then.\<close>

inductive gate_reach :: "'h registrations \<Rightarrow> (role_schema \<Rightarrow> 's res) \<Rightarrow> config \<Rightarrow> string \<Rightarrow> ('s, 'h) gate \<Rightarrow> bool"
  for rg ns static path where
  opened: "open_gate pf rg path static = Inr g \<Longrightarrow> pf_new_schema pf = ns \<Longrightarrow> gate_reach rg ns static path g"
| served: "gate_reach rg ns static path g \<Longrightarrow> gate_reach rg ns static path (g\<lparr>g_cache := c\<rparr>)"
| reloaded: "gate_reach rg ns static path g \<Longrightarrow> pf_new_schema pf = ns \<Longrightarrow>
    gate_reach rg ns static path (fst (reload io pf rg g))"

lemma gate_serve_reach:
  "gate_reach rg ns static path g \<Longrightarrow> gate_reach rg ns static path (fst (fst (gate_serve en g rq s)))"
  by (auto simp: gate_serve_def split: prod.splits intro: gate_reach.served)

definition gate_inv :: "'h registrations \<Rightarrow> (role_schema \<Rightarrow> 's res) \<Rightarrow> config \<Rightarrow> string \<Rightarrow> ('s, 'h) gate \<Rightarrow> bool" where
  "gate_inv rg ns static path g \<longleftrightarrow>
     g_static g = static \<and> g_path g = path \<and> srv_path (cfg_server static) \<notin> {[], health_path} \<and>
     (\<exists>cfg. generation rg ns cfg (g_state g) \<and> reload_compatible static cfg = Inr () \<and> (cfg = static \<or> config_ok cfg))"

lemma reload_cases:
  obtains (kept) e where "reload io pf rg g = (g, Inl e)"
  | (swapped) cfg st where "load_config io (g_path g) = Inr cfg" "reload_compatible (g_static g) cfg = Inr ()"
      "build_state pf rg cfg = Inr st" "reload io pf rg g = (g\<lparr>g_state := st, g_cache := Map.empty\<rparr>, Inr ())"
proof (cases "reload io pf rg g")
  case (Pair g' r)
  then show ?thesis using that
    by (cases r) (auto simp: reload_def split: if_splits sum.splits)
qed

interpretation reloading: all_or_nothing "reload io pf rg" for io pf rg
proof unfold_locales
  show "g' = g" if "reload io pf rg g = (g', Inl e)" for g g' e
    by (cases rule: reload_cases [of io pf rg g]) (use that in simp_all)
qed

lemma gate_reach_inv: "gate_reach rg ns static path g \<Longrightarrow> gate_inv rg ns static path g"
proof (induction rule: gate_reach.induct)
  case (opened pf g)
  then obtain st where st: "build_state pf rg static = Inr st" "srv_path (cfg_server static) \<notin> {[], health_path}"
    "g = \<lparr>g_static = static, g_path = path, g_state = st, g_cache = Map.empty\<rparr>"
    by (auto simp: open_gate_def split: option.splits if_splits)
  from build_state_generation [OF st(1)] show ?case
    using st(2,3) opened(2) compatible_refl [of static] by (auto simp: gate_inv_def)
next
  case (reloaded g pf io)
  show ?case
  proof (cases rule: reload_cases [of io pf rg g])
    case (swapped cfg st)
    from build_state_generation [OF swapped(3)] load_config_ok [OF swapped(1)] swapped(2,4) reloaded(2,3)
    show ?thesis by (auto simp: gate_inv_def)
  qed (use reloaded in simp)
qed (simp add: gate_inv_def)


section \<open>What a gate guarantees\<close>


text \<open>C37: End to end: a query runs only under the schema that was generated for the caller's role.
  Whatever request reaches the gate after any requests and reloads, if it gets a result, then its
  caller was identified by the verifier in force, the caller's role is one of the configured roles,
  and the query ran once, for that caller, under the schema built from exactly the grants that the
  configuration in force resolves to for that role on the current catalog.\<close>

theorem served_under_own_schema:
  assumes "gate_reach rg ns static path g"
    and "gate_serve en g rq (e, w) = ((g', w'), rp)" and "rp_body rp = Result_Body r"
  shows "\<exists>idn sch rc acc rs req. rq_method rq = ''POST'' \<and>
    snd (identify (en_token en) (ss_verifier (gs_srv (g_state g))) (rq_auth rq) (e\<lparr>re_cache := g_cache g\<rparr>)) = Inr idn \<and>
    (id_role idn, rc) \<in> set (cfg_roles (ss_cfg (gs_srv (g_state g)))) \<and>
    resolve (id_role idn) rc (gs_catalog (g_state g)) = Inr acc \<and>
    build_role (rg_fields rg) (gs_catalog (g_state g)) (id_role idn) acc = Inr rs \<and> ns rs = Inr sch \<and>
    en_run en sch idn (duration_of_seconds (db_query_timeout (cfg_database (ss_cfg (gs_srv (g_state g)))))) req w = (w', r)"
proof -
  let ?st = "gs_srv (g_state g)" and ?cat = "gs_catalog (g_state g)" and ?e = "e\<lparr>re_cache := g_cache g\<rparr>"
  from gate_reach_inv [OF assms(1)] obtain cfg where gen: "generation rg ns cfg (g_state g)"
    unfolding gate_inv_def by blast
  obtain e' where sv: "serve (g_static g) en ?st rq (?e, w) = ((e', w'), rp)"
    using assms(2) by (auto simp: gate_serve_def split: prod.splits)
  from serve_cases [OF sv] assms(3) obtain idn sch req where a: "admitted en ?st rq ?e e' idn sch req"
    and run: "en_run en sch idn (duration_of_seconds (db_query_timeout (cfg_database (ss_cfg ?st)))) req w = (w', r)"
    by auto
  have "build_roles ns (rg_fields rg) ?cat [] (cfg_roles (ss_cfg ?st)) = Inr (ss_schemas ?st)"
    using gen by (auto simp: generation_def build_all_def)
  from build_roles_from [OF this, of "id_role idn" sch] a obtain rc acc rs where
    "(id_role idn, rc) \<in> set (cfg_roles (ss_cfg ?st))" "resolve (id_role idn) rc ?cat = Inr acc"
    "build_role (rg_fields rg) ?cat (id_role idn) acc = Inr rs" "ns rs = Inr sch"
    unfolding admitted_def by auto
  moreover have "rq_method rq = ''POST''"
    "snd (identify (en_token en) (ss_verifier ?st) (rq_auth rq) ?e) = Inr idn"
    using a by (auto simp: admitted_def)
  ultimately show ?thesis using run by blast
qed

lemma identified_role:
  "snd (identify parse v header c) = Inr idn \<Longrightarrow>
     id_role idn \<in> vf_roles v \<or> jwt_anonymous (vf_cfg v) \<noteq> [] \<and> id_role idn = jwt_anonymous (vf_cfg v)"
  unfolding identify_iff by (cases "header = []") auto

lemma new_verifier_fields: "new_verifier kr cfg names r = Inr v \<Longrightarrow> vf_cfg v = cfg \<and> vf_roles v = set names"
  by (auto simp: new_verifier_def)

lemma identified_has_schema:
  assumes "generation rg ns cfg st" and "snd (identify parse (ss_verifier (gs_srv st)) header c) = Inr idn"
    and "jwt_anonymous (cfg_jwt cfg) \<noteq> [] \<longrightarrow> jwt_anonymous (cfg_jwt cfg) \<in> dom (gget (cfg_roles cfg))"
  shows "id_role idn \<in> dom (gget (ss_schemas (gs_srv st)))"
proof -
  have "build_roles ns (rg_fields rg) (gs_catalog st) [] (cfg_roles cfg) = Inr (ss_schemas (gs_srv st))"
    using assms(1) by (auto simp: generation_def build_all_def)
  from build_roles_all [OF this] have d: "dom (gget (ss_schemas (gs_srv st))) = fst ` set (cfg_roles cfg)" by simp
  obtain kr res where nv: "new_verifier kr (cfg_jwt cfg) (map fst (cfg_roles cfg)) res = Inr (ss_verifier (gs_srv st))"
    using assms(1) by (auto simp: generation_def)
  have v: "vf_cfg (ss_verifier (gs_srv st)) = cfg_jwt cfg" "vf_roles (ss_verifier (gs_srv st)) = fst ` set (cfg_roles cfg)"
    using new_verifier_fields [OF nv] by simp_all
  show ?thesis
  proof (rule disjE [OF identified_role [OF assms(2)]])
    assume "id_role idn \<in> vf_roles (ss_verifier (gs_srv st))"
    then show ?thesis unfolding d v(2) .
  next
    assume "jwt_anonymous (vf_cfg (ss_verifier (gs_srv st))) \<noteq> [] \<and>
      id_role idn = jwt_anonymous (vf_cfg (ss_verifier (gs_srv st)))"
    then have "id_role idn \<in> dom (gget (cfg_roles cfg))" unfolding v(1) using assms(3) by simp
    then show ?thesis unfolding d by (simp only: dom_map_of_conv_image_fst)
  qed
qed

text \<open>An edit made between the read of a reload and the second look at the file is never loaded: the
  stamp of the edit is remembered as seen, and every later tick finds it unchanged.\<close>

lemma same_stamps_refl: "same_stamps (watch_stamps stat path) (watch_stamps stat path)"
  by (simp add: same_stamps_def watch_stamps_def)

lemma missed_edit:
  assumes "\<not> same_stamps lst (watch_stamps stat (g_path g))" and "stat2 (g_path g) = stat' (g_path g)"
  shows "watch_tick stat2 io2 stat2' pf2 rg (watch_tick stat io stat' pf rg (lst, g)) = watch_tick stat io stat' pf rg (lst, g)"
proof -
  have p: "g_path (fst (reload io pf rg g)) = g_path g"
    by (cases rule: reload_cases [of io pf rg g]) simp_all
  have "watch_stamps stat2 (g_path g) = watch_stamps stat' (g_path g)" using assms(2) by (simp add: watch_stamps_def)
  then show ?thesis using assms(1) p same_stamps_refl by (simp add: watch_tick_def)
qed

section \<open>The end of the retries\<close>

definition retryable :: "(gerr \<Rightarrow> string) \<Rightarrow> int \<Rightarrow> 'g attempt \<Rightarrow> bool" where
  "retryable txt deadline a =
     (case at_open a of
        Inr g \<Rightarrow> False
      | Inl e \<Rightarrow> at_ctx a = None \<and> is_not_ready (txt e) \<and> at_now a < deadline \<and> at_wait a = None)"

definition verdict :: "'g attempt \<Rightarrow> 'g res set" where
  "verdict a =
     (case at_open a of
        Inr g \<Rightarrow> {Inr g}
      | Inl e \<Rightarrow> {Inl e} \<union> Inl ` (set_option (at_ctx a) \<union> set_option (at_wait a)))"

lemma open_with_retry_verdict:
  "open_with_retry txt deadline as = Some r \<Longrightarrow>
     \<exists>as1 a as2. as = as1 @ a # as2 \<and> list_all (retryable txt deadline) as1 \<and> \<not> retryable txt deadline a \<and> r \<in> verdict a"
proof (induction as)
  case (Cons a as)
  show ?case
  proof (cases "retryable txt deadline a")
    case True
    then have "open_with_retry txt deadline as = Some r"
      using Cons.prems by (auto simp: retryable_def split: sum.splits option.splits if_splits)
    from Cons.IH [OF this] obtain as1 b as2 where "as = as1 @ b # as2" "list_all (retryable txt deadline) as1"
      "\<not> retryable txt deadline b" "r \<in> verdict b" by blast
    with True show ?thesis by (intro exI [of _ "a # as1"]) auto
  next
    case False
    then have "r \<in> verdict a"
      using Cons.prems by (auto simp: retryable_def verdict_def split: sum.splits option.splits if_splits)
    then show ?thesis using False by (intro exI [of _ "[]"]) auto
  qed
qed simp

text \<open>A gate that runs comes from a valid configuration and begins a life that \<open>gate_reach\<close> describes.\<close>

lemma run_until_open_reach:
  assumes "run_until_open io txt rg path start tries = Some (Inr g)"
  shows "\<exists>cfg pf. load_config io path = Inr cfg \<and> config_ok cfg \<and> pf \<in> fst ` set tries \<and> gate_reach rg (pf_new_schema pf) cfg path g"
proof -
  obtain cfg where cfg: "load_config io path = Inr cfg"
    "open_with_retry txt (start + startup_wait (io_env io) cfg) (map (open_attempt rg path cfg) tries) = Some (Inr g)"
    using assms by (auto simp: run_until_open_def split: sum.splits)
  from open_with_retry_verdict [OF cfg(2)] obtain a where a: "a \<in> set (map (open_attempt rg path cfg) tries)" "Inr g \<in> verdict a"
    by (metis in_set_conv_decomp)
  then obtain pf x where pf: "(pf, x) \<in> set tries" "at_open a = open_gate pf rg path cfg"
    by (auto simp: open_attempt_def)
  have "at_open a = Inr g" using a(2) by (auto simp: verdict_def split: sum.splits option.splits)
  with pf(2) have "gate_reach rg (pf_new_schema pf) cfg path g" by (intro gate_reach.opened) auto
  with cfg(1) load_config_ok [OF cfg(1)] pf(1) show ?thesis by force
qed

lemma open_with_retry_ends: "\<exists>a\<in>set as. \<not> retryable txt deadline a \<Longrightarrow> open_with_retry txt deadline as \<noteq> None"
proof (induction as)
  case (Cons a as)
  show ?case
  proof (cases "retryable txt deadline a")
    case True
    then have "open_with_retry txt deadline (a # as) = open_with_retry txt deadline as"
      by (auto simp: retryable_def split: sum.splits option.splits)
    then show ?thesis using Cons True by auto
  next
    case False
    then show ?thesis by (auto simp: retryable_def split: sum.splits option.splits)
  qed
qed simp

text \<open>C38: Opening with retries always ends, within the startup window. If the clock of the attempts
  advances by at least the two seconds that are waited between them, then no more than one attempt per
  two seconds of the window, and one more, are made before a verdict; a gate is returned only from an
  attempt that succeeded, and every attempt before the last one failed with a not-ready error inside
  the window.\<close>

theorem retries_end:
  assumes "\<forall>i < length as. start + 2 * 10 ^ 9 * int i \<le> at_now (as ! i)"
    and "nat (window_ns div (2 * 10 ^ 9)) + 1 < length as" and "0 \<le> window_ns"
  shows "\<exists>as1 a as2 r. open_with_retry txt (start + window_ns) as = Some r \<and> as = as1 @ a # as2 \<and>
    length as1 \<le> nat (window_ns div (2 * 10 ^ 9)) + 1 \<and>
    list_all (retryable txt (start + window_ns)) as1 \<and> \<not> retryable txt (start + window_ns) a \<and> r \<in> verdict a"
proof -
  let ?n = "nat (window_ns div (2 * 10 ^ 9)) + 1"
  have "window_ns < 2 * 10 ^ 9 * int ?n" using assms(3) by (simp add: nat_div_distrib)
  then have "start + window_ns \<le> at_now (as ! ?n)" using assms(1,2) by fastforce
  then have late: "\<not> retryable txt (start + window_ns) (as ! ?n)" by (auto simp: retryable_def split: sum.splits)
  have "open_with_retry txt (start + window_ns) as \<noteq> None"
    using open_with_retry_ends late assms(2) nth_mem by blast
  then obtain r where r: "open_with_retry txt (start + window_ns) as = Some r" by blast
  from open_with_retry_verdict [OF r] obtain as1 a as2 where s: "as = as1 @ a # as2"
    "list_all (retryable txt (start + window_ns)) as1" "\<not> retryable txt (start + window_ns) a" "r \<in> verdict a" by blast
  have "length as1 \<le> ?n"
  proof (rule ccontr)
    assume "\<not> length as1 \<le> ?n"
    then have "as ! ?n \<in> set as1" by (simp add: s(1) nth_append)
    with s(2) late show False by (auto simp: list_all_iff)
  qed
  with r s show ?thesis by blast
qed


section \<open>A gate\<close>

definition gate_is_db :: is_db where
  "gate_is_db = \<lparr>is_tables = (\<lambda>_. Inr [''notes'']),
     is_columns = (\<lambda>_ _. Inr [\<lparr>cr_name = ''id'', cr_data_type = ''bigint'', cr_column_type = ''bigint'', cr_nullable = ''NO'',
        cr_key = ''PRI'', cr_extra = [], cr_has_default = False\<rparr>]),
     is_keys = (\<lambda>_. Inr []), is_column_names = (\<lambda>_ _. Inr [])\<rparr>"

definition guest_config :: config where
  "guest_config = front_config\<lparr>cfg_jwt := demo_jwt\<lparr>jwt_anonymous := ''guest''\<rparr>,
     cfg_roles := [(''guest'', Some \<lparr>rc_tables = []\<rparr>)]\<rparr>"

definition demo_platform :: "role_schema platform" where
  "demo_platform = \<lparr>pf_stdlib = demo_stdlib, pf_keys = demo_keys, pf_new_schema = Inr, pf_is = gate_is_db,
     pf_open = (\<lambda>_. None), pf_ping = None\<rparr>"

lemma gate_catalog:
  "\<exists>cat acc. load gate_is_db ''app'' [] [] = Inr cat \<and> cat_order cat = [''notes''] \<and> check_name_collisions cat = Inr () \<and>
     resolve ''guest'' (Some \<lparr>rc_tables = []\<rparr>) cat = Inr acc \<and> acc_tables acc = []"
proof -
  have "(case load gate_is_db ''app'' [] [] of Inl _ \<Rightarrow> False | Inr cat \<Rightarrow>
    cat_order cat = [''notes''] \<and> check_name_collisions cat = Inr () \<and>
    (case resolve ''guest'' (Some \<lparr>rc_tables = []\<rparr>) cat of Inl _ \<Rightarrow> False | Inr acc \<Rightarrow> acc_tables acc = []))"
    by code_simp
  then show ?thesis by (auto split: sum.splits)
qed

definition guest_verifier :: "role_env verifier" where
  "guest_verifier = \<lparr>vf_cfg = cfg_jwt guest_config, vf_key = Hmac_Secret ''secret'', vf_opts = verifier_opts (cfg_jwt guest_config),
     vf_roles = set [''guest''], vf_resolver = None\<rparr>"

abbreviation no_hooks :: "nat registrations" where
  "no_hooks \<equiv> empty_registry"

lemma demo_gate:
  "\<exists>g rs. open_gate demo_platform no_hooks ''gqlgate.yaml'' guest_config = Inr g \<and>
     gs_srv (g_state g) = \<lparr>ss_cfg = guest_config, ss_schemas = [(''guest'', rs)], ss_verifier = guest_verifier\<rparr> \<and>
     g_static g = guest_config \<and> g_path g = ''gqlgate.yaml''"
proof -
  obtain cat acc where c: "load gate_is_db ''app'' [] [] = Inr cat" "cat_order cat = [''notes'']"
    "check_name_collisions cat = Inr ()" "resolve ''guest'' (Some \<lparr>rc_tables = []\<rparr>) cat = Inr acc" "acc_tables acc = []"
    using gate_catalog by blast
  have cfg: "db_schema (cfg_database guest_config) = ''app''" "sg_include (cfg_schema_gen guest_config) = []"
    "sg_exclude (cfg_schema_gen guest_config) = []" "cfg_roles guest_config = [(''guest'', Some \<lparr>rc_tables = []\<rparr>)]"
    "cfg_hooks guest_config = []" "srv_path (cfg_server guest_config) = ''/graphql''"
    "rl_table (jwt_role_lookup (cfg_jwt guest_config)) = []"
    by (simp_all add: guest_config_def front_config_def demo_server_def demo_jwt_def)
  have pf: "pf_is demo_platform = gate_is_db" "pf_new_schema demo_platform = Inr" "pf_keys demo_platform = demo_keys"
    "pf_open demo_platform d = None" "pf_ping demo_platform = None" for d
    by (simp_all add: demo_platform_def)
  have rg: "registered no_hooks = ([], [], None)" by (simp add: registered_def empty_registry_def)
  have "add_infos cat acc [] [''notes''] = Inr []" by (simp add: access_table_def c(5))
  then obtain rs where rs: "build_role [] cat ''guest'' acc = Inr rs"
    by (simp add: build_role_def c(2) add_custom_fields_def custom_fields_for_def)
  have b: "build_all Inr [] cat (cfg_roles guest_config) = Inr [(''guest'', rs)]"
    by (simp add: build_all_def c(3,4) cfg(4) rs)
  have v: "new_verifier demo_keys (cfg_jwt guest_config) (map fst (cfg_roles guest_config)) None = Inr guest_verifier"
    unfolding cfg(4) by (simp add: new_verifier_def verifier_key_def guest_verifier_def guest_config_def demo_jwt_def has_prefix_def)
  have "build_state demo_platform no_hooks guest_config =
      Inr \<lparr>gs_srv = \<lparr>ss_cfg = guest_config, ss_schemas = [(''guest'', rs)], ss_verifier = guest_verifier\<rparr>,
        gs_catalog = cat, gs_hooks = \<lparr>h_before = [], h_after = []\<rparr>\<rparr>"
    by (simp add: build_state_def build_hooks_def rg pf cfg(1,2,3,5,7) c(1) b v pick_resolver_def lookup_enabled_def)
  then show ?thesis by (simp add: open_gate_def pf cfg(6) health_path_def)
qed

definition gate_run :: "role_schema \<Rightarrow> identity \<Rightarrow> int \<Rightarrow> gql_request \<Rightarrow> nat \<Rightarrow> nat \<times> string" where
  "gate_run sch idn timeout req w = (w + 1, ''{}'')"

definition gate_engine :: "(role_schema, nat, string) engine" where
  "gate_engine = \<lparr>en_token = demo_parse, en_json = demo_json, en_graphql = demo_graphql, en_run = gate_run\<rparr>"

definition no_env :: role_env where
  "no_env = \<lparr>re_cache = Map.empty, re_now = 0, re_after = 0, re_db = (\<lambda>_ _. Inr None)\<rparr>"

abbreviation guest_request :: request where
  "guest_request \<equiv> demo_request\<lparr>rq_auth := []\<rparr>"

theorem served_under_own_schema_witness:
  "\<exists>g g' rp acc rs. gate_reach no_hooks Inr guest_config ''gqlgate.yaml'' g \<and>
     gate_serve gate_engine g guest_request (no_env, 0) = ((g', 1), rp) \<and> rp_body rp = Result_Body ''{}'' \<and>
     resolve ''guest'' (Some \<lparr>rc_tables = []\<rparr>) (gs_catalog (g_state g)) = Inr acc \<and>
     build_role [] (gs_catalog (g_state g)) ''guest'' acc = Inr rs"
proof -
  obtain g rs where g: "open_gate demo_platform no_hooks ''gqlgate.yaml'' guest_config = Inr g"
    "gs_srv (g_state g) = \<lparr>ss_cfg = guest_config, ss_schemas = [(''guest'', rs)], ss_verifier = guest_verifier\<rparr>"
    "g_static g = guest_config"
    using demo_gate by blast
  have reach: "gate_reach no_hooks Inr guest_config ''gqlgate.yaml'' g"
    using gate_reach.opened [OF g(1)] by (simp add: demo_platform_def)
  have cfg: "cfg_server guest_config = demo_server" "jwt_anonymous (vf_cfg guest_verifier) = ''guest''"
    by (simp_all add: guest_config_def front_config_def guest_verifier_def)
  have idn: "identify demo_parse guest_verifier [] e = (e, Inr \<lparr>id_role = ''guest'', id_claims = []\<rparr>)" for e
    by (simp add: identify_def cfg(2))
  have "execute gate_engine (gs_srv (g_state g)) guest_request (e, 0) =
      ((e, 1), reply 200 ''application/json'' (Result_Body ''{}''))" for e
    unfolding g(2) by (simp add: execute_def gate_engine_def demo_request_def idn demo_gates cfg(1) demo_server_def gate_run_def)
  then have "\<exists>rp. serve guest_config gate_engine (gs_srv (g_state g)) guest_request (e, 0) = ((e, 1), rp) \<and>
      rp_body rp = Result_Body ''{}''" for e
    by (simp add: serve_def cors_middleware_def routes_def mux_match_def pattern_matches_def endpoint_def
        cfg(1) demo_server_def demo_request_def health_path_def)
  then obtain g' rp where sv: "gate_serve gate_engine g guest_request (no_env, 0) = ((g', 1), rp)" "rp_body rp = Result_Body ''{}''"
    unfolding gate_serve_def g(3) by (metis (no_types, lifting) fst_conv prod.case snd_conv)
  from served_under_own_schema [OF reach sv] obtain idn rc acc rs' where
    "snd (identify demo_parse guest_verifier [] (no_env\<lparr>re_cache := g_cache g\<rparr>)) = Inr idn"
    "(id_role idn, rc) \<in> set (cfg_roles guest_config)" "resolve (id_role idn) rc (gs_catalog (g_state g)) = Inr acc"
    "build_role [] (gs_catalog (g_state g)) (id_role idn) acc = Inr rs'"
    by (auto simp: g(2) gate_engine_def empty_registry_def)
  then show ?thesis using reach sv by (auto simp: idn guest_config_def)
qed


definition demo_attempt :: "int \<Rightarrow> string \<Rightarrow> string attempt" where
  "demo_attempt now msg = \<lparr>at_open = Inl (Ext_Error msg), at_ctx = None, at_now = now, at_wait = None\<rparr>"

definition demo_text :: "gerr \<Rightarrow> string" where
  "demo_text e = (case e of Ext_Error s \<Rightarrow> s | _ \<Rightarrow> [])"

theorem retries_end_witness:
  "\<exists>r. open_with_retry demo_text 3000000000 [demo_attempt 0 ''Unknown database'', demo_attempt 2000000000 ''Unknown database'',
      demo_attempt 4000000000 ''Unknown database''] = Some r"
proof -
  let ?as = "[demo_attempt 0 ''Unknown database'', demo_attempt 2000000000 ''Unknown database'',
      demo_attempt 4000000000 ''Unknown database'']"
  have "\<forall>i < length ?as. 0 + 2 * 10 ^ 9 * int i \<le> at_now (?as ! i)"
    by (auto simp: demo_attempt_def nth_Cons split: nat.splits)
  moreover have "nat (3000000000 div (2 * 10 ^ 9)) + 1 < length ?as" "(0 :: int) \<le> 3000000000" by simp_all
  ultimately show ?thesis using retries_end [of ?as 0 3000000000 demo_text] by (metis add_0)
qed

end
