(* ===== verification/Accounts.thy ===== *)
theory Accounts
  imports Gate
begin

text \<open>
  Tokens issued outside of a request of their own: the development tokens of the command line
  (\<open>mintToken\<close>, \<open>setClaimPath\<close> in \<open>cmd/gqlgate/main.go\<close>) and the compiled-in account mutations \<open>signup\<close> and
  \<open>signin\<close> (\<open>hooks/auth.go\<close>). The signing library, bcrypt, the decoder of the claims and the database are
  parameters; a statement outside a transaction commits by itself.
\<close>

section \<open>Development tokens\<close>

text \<open>\<open>strings.Split\<close> with a one-byte separator.\<close>

fun split_on :: "char \<Rightarrow> string \<Rightarrow> string list" where
  "split_on c [] = [[]]"
| "split_on c (x # xs) =
     (if x = c then [] # split_on c xs
      else (case split_on c xs of [] \<Rightarrow> [[x]] | p # ps \<Rightarrow> (x # p) # ps))"

definition as_map :: "gval option \<Rightarrow> gval gmap" where
  "as_map v = (case v of Some (VMap m) \<Rightarrow> m | _ \<Rightarrow> [])"

fun set_path :: "gval gmap \<Rightarrow> string list \<Rightarrow> gval \<Rightarrow> gval gmap" where
  "set_path m [] v = m"
| "set_path m [p] v = gput p v m"
| "set_path m (p # q # ps) v = gput p (VMap (set_path (as_map (gget m p)) (q # ps) v)) m"

text \<open>\<open>None\<close> is the nil map that \<open>null\<close> decodes to; writing to it panics.\<close>

definition set_claim_path :: "gval gmap option \<Rightarrow> string \<Rightarrow> gval \<Rightarrow> gval gmap res" where
  "set_claim_path claims path v =
     (case claims of
        None \<Rightarrow> Inl (Go_Panic ''assignment to entry in nil map'')
      | Some m \<Rightarrow> Inr (set_path m (split_on (CHR ''.'') path) v))"

definition subject_id :: "string \<Rightarrow> gval" where
  "subject_id s = (case parse_int64 s of Some n \<Rightarrow> VInt64 n | None \<Rightarrow> VStr s)"

text \<open>The claims of the token; the times are seconds, as \<open>Unix\<close> gives them.\<close>

definition mint_claims ::
    "(string \<Rightarrow> gval gmap option res) \<Rightarrow> config \<Rightarrow> string \<Rightarrow> string \<Rightarrow> int \<Rightarrow> int \<Rightarrow> gval gmap res" where
  "mint_claims json cfg subject claims_json now expires =
     (case json claims_json of
        Inl e \<Rightarrow> Inl (Bad_Claims_JSON e)
      | Inr claims \<Rightarrow>
          rbind (if lookup_enabled (jwt_role_lookup (cfg_jwt cfg))
                 then set_claim_path claims (rl_id_claim (jwt_role_lookup (cfg_jwt cfg))) (subject_id subject)
                 else if gget (cfg_roles cfg) subject = None then Inl (Account_Err (Role_Not_Defined subject))
                 else set_claim_path claims (jwt_role_claim (cfg_jwt cfg)) (VStr subject)) (\<lambda>m.
            let m = gput ''exp'' (VInt64 expires) (gput ''iat'' (VInt64 now) m);
                m = (if jwt_issuer (cfg_jwt cfg) \<noteq> [] then gput ''iss'' (VStr (jwt_issuer (cfg_jwt cfg))) m else m)
            in Inr (if jwt_audience (cfg_jwt cfg) \<noteq> [] then gput ''aud'' (VStr (jwt_audience (cfg_jwt cfg))) m else m)))"

definition mint_token ::
    "(string \<Rightarrow> gval gmap \<Rightarrow> string \<Rightarrow> string res) \<Rightarrow> (string \<Rightarrow> gval gmap option res) \<Rightarrow> config \<Rightarrow> string \<Rightarrow> string
      \<Rightarrow> int \<Rightarrow> int \<Rightarrow> string res" where
  "mint_token sign json cfg subject claims_json now expires =
     (if \<not> has_prefix (jwt_algorithm (cfg_jwt cfg)) ''HS'' then Inl (Auth_Err (Cannot_Sign (jwt_algorithm (cfg_jwt cfg))))
      else rbind (mint_claims json cfg subject claims_json now expires) (\<lambda>m.
             sign (jwt_algorithm (cfg_jwt cfg)) m (jwt_secret (cfg_jwt cfg))))"

section \<open>Accounts\<close>

definition arg_str :: "gval gmap \<Rightarrow> string \<Rightarrow> string" where
  "arg_str args k = (case gidx args k of VStr s \<Rightarrow> s | _ \<Rightarrow> [])"

text \<open>bcrypt: a hash of a password (with the salt of this call), and the comparison.\<close>

record bcrypt =
  bc_hash :: "string \<Rightarrow> string res"
  bc_check :: "string \<Rightarrow> string \<Rightarrow> bool"

definition signup_sql :: string where
  "signup_sql = ''INSERT INTO users (username, password, role, name, email) VALUES (?, ?, '' @ [CHR 0x27] @ ''author'' @
     [CHR 0x27] @ '', ?, ?)''"

definition signin_sql :: string where
  "signin_sql = ''SELECT id, password, is_active FROM users WHERE username = ?''"

definition signup ::
    "(string \<Rightarrow> gval gmap \<Rightarrow> string \<Rightarrow> string res) \<Rightarrow> bcrypt \<Rightarrow> 'w sqldb \<Rightarrow> ('s, 'h) gate option \<Rightarrow> int \<Rightarrow> gval gmap
      \<Rightarrow> 'w \<Rightarrow> 'w \<times> string res" where
  "signup sign bc db gate_opt now args w =
     (let username = arg_str args ''username''; password = arg_str args ''password'';
          name = arg_str args ''name''; email = arg_str args ''email''
      in if length username < 3 \<or> length password < 8 then (w, Inl (Account_Err Credentials_Too_Short))
         else let name = or_str name username; email = or_str email (username @ ''@example.com'')
              in case gate_opt of
                   None \<Rightarrow> (w, Inl (Account_Err Gateway_Unavailable))
                 | Some g \<Rightarrow>
                     (case bc_hash bc password of
                        Inl e \<Rightarrow> (w, Inl e)
                      | Inr hash \<Rightarrow>
                          (case d_exec db w signup_sql [VStr username, VStr hash, VStr name, VStr email] of
                             (w', Inl e) \<Rightarrow> (w', Inl (Account_Err Account_Not_Created))
                           | (w', Inr (n, idn)) \<Rightarrow> (w', gate_sign_token sign g now [(''sub'', VInt64 idn)]))))"

text \<open>\<open>Scan\<close> into an integer and into a string, of the values the driver gives for integer and text columns.\<close>

definition scan_int :: "gval \<Rightarrow> int res" where
  "scan_int v =
     (case v of
        VInt64 n \<Rightarrow> Inr n
      | VBytes s \<Rightarrow> (case parse_int64 s of Some n \<Rightarrow> Inr n | None \<Rightarrow> Inl (Ext_Error ''sql: Scan error''))
      | VStr s \<Rightarrow> (case parse_int64 s of Some n \<Rightarrow> Inr n | None \<Rightarrow> Inl (Ext_Error ''sql: Scan error''))
      | _ \<Rightarrow> Inl (Ext_Error ''sql: Scan error''))"

definition scan_text :: "gval \<Rightarrow> string res" where
  "scan_text v =
     (case v of
        VStr s \<Rightarrow> Inr s
      | VBytes s \<Rightarrow> Inr s
      | VInt64 n \<Rightarrow> Inr (show_int n)
      | _ \<Rightarrow> Inl (Ext_Error ''sql: Scan error''))"

definition scan_user :: "gval list \<Rightarrow> (int \<times> string \<times> int) res" where
  "scan_user vs =
     (case vs of
        [i, h, a] \<Rightarrow> rbind (scan_int i) (\<lambda>i. rbind (scan_text h) (\<lambda>h. rbind (scan_int a) (\<lambda>a. Inr (i, h, a))))
      | _ \<Rightarrow> Inl (Ext_Error ''sql: expected 3 destination arguments in Scan''))"

definition signin ::
    "(string \<Rightarrow> gval gmap \<Rightarrow> string \<Rightarrow> string res) \<Rightarrow> bcrypt \<Rightarrow> 'w sqldb \<Rightarrow> ('s, 'h) gate option \<Rightarrow> int \<Rightarrow> gval gmap
      \<Rightarrow> 'w \<Rightarrow> string res" where
  "signin sign bc db gate_opt now args w =
     (let username = arg_str args ''username''; password = arg_str args ''password''
      in case gate_opt of
           None \<Rightarrow> Inl (Account_Err Gateway_Unavailable)
         | Some g \<Rightarrow>
             (case d_query db w signin_sql [VStr username] of
                Inl e \<Rightarrow> Inl e
              | Inr [] \<Rightarrow> Inl (Account_Err Invalid_Credentials)
              | Inr (vs # _) \<Rightarrow>
                  rbind (scan_user vs) (\<lambda>(idn, hash, active).
                    if active = 0 then Inl (Account_Err Account_Disabled)
                    else if \<not> bc_check bc hash password then Inl (Account_Err Invalid_Credentials)
                    else gate_sign_token sign g now [(''sub'', VInt64 idn)])))"

text \<open>The registration of both fields when the package is linked in.\<close>

definition auth_fields :: "custom_field list" where
  "auth_fields =
     [\<lparr>cf_name = ''signup'', cf_operation = ''mutation'', cf_roles = [''anonymous''],
       cf_field = Some \<lparr>f_type = NonNull (Named ''String''),
         f_args = [(''username'', NonNull (Named ''String'')), (''password'', NonNull (Named ''String'')),
           (''name'', Named ''String''), (''email'', Named ''String'')],
         f_resolve = Custom ''signup''\<rparr>\<rparr>,
      \<lparr>cf_name = ''signin'', cf_operation = ''mutation'', cf_roles = [''anonymous''],
       cf_field = Some \<lparr>f_type = NonNull (Named ''String''),
         f_args = [(''username'', NonNull (Named ''String'')), (''password'', NonNull (Named ''String''))],
         f_resolve = Custom ''signin''\<rparr>\<rparr>]"

definition auth_init :: "('h, 'c) registry \<Rightarrow> ('h, 'c) registry" where
  "auth_init rg = foldl (\<lambda>rg cf. register_field cf rg) rg auth_fields"

section \<open>Minted claims\<close>

lemma split_on_nonempty [simp]: "split_on c s \<noteq> []"
  by (cases s) (auto split: list.splits)

lemma split_on_clean: "p \<in> set (split_on c s) \<Longrightarrow> c \<notin> set p"
  by (induction s arbitrary: p) (fastforce split: if_splits list.splits)+

lemma split_on_append: "c \<notin> set k \<Longrightarrow> split_on c (k @ c # r) = k # split_on c r"
  by (induction k) (auto split: list.splits)

lemma split_on_id: "c \<notin> set k \<Longrightarrow> split_on c k = [k]"
  by (induction k) auto

lemma split_join: "ks \<noteq> [] \<Longrightarrow> \<forall>k\<in>set ks. CHR ''.'' \<notin> set k \<Longrightarrow> split_on (CHR ''.'') (join ''.'' ks) = ks"
  by (induction ks rule: remdups_adj.induct) (auto simp: split_on_append split_on_id)

lemma join_split: "join ''.'' (split_on (CHR ''.'') p) = p"
proof (induction p)
  case (Cons x xs)
  then show ?case by (cases "split_on (CHR ''.'') xs" rule: remdups_adj.cases) auto
qed simp

text \<open>Claims all of whose reachable keys are free of dots: a dotted path reads them in one way only.\<close>

definition undotted :: "gval gmap \<Rightarrow> bool" where
  "undotted m \<longleftrightarrow> (\<forall>ks v. claim_at m ks = Some v \<longrightarrow> (\<forall>k\<in>set ks. CHR ''.'' \<notin> set k))"

lemma undotted_Nil: "undotted []"
  unfolding undotted_def
proof (intro allI impI)
  fix ks v
  assume "claim_at [] ks = Some v"
  then show "\<forall>k\<in>set ks. CHR ''.'' \<notin> set k" by (cases ks rule: remdups_adj.cases) auto
qed

lemma undotted_gput:
  assumes "undotted m" "CHR ''.'' \<notin> set k" "\<And>n. v = VMap n \<Longrightarrow> undotted n"
  shows "undotted (gput k v m)"
  unfolding undotted_def
proof (intro allI impI)
  fix ks x
  assume c: "claim_at (gput k v m) ks = Some x"
  show "\<forall>j\<in>set ks. CHR ''.'' \<notin> set j"
  proof (cases "ks \<noteq> [] \<and> hd ks = k")
    case True
    then show ?thesis using c assms(2,3)
      by (cases ks rule: remdups_adj.cases) (auto simp: undotted_def split: gval.splits)
  next
    case False
    then have "claim_at m ks = Some x" using c by (cases ks rule: remdups_adj.cases) auto
    then show ?thesis using assms(1) by (auto simp: undotted_def)
  qed
qed

lemma undotted_sub:
  assumes "undotted m" "gget m k = Some (VMap n)"
  shows "undotted n"
  unfolding undotted_def
proof (intro allI impI)
  fix ks v
  assume c: "claim_at n ks = Some v"
  then obtain j js where "ks = j # js" by (cases ks) auto
  then have "claim_at m (k # ks) = Some v" using c assms(2) by simp
  then show "\<forall>k\<in>set ks. CHR ''.'' \<notin> set k" using assms(1) unfolding undotted_def by (metis list.set_intros(2))
qed

lemma undotted_as_map: "undotted m \<Longrightarrow> undotted (as_map (gget m k))"
  using undotted_sub [of m k] undotted_Nil by (auto simp: as_map_def split: option.splits gval.splits)

lemma undotted_set_path:
  "undotted m \<Longrightarrow> \<forall>k\<in>set ks. CHR ''.'' \<notin> set k \<Longrightarrow> (\<And>n. v \<noteq> VMap n) \<Longrightarrow> undotted (set_path m ks v)"
  by (induction m ks v rule: set_path.induct) (auto intro!: undotted_gput undotted_as_map)

lemma set_path_at: "ks \<noteq> [] \<Longrightarrow> claim_at (set_path m ks v) ks = Some v"
  by (induction m ks v rule: set_path.induct) auto

lemma claim_at_other: "ks \<noteq> [] \<Longrightarrow> hd ks \<noteq> k \<Longrightarrow> claim_at (gput k v m) ks = claim_at m ks"
  by (cases ks rule: remdups_adj.cases) auto

text \<open>The one reading of a path.\<close>

lemma lookup_undotted:
  assumes "undotted m" "claim_at m (split_on (CHR ''.'') path) = Some v" "[] \<notin> set (butlast (split_on (CHR ''.'') path))"
  shows "lookup_claim m path = Some v"
proof -
  have "path_keys (split_on (CHR ''.'') path) path" using assms(3) by (simp add: path_keys_def join_split)
  then obtain w where w: "lookup_claim m path = Some w" using lookup_claim_complete assms(2) by blast
  from lookup_claim_sound [OF w] obtain ks where ks: "path_keys ks path" "claim_at m ks = Some w" by blast
  then have "\<forall>k\<in>set ks. CHR ''.'' \<notin> set k" using assms(1) unfolding undotted_def by blast
  with ks(1) have "ks = split_on (CHR ''.'') path" unfolding path_keys_def using split_join by metis
  with ks(2) w assms(2) show ?thesis by simp
qed

lemma set_claim_at:
  assumes "set_claim_path (Some c) path v = Inr m" "undotted c" "\<And>n. v \<noteq> VMap n"
  shows "undotted m" "claim_at m (split_on (CHR ''.'') path) = Some v"
  using assms split_on_clean by (auto simp: set_claim_path_def set_path_at intro!: undotted_set_path)

text \<open>The claim that names the subject.\<close>

definition subject_path :: "jwt \<Rightarrow> string" where
  "subject_path cfg = (if lookup_enabled (jwt_role_lookup cfg) then rl_id_claim (jwt_role_lookup cfg) else jwt_role_claim cfg)"

definition subject_val :: "jwt \<Rightarrow> string \<Rightarrow> gval" where
  "subject_val cfg subject = (if lookup_enabled (jwt_role_lookup cfg) then subject_id subject else VStr subject)"

lemma subject_val_scalar: "subject_val cfg s \<noteq> VMap n"
  by (simp add: subject_val_def subject_id_def split: option.splits)

lemma mint_claims_cases:
  assumes "mint_claims json cfg subject cj now expires = Inr m" "json cj = Inr c"
  obtains m0 where "set_claim_path c (subject_path (cfg_jwt cfg)) (subject_val (cfg_jwt cfg) subject) = Inr m0"
    and "\<not> lookup_enabled (jwt_role_lookup (cfg_jwt cfg)) \<Longrightarrow> gget (cfg_roles cfg) subject \<noteq> None"
    and "m = (let m1 = gput ''exp'' (VInt64 expires) (gput ''iat'' (VInt64 now) m0);
                  m2 = (if jwt_issuer (cfg_jwt cfg) \<noteq> [] then gput ''iss'' (VStr (jwt_issuer (cfg_jwt cfg))) m1 else m1)
              in if jwt_audience (cfg_jwt cfg) \<noteq> [] then gput ''aud'' (VStr (jwt_audience (cfg_jwt cfg))) m2 else m2)"
  using assms
  by (auto simp: mint_claims_def subject_path_def subject_val_def rbind_Inr_iff Let_def split: if_splits)

text \<open>C39: A development token names the subject it was asked for where the gateway looks for it, whatever the
  other claims are (as long as their keys hold no dots): in role-claim mode a configured role, else the
  user's id. It expires when it should, and carries the issuer and the audience that the gateway expects.\<close>

theorem minted_claims_name_subject:
  assumes "mint_claims json cfg subject cj now expires = Inr m" "json cj = Inr (Some c)" "undotted c"
    and "[] \<notin> set (butlast (split_on (CHR ''.'') (subject_path (cfg_jwt cfg))))"
    and "hd (split_on (CHR ''.'') (subject_path (cfg_jwt cfg))) \<notin> {''iat'', ''exp'', ''iss'', ''aud''}"
  shows "lookup_claim m (subject_path (cfg_jwt cfg)) = Some (subject_val (cfg_jwt cfg) subject) \<and>
    (lookup_enabled (jwt_role_lookup (cfg_jwt cfg)) \<or> gget (cfg_roles cfg) subject \<noteq> None) \<and>
    gget m ''exp'' = Some (VInt64 expires) \<and> gget m ''iat'' = Some (VInt64 now) \<and>
    (jwt_issuer (cfg_jwt cfg) = [] \<or> gget m ''iss'' = Some (VStr (jwt_issuer (cfg_jwt cfg)))) \<and>
    (jwt_audience (cfg_jwt cfg) = [] \<or> gget m ''aud'' = Some (VStr (jwt_audience (cfg_jwt cfg))))"
proof -
  obtain m0 where m0: "set_claim_path (Some c) (subject_path (cfg_jwt cfg)) (subject_val (cfg_jwt cfg) subject) = Inr m0"
    and role: "\<not> lookup_enabled (jwt_role_lookup (cfg_jwt cfg)) \<Longrightarrow> gget (cfg_roles cfg) subject \<noteq> None"
    and m: "m = (let m1 = gput ''exp'' (VInt64 expires) (gput ''iat'' (VInt64 now) m0);
                  m2 = (if jwt_issuer (cfg_jwt cfg) \<noteq> [] then gput ''iss'' (VStr (jwt_issuer (cfg_jwt cfg))) m1 else m1)
              in if jwt_audience (cfg_jwt cfg) \<noteq> [] then gput ''aud'' (VStr (jwt_audience (cfg_jwt cfg))) m2 else m2)"
    using mint_claims_cases [OF assms(1,2)] by blast
  note at = set_claim_at [OF m0 assms(3) subject_val_scalar]
  have "undotted m" unfolding m Let_def using at(1) by (auto intro!: undotted_gput)
  moreover have "claim_at m (split_on (CHR ''.'') (subject_path (cfg_jwt cfg))) = Some (subject_val (cfg_jwt cfg) subject)"
    unfolding m Let_def using at(2) assms(5) by (auto simp: claim_at_other)
  ultimately have "lookup_claim m (subject_path (cfg_jwt cfg)) = Some (subject_val (cfg_jwt cfg) subject)"
    using assms(4) by (rule lookup_undotted)
  moreover have "lookup_enabled (jwt_role_lookup (cfg_jwt cfg)) \<or> gget (cfg_roles cfg) subject \<noteq> None" using role by blast
  ultimately show ?thesis by (auto simp: m Let_def)
qed

definition nested_claims :: "string \<Rightarrow> gval gmap option res" where
  "nested_claims s = Inr (Some [(''app'', VMap [(''tenant'', VStr ''t'')])])"

definition nested_config :: config where
  "nested_config = front_config\<lparr>cfg_jwt := demo_jwt\<lparr>jwt_role_claim := ''app.role''\<rparr>\<rparr>"

theorem minted_claims_name_subject_witness:
  "\<exists>m. mint_claims nested_claims nested_config ''user'' ''{}'' 10 20 = Inr m \<and> lookup_claim m ''app.role'' = Some (VStr ''user'')"
proof -
  let ?m = "[(''app'', VMap [(''tenant'', VStr ''t''), (''role'', VStr ''user'')]), (''iat'', VInt64 10), (''exp'', VInt64 20),
     (''iss'', VStr ''iss'')]"
  have m: "mint_claims nested_claims nested_config ''user'' ''{}'' 10 20 = Inr ?m" by code_simp
  have p: "subject_path (cfg_jwt nested_config) = ''app.role''" "split_on (CHR ''.'') ''app.role'' = [''app'', ''role'']"
    "subject_val (cfg_jwt nested_config) ''user'' = VStr ''user''"
    by code_simp+
  have "undotted (gput ''tenant'' (VStr ''t'') [])" by (intro undotted_gput undotted_Nil) simp_all
  then have "undotted (gput ''app'' (VMap (gput ''tenant'' (VStr ''t'') [])) [])"
    by (intro undotted_gput undotted_Nil) simp_all
  then have "undotted [(''app'', VMap [(''tenant'', VStr ''t'')])]" by simp
  from minted_claims_name_subject [OF m _ this] m show ?thesis by (simp add: p nested_claims_def)
qed

section \<open>Signing up and signing in\<close>

lemma signup_ok:
  assumes "signup sign bc db g now args w = (w', Inr tok)"
  obtains gt h n idn where "g = Some gt" "bc_hash bc (arg_str args ''password'') = Inr h"
    "d_exec db w signup_sql [VStr (arg_str args ''username''), VStr h,
       VStr (or_str (arg_str args ''name'') (arg_str args ''username'')),
       VStr (or_str (arg_str args ''email'') (arg_str args ''username'' @ ''@example.com''))] = (w', Inr (n, idn))"
    "gate_sign_token sign gt now [(''sub'', VInt64 idn)] = Inr tok"
    "3 \<le> length (arg_str args ''username'')" "8 \<le> length (arg_str args ''password'')"
  using assms by (auto simp: signup_def Let_def split: res_splits if_splits)

text \<open>A refused signup leaves the accounts alone, unless the statement itself failed or the token could not be signed.\<close>

lemma signup_short: "length (arg_str args ''username'') < 3 \<or> length (arg_str args ''password'') < 8 \<Longrightarrow>
    signup sign bc db g now args w = (w, Inl (Account_Err Credentials_Too_Short))"
  by (simp add: signup_def Let_def)

text \<open>The account outlives a failure to sign.\<close>

lemma signup_keeps_account:
  assumes "3 \<le> length (arg_str args ''username'')" "8 \<le> length (arg_str args ''password'')"
    and "bc_hash bc (arg_str args ''password'') = Inr h"
    and "\<And>vs. d_exec db w signup_sql vs = (w', Inr (1, idn))"
    and "\<not> has_prefix (jwt_algorithm (cfg_jwt (g_static g))) ''HS''"
  shows "signup sign bc db (Some g) now args w =
    (w', Inl (Auth_Err (Cannot_Sign (jwt_algorithm (cfg_jwt (g_static g))))))"
  using assms by (simp add: signup_def Let_def gate_sign_token_def sign_token_def)

text \<open>A disabled account is reported whatever the password.\<close>

lemma signin_disabled:
  "d_query db w signin_sql [VStr (arg_str args ''username'')] = Inr (vs # rs) \<Longrightarrow> scan_user vs = Inr (idn, hash, 0) \<Longrightarrow>
     signin sign bc db (Some g) now args w = Inl (Account_Err Account_Disabled)"
  by (simp add: signin_def Let_def)

text \<open>What the account table promises: a row that was inserted is the one its user name selects, active by default.\<close>

definition account_db :: "'w sqldb \<Rightarrow> bool" where
  "account_db db \<longleftrightarrow>
     (\<forall>w w' u h nm em n idn. d_exec db w signup_sql [VStr u, VStr h, VStr nm, VStr em] = (w', Inr (n, idn)) \<longrightarrow>
        (\<exists>rs. d_query db w' signin_sql [VStr u] = Inr ([VInt64 idn, VBytes h, VInt64 1] # rs)))"


text \<open>A table of accounts: user name, hash and id.\<close>

definition demo_accounts :: "(string \<times> string \<times> int) list sqldb" where
  "demo_accounts = \<lparr>
     d_query = (\<lambda>w q vs. case vs of
        [VStr u] \<Rightarrow> Inr (map (\<lambda>(_, h, i). [VInt64 i, VBytes h, VInt64 1]) (filter (\<lambda>(n, _). n = u) w)) | _ \<Rightarrow> Inr []),
     d_begin = (\<lambda>_. None),
     d_exec = (\<lambda>w q vs. case vs of
        [VStr u, VStr h, _, _] \<Rightarrow>
          if list_ex (\<lambda>(n, _). n = u) w then (w, Inl (Ext_Error ''duplicate''))
          else ((u, h, int (length w) + 1) # w, Inr (1, int (length w) + 1))
      | _ \<Rightarrow> (w, Inl (Ext_Error ''syntax''))),
     d_commit = (\<lambda>_. None)\<rparr>"

definition demo_bcrypt :: bcrypt where
  "demo_bcrypt = \<lparr>bc_hash = (\<lambda>p. if length p \<le> 72 then Inr (rev p) else Inl (Ext_Error ''password length exceeds 72 bytes'')),
     bc_check = (\<lambda>h p. h = rev p)\<rparr>"

definition show_sign :: "string \<Rightarrow> gval gmap \<Rightarrow> string \<Rightarrow> string res" where
  "show_sign alg m secret = (case gget m ''sub'' of Some (VInt64 n) \<Rightarrow> Inr (show_int n) | _ \<Rightarrow> Inl (Ext_Error ''no subject''))"

definition account_args :: "gval gmap" where
  "account_args = [(''username'', VStr ''alice''), (''password'', VStr ''password123'')]"

lemma demo_accounts_ok: "account_db demo_accounts"
  by (auto simp: account_db_def demo_accounts_def split: if_splits)

definition plain_gate :: "config \<Rightarrow> (unit, unit) gate" where
  "plain_gate cfg = \<lparr>g_static = cfg, g_path = [],
     g_state = \<lparr>gs_srv = \<lparr>ss_cfg = cfg, ss_schemas = [], ss_verifier = \<lparr>vf_cfg = cfg_jwt cfg, vf_key = Hmac_Secret [],
       vf_opts = verifier_opts (cfg_jwt cfg), vf_roles = {}, vf_resolver = None\<rparr>\<rparr>,
       gs_catalog = \<lparr>cat_schema = [], cat_tables = [], cat_order = []\<rparr>, gs_hooks = \<lparr>h_before = [], h_after = []\<rparr>\<rparr>,
     g_cache = Map.empty\<rparr>"


end
