(* ===== verification/Command.thy ===== *)
theory Command
  imports Accounts
begin

text \<open>
  The process around a gate (\<open>Run\<close>, \<open>ListenAndServe\<close>, \<open>watchConfig\<close> in \<open>gqlgate.go\<close>, \<open>main\<close> in
  \<open>cmd/gqlgate/main.go\<close>): the life of the connection pool, the watcher's loop, how serving ends, and the two
  modes of the command. The listener, the clock and the signals are parameters.
\<close>

section \<open>The connection pool\<close>

datatype pool_event = Pool_Opened | Pool_Closed

text \<open>What \<open>Open\<close> does with the pool on each of its paths; it keeps it only with the gate it returns.\<close>

definition open_events :: "'s platform \<Rightarrow> 'h registrations \<Rightarrow> string \<Rightarrow> config \<Rightarrow> pool_event list" where
  "open_events pf rg path cfg =
     (case pf_open pf (dsn (cfg_database cfg)) of
        Some e \<Rightarrow> []
      | None \<Rightarrow>
          (case pf_ping pf of
             Some e \<Rightarrow> [Pool_Opened, Pool_Closed]
           | None \<Rightarrow>
               (case build_state pf rg cfg of
                  Inl e \<Rightarrow> [Pool_Opened, Pool_Closed]
                | Inr st \<Rightarrow> [Pool_Opened])))"

text \<open>The tries of \<open>openWithRetry\<close> up to the one that ends it.\<close>

type_synonym 's attempt_at = "'s platform \<times> gerr option \<times> int \<times> gerr option"

fun tries_made :: "(gerr \<Rightarrow> string) \<Rightarrow> 'h registrations \<Rightarrow> string \<Rightarrow> config \<Rightarrow> int \<Rightarrow> 's attempt_at list \<Rightarrow> 's attempt_at list" where
  "tries_made txt rg path cfg deadline [] = []"
| "tries_made txt rg path cfg deadline (t # ts) =
     t # (if open_with_retry txt deadline [open_attempt rg path cfg t] = None
          then tries_made txt rg path cfg deadline ts else [])"

section \<open>Serving\<close>

text \<open>How \<open>ListenAndServe\<close> ends: the listener fails, or the context is done and \<open>Shutdown\<close> returns.\<close>

datatype serve_end = Listener_Failed gerr | Context_Done "gerr option"

definition listen_and_serve :: "(gerr \<Rightarrow> bool) \<Rightarrow> serve_end \<Rightarrow> gerr option" where
  "listen_and_serve is_deadline r =
     (case r of
        Listener_Failed e \<Rightarrow> Some e
      | Context_Done None \<Rightarrow> None
      | Context_Done (Some e) \<Rightarrow> if is_deadline e then None else Some e)"

definition watches :: "('s, 'h) gate \<Rightarrow> bool" where
  "watches g \<longleftrightarrow> srv_hot_reload (cfg_server (g_static g)) \<and> g_path g \<noteq> []"

text \<open>The watcher until the context is done: the first stamps, then one tick after another.\<close>

type_synonym 's tick = "(string \<Rightarrow> string option) \<times> config_io \<times> (string \<Rightarrow> string option) \<times> 's platform"

definition watch_config :: "(string \<Rightarrow> string option) \<Rightarrow> 'h registrations \<Rightarrow> 's tick list \<Rightarrow> ('s, 'h) gate \<Rightarrow> ('s, 'h) gate" where
  "watch_config stat0 rg ticks g =
     snd (foldl (\<lambda>lg (stat, io, stat', pf). watch_tick stat io stat' pf rg lg) (watch_stamps stat0 (g_path g), g) ticks)"

text \<open>\<open>Run\<close>: its error and what it did with pools; \<open>None\<close> when the tries are used up.\<close>

definition tries_events :: "config_io \<Rightarrow> (gerr \<Rightarrow> string) \<Rightarrow> 'h registrations \<Rightarrow> string \<Rightarrow> int \<Rightarrow> 's attempt_at list \<Rightarrow> pool_event list" where
  "tries_events io txt rg path start tries =
     (case load_config io path of
        Inl e \<Rightarrow> []
      | Inr cfg \<Rightarrow>
          concat (map (\<lambda>t. open_events (fst t) rg path cfg)
            (tries_made txt rg path cfg (start + startup_wait (io_env io) cfg) tries)))"

definition run_gateway ::
    "config_io \<Rightarrow> (gerr \<Rightarrow> string) \<Rightarrow> (gerr \<Rightarrow> bool) \<Rightarrow> 'h registrations \<Rightarrow> string \<Rightarrow> int \<Rightarrow> 's attempt_at list \<Rightarrow> serve_end
      \<Rightarrow> (gerr option \<times> pool_event list) option" where
  "run_gateway io txt is_deadline rg path start tries ending =
     (let events = tries_events io txt rg path start tries
      in case run_until_open io txt rg path start tries of
           None \<Rightarrow> None
         | Some (Inl e) \<Rightarrow> Some (Some e, events)
         | Some (Inr g) \<Rightarrow> Some (listen_and_serve is_deadline ending, events @ [Pool_Closed]))"

section \<open>The command\<close>

record flags =
  fl_config :: string
  fl_print_token :: string
  fl_claims :: string
  fl_ttl :: int

definition default_flags :: flags where
  "default_flags = \<lparr>fl_config = ''gqlgate.yaml'', fl_print_token = [], fl_claims = ''{}'', fl_ttl = 24 * 3600 * 10 ^ 9\<rparr>"

datatype cmd_end = Printed string | Served | Fatal gerr

text \<open>\<open>now\<close> is the clock in nanoseconds; \<open>served\<close> is what \<open>gqlgate.Run\<close> returns.\<close>

definition main_cmd ::
    "config_io \<Rightarrow> (string \<Rightarrow> gval gmap \<Rightarrow> string \<Rightarrow> string res) \<Rightarrow> (string \<Rightarrow> gval gmap option res) \<Rightarrow> int \<Rightarrow> gerr option
      \<Rightarrow> flags \<Rightarrow> cmd_end" where
  "main_cmd io sign json now served fl =
     (case load_config io (fl_config fl) of
        Inl e \<Rightarrow> Fatal e
      | Inr cfg \<Rightarrow>
          if fl_print_token fl \<noteq> [] then
            (case mint_token sign json cfg (fl_print_token fl) (fl_claims fl) (now div 10 ^ 9) ((now + fl_ttl fl) div 10 ^ 9) of
               Inl e \<Rightarrow> Fatal e
             | Inr token \<Rightarrow> Printed token)
          else (case served of Some e \<Rightarrow> Fatal e | None \<Rightarrow> Served))"

section \<open>Every pool is closed\<close>

fun paired :: "pool_event list \<Rightarrow> bool" where
  "paired [] = True"
| "paired (Pool_Opened # Pool_Closed # es) = paired es"
| "paired _ = False"

lemma paired_append: "paired es \<Longrightarrow> paired (es @ es') = paired es'"
  by (induction es rule: paired.induct) simp_all

lemma open_events_cases:
  assumes "srv_path (cfg_server cfg) \<notin> {[], health_path}"
  shows "case open_gate pf rg path cfg of Inl _ \<Rightarrow> paired (open_events pf rg path cfg) | Inr _ \<Rightarrow> open_events pf rg path cfg = [Pool_Opened]"
  using assms by (auto simp: open_gate_def open_events_def split: option.splits sum.splits)

text \<open>Up to the verdict the tries leave no pool open, except the pool of the gate they return.\<close>

lemma tries_made_events:
  assumes "srv_path (cfg_server cfg) \<notin> {[], health_path}"
    and "open_with_retry txt deadline (map (open_attempt rg path cfg) tries) = Some r"
  shows "\<exists>es. concat (map (\<lambda>t. open_events (fst t) rg path cfg) (tries_made txt rg path cfg deadline tries)) =
      es @ (case r of Inl _ \<Rightarrow> [] | Inr _ \<Rightarrow> [Pool_Opened]) \<and> paired es"
  using assms(2)
proof (induction tries)
  case (Cons t ts)
  obtain pf ctx now wait where t: "t = (pf, ctx, now, wait)" by (cases t)
  note ev = open_events_cases [OF assms(1), of pf rg path]
  show ?case
  proof (cases "open_gate pf rg path cfg")
    case (Inr g)
    then have "open_with_retry txt deadline [open_attempt rg path cfg t] = Some (Inr g)" by (simp add: t open_attempt_def)
    then have made: "tries_made txt rg path cfg deadline (t # ts) = [t]" by simp
    have "r = Inr g" using Cons.prems Inr by (simp add: t open_attempt_def)
    with made show ?thesis using Inr ev by (intro exI [of _ "[]"]) (simp add: t)
  next
    case (Inl e)
    then have pe: "paired (open_events pf rg path cfg)" using ev by simp
    show ?thesis
    proof (cases "open_with_retry txt deadline [open_attempt rg path cfg t]")
      case None
      then have "open_with_retry txt deadline (map (open_attempt rg path cfg) ts) = Some r"
        using Cons.prems Inl by (auto simp: t open_attempt_def split: option.splits if_splits)
      from Cons.IH [OF this] obtain es where "paired es"
        "concat (map (\<lambda>t. open_events (fst t) rg path cfg) (tries_made txt rg path cfg deadline ts)) =
          es @ (case r of Inl _ \<Rightarrow> [] | Inr _ \<Rightarrow> [Pool_Opened])" by blast
      then show ?thesis using pe paired_append [OF pe] None
        by (intro exI [of _ "open_events pf rg path cfg @ es"]) (simp add: t)
    next
      case (Some r')
      then have "r = Inl e \<or> (\<exists>c. r = Inl c)"
        using Cons.prems Inl by (auto simp: t open_attempt_def split: option.splits if_splits)
      then show ?thesis using pe Some by (intro exI [of _ "open_events pf rg path cfg"]) (auto simp: t)
    qed
  qed
qed simp

text \<open>Whatever the tries meet and however serving ends, \<open>Run\<close> returns with no pool open, and never holds
  two at a time.\<close>

lemma run_closes_pools:
  assumes "run_gateway io txt is_deadline rg path start tries ending = Some (err, events)"
    and served: "\<And>cfg. load_config io path = Inr cfg \<Longrightarrow> srv_path (cfg_server cfg) \<notin> {[], health_path}"
  shows "paired events"
proof -
  obtain r where r: "run_until_open io txt rg path start tries = Some r"
    "events = tries_events io txt rg path start tries @ (case r of Inl _ \<Rightarrow> [] | Inr _ \<Rightarrow> [Pool_Closed])"
    using assms(1) by (auto simp: run_gateway_def Let_def split: option.splits sum.splits)
  show ?thesis
  proof (cases "load_config io path")
    case (Inl e)
    then show ?thesis using r by (auto simp: run_until_open_def tries_events_def)
  next
    case (Inr cfg)
    obtain es where "tries_events io txt rg path start tries = es @ (case r of Inl _ \<Rightarrow> [] | Inr _ \<Rightarrow> [Pool_Opened])" "paired es"
      using tries_made_events [OF served [OF Inr], of "txt" "start + startup_wait (io_env io) cfg" rg path tries r] r(1)
      by (auto simp: tries_events_def run_until_open_def Inr)
    then show ?thesis using r(2) by (cases r) (simp_all add: paired_append)
  qed
qed

section \<open>The watcher\<close>

text \<open>Watching is a part of the life of a gate: whatever the file does, every generation it installs is
  one of \<open>gate_reach\<close>, so what holds along a life holds of a watched gate.\<close>

lemma watch_tick_reach:
  assumes "gate_reach rg ns static path g" "pf_new_schema pf = ns"
  shows "gate_reach rg ns static path (snd (watch_tick stat io stat' pf rg (lst, g)))"
  using assms gate_reach.reloaded [OF assms] by (simp add: watch_tick_def)

lemma watch_config_reach:
  assumes "gate_reach rg ns static path g" "\<forall>(stat, io, stat', pf)\<in>set ticks. pf_new_schema pf = ns"
  shows "gate_reach rg ns static path (watch_config stat0 rg ticks g)"
proof -
  have "gate_reach rg ns static path (snd (foldl (\<lambda>lg (stat, io, stat', pf). watch_tick stat io stat' pf rg lg) (lst, g) ticks))" for lst
    using assms
  proof (induction ticks arbitrary: lst g)
    case (Cons t ts)
    obtain stat io stat' pf where t: "t = (stat, io, stat', pf)" by (cases t)
    obtain lst' g' where tick: "watch_tick stat io stat' pf rg (lst, g) = (lst', g')" by fastforce
    have "gate_reach rg ns static path g'"
      using watch_tick_reach [OF Cons.prems(1), of pf stat io stat' lst] Cons.prems(2) tick by (simp add: t)
    from Cons.IH [OF this] show ?case using Cons.prems(2) by (simp add: t tick)
  qed simp
  then show ?thesis by (simp add: watch_config_def)
qed

text \<open>An unchanged file is never reloaded.\<close>

lemma watch_unchanged:
  assumes "\<forall>(stat, io, stat', pf)\<in>set ticks. stat (g_path g) = stat0 (g_path g)"
  shows "watch_config stat0 rg ticks g = g"
proof -
  have "foldl (\<lambda>lg (stat, io, stat', pf). watch_tick stat io stat' pf rg lg) (watch_stamps stat0 (g_path g), g) ticks =
      (watch_stamps stat0 (g_path g), g)"
    using assms by (induction ticks) (auto simp: watch_tick_def watch_stamps_def same_stamps_def)
  then show ?thesis by (simp add: watch_config_def)
qed

section \<open>The command line\<close>

text \<open>With \<open>-print-token\<close> the command never serves, and prints a token only of an HS configuration.\<close>

lemma main_prints:
  "main_cmd io sign json now served fl = Printed token \<Longrightarrow>
     fl_print_token fl \<noteq> [] \<and> (\<exists>cfg. load_config io (fl_config fl) = Inr cfg \<and> config_ok cfg \<and> has_prefix (jwt_algorithm (cfg_jwt cfg)) ''HS'')"
  using load_config_ok by (fastforce simp: main_cmd_def mint_token_def split: sum.splits if_splits option.splits)

end
