(* ===== verification/Seed.thy ===== *)
theory Seed
  imports Accounts
begin

text \<open>
  The seeder (\<open>example/seed/main.go\<close>): it strips comment lines from a script, cuts it at semicolons and
  executes the statements one by one, against a local database only. The driver is a parameter; the
  wait for the database is a list of pings, each with whether the deadline has passed behind it.
\<close>

datatype seed_err =
    Seed_Failed gerr
  | Refused_Host string
  | Database_Unreachable string int gerr
  | Statement_Failed nat gerr string

record 'w seed_db =
  sd_open :: "string \<Rightarrow> gerr option"
  sd_conn :: "gerr option"
  sd_exec :: "'w \<Rightarrow> string \<Rightarrow> 'w \<times> gerr option"

definition is_comment :: "string \<Rightarrow> bool" where
  "is_comment line = has_prefix (trim_space line) ''--''"

definition seed_statements :: "string \<Rightarrow> string list" where
  "seed_statements raw =
     filter (\<lambda>s. s \<noteq> [])
       (map trim_space (split_on (CHR '';'')
          (join [CHR 0x0A] (filter (\<lambda>l. \<not> is_comment l) (split_on (CHR 0x0A) raw)))))"

fun run_script :: "('w \<Rightarrow> string \<Rightarrow> 'w \<times> gerr option) \<Rightarrow> nat \<Rightarrow> string list \<Rightarrow> 'w \<Rightarrow> 'w \<times> (seed_err + nat)" where
  "run_script ex done_n [] w = (w, Inr done_n)"
| "run_script ex done_n (s # ss) w =
     (case ex w s of
        (w', Some e) \<Rightarrow> (w', Inl (Statement_Failed (done_n + 1) e s))
      | (w', None) \<Rightarrow> run_script ex (done_n + 1) ss w')"

fun seed_wait :: "(gerr option \<times> bool) list \<Rightarrow> gerr option option" where
  "seed_wait [] = None"
| "seed_wait ((None, _) # _) = Some None"
| "seed_wait ((Some e, late) # ps) = (if late then Some (Some e) else seed_wait ps)"

definition seed_dsn :: "database \<Rightarrow> string" where
  "seed_dsn d = db_user d @ '':'' @ db_password d @ ''@tcp('' @ db_host d @ '':'' @ show_int (db_port d) @
     '')/?parseTime=true&charset=utf8mb4&multiStatements=false''"

definition local_hosts :: "string list" where
  "local_hosts = [''tidb'', ''127.0.0.1'', ''localhost'', ''host.docker.internal'']"

text \<open>\<open>None\<close> while the database is still waited for.\<close>

definition seed_run :: "config_io \<Rightarrow> 'w seed_db \<Rightarrow> string \<Rightarrow> string \<Rightarrow> (gerr option \<times> bool) list \<Rightarrow> 'w
    \<Rightarrow> ('w \<times> (seed_err + nat)) option" where
  "seed_run io sd path file pings w =
     (case load_config io path of
        Inl e \<Rightarrow> Some (w, Inl (Seed_Failed e))
      | Inr cfg \<Rightarrow>
     (case io_read io file of
        Inl e \<Rightarrow> Some (w, Inl (Seed_Failed e))
      | Inr raw \<Rightarrow>
     (let d = cfg_database cfg
      in case sd_open sd (seed_dsn d) of
           Some e \<Rightarrow> Some (w, Inl (Seed_Failed e))
         | None \<Rightarrow>
             if env_str (io_env io) ''GQLGATE_SEED_ALLOW_ANY_HOST'' \<noteq> ''1'' \<and> db_host d \<notin> set local_hosts
             then Some (w, Inl (Refused_Host (db_host d)))
             else (case seed_wait pings of
                     None \<Rightarrow> None
                   | Some (Some e) \<Rightarrow> Some (w, Inl (Database_Unreachable (db_host d) (db_port d) e))
                   | Some None \<Rightarrow>
                       (case sd_conn sd of
                          Some e \<Rightarrow> Some (w, Inl (Seed_Failed e))
                        | None \<Rightarrow> Some (run_script (sd_exec sd) 0 (seed_statements raw) w))))))"

section \<open>The statements of a script\<close>

lemma split_on_both: "split_on c (a @ c # r) = split_on c a @ split_on c r"
  by (induction a) (auto split: list.splits)

lemma join_append: "xs \<noteq> [] \<Longrightarrow> ys \<noteq> [] \<Longrightarrow> join sep (xs @ ys) = join sep xs @ sep @ join sep ys"
  by (induction xs rule: remdups_adj.induct) (auto simp: join_Cons)

lemma join_split_on: "join [c] (split_on c p) = p"
proof (induction p)
  case (Cons x xs)
  then show ?case by (cases "split_on c xs" rule: remdups_adj.cases) auto
qed simp

lemma newline_space: "find (has_prefix (CHR 0x0A # s)) unicode_spaces = Some [CHR 0x0A]"
proof -
  have "unicode_spaces = [CHR 0x09] # [CHR 0x0A] # drop 2 unicode_spaces" by code_simp
  moreover have "\<not> has_prefix (CHR 0x0A # s) [CHR 0x09]" "has_prefix (CHR 0x0A # s) [CHR 0x0A]"
    by (simp_all add: has_prefix_iff)
  then have "find (has_prefix (CHR 0x0A # s)) ([CHR 0x09] # [CHR 0x0A] # ws) = Some [CHR 0x0A]" for ws
    by (simp only: find.simps if_False if_True)
  ultimately show ?thesis by metis
qed

lemma trim_newline: "trim_space (CHR 0x0A # s) = trim_space s"
  by (simp add: trim_space_def newline_space)

lemma trim_Nil: "trim_space [] = []"
  by code_simp

text \<open>A script: statements, each behind some comment lines and ended by a semicolon and a newline.\<close>

definition script :: "(string list \<times> string) list \<Rightarrow> string" where
  "script items = concat (map (\<lambda>(cs, s). concat (map (\<lambda>c. c @ [CHR 0x0A]) cs) @ s @ [CHR '';'', CHR 0x0A]) items)"

definition script_ok :: "(string list \<times> string) list \<Rightarrow> bool" where
  "script_ok items \<longleftrightarrow>
     (\<forall>(cs, s)\<in>set items. (\<forall>c\<in>set cs. is_comment c \<and> CHR 0x0A \<notin> set c) \<and> s \<noteq> [] \<and> trim_space s = s \<and>
        CHR '';'' \<notin> set s \<and> (\<forall>l\<in>set (split_on (CHR 0x0A) (s @ '';'')). \<not> is_comment l))"

lemma split_comments:
  "\<forall>c\<in>set cs. CHR 0x0A \<notin> set c \<Longrightarrow>
     split_on (CHR 0x0A) (concat (map (\<lambda>c. c @ [CHR 0x0A]) cs) @ r) = cs @ split_on (CHR 0x0A) r"
  by (induction cs) (auto simp: split_on_append)

lemma script_lines:
  "script_ok items \<Longrightarrow>
     join [CHR 0x0A] (filter (\<lambda>l. \<not> is_comment l) (split_on (CHR 0x0A) (script items))) =
     concat (map (\<lambda>(cs, s). s @ [CHR '';'', CHR 0x0A]) items)"
proof (induction items)
  case Nil
  show ?case by (simp add: script_def is_comment_def trim_Nil has_prefix_def)
next
  case (Cons it items)
  obtain cs s where it: "it = (cs, s)" by (cases it)
  let ?keep = "filter (\<lambda>l. \<not> is_comment l)" and ?nl = "CHR 0x0A"
  have ok: "\<forall>c\<in>set cs. is_comment c \<and> ?nl \<notin> set c" "\<forall>l\<in>set (split_on ?nl (s @ '';'')). \<not> is_comment l" "script_ok items"
    using Cons.prems by (auto simp: script_ok_def it)
  have "script (it # items) = concat (map (\<lambda>c. c @ [?nl]) cs) @ (s @ '';'') @ ?nl # script items"
    by (simp add: script_def it)
  then have "split_on ?nl (script (it # items)) = cs @ split_on ?nl (s @ '';'') @ split_on ?nl (script items)"
    using ok(1) by (simp add: split_comments split_on_both [symmetric])
  then have k: "?keep (split_on ?nl (script (it # items))) = split_on ?nl (s @ '';'') @ ?keep (split_on ?nl (script items))"
    using ok(1,2) by (simp add: filter_empty_conv)
  have "?keep (split_on ?nl (script items)) \<noteq> []"
  proof -
    have "\<exists>xs. split_on ?nl (script items) = xs @ [[]]"
    proof (cases items rule: rev_cases)
      case (snoc its it')
      then have "\<exists>p. script items = p @ ?nl # []" by (auto simp: script_def split: prod.splits)
      then show ?thesis by (auto simp: split_on_both)
    qed (simp add: script_def)
    then show ?thesis by (auto simp: is_comment_def trim_Nil has_prefix_def)
  qed
  then show ?case
    unfolding k using Cons.IH [OF ok(3)] by (simp add: join_append join_split_on it)
qed

lemma split_statements:
  "\<forall>s\<in>set ss. CHR '';'' \<notin> set s \<Longrightarrow>
     split_on (CHR '';'') (CHR 0x0A # concat (map (\<lambda>s. s @ [CHR '';'', CHR 0x0A]) ss)) =
     map (\<lambda>s. CHR 0x0A # s) ss @ [[CHR 0x0A]]"
proof (induction ss)
  case (Cons s ss)
  then have "split_on (CHR '';'') ((CHR 0x0A # s) @ CHR '';'' # CHR 0x0A # concat (map (\<lambda>s. s @ [CHR '';'', CHR 0x0A]) ss)) =
      (CHR 0x0A # s) # map (\<lambda>s. CHR 0x0A # s) ss @ [[CHR 0x0A]]"
    by (subst split_on_append) simp_all
  then show ?case by simp
qed simp

text \<open>The statements of a script are found, in order and without the comments, semicolons in comments included.\<close>

lemma seed_statements_script:
  assumes "script_ok items"
  shows "seed_statements (script items) = map snd items"
proof -
  let ?ss = "map snd items" and ?text = "\<lambda>ss. concat (map (\<lambda>s. s @ [CHR '';'', CHR 0x0A]) ss)"
  have ok: "\<forall>s\<in>set ?ss. CHR '';'' \<notin> set s \<and> trim_space s = s \<and> s \<noteq> []"
    using assms by (auto simp: script_ok_def)
  have "map (\<lambda>(cs, s). s @ [CHR '';'', CHR 0x0A]) items = map (\<lambda>s. s @ [CHR '';'', CHR 0x0A]) ?ss"
    by auto
  then have st: "seed_statements (script items) = filter (\<lambda>s. s \<noteq> []) (map trim_space (split_on (CHR '';'') (?text ?ss)))"
    unfolding seed_statements_def script_lines [OF assms] by (simp only: simp_thms)
  have "filter (\<lambda>s. s \<noteq> []) (map trim_space (split_on (CHR '';'') (?text ss))) = ss"
    if "\<forall>s\<in>set ss. CHR '';'' \<notin> set s \<and> trim_space s = s \<and> s \<noteq> []" for ss
  proof (cases ss)
    case Nil
    then show ?thesis by (simp add: trim_Nil)
  next
    case (Cons s rest)
    have "split_on (CHR '';'') (?text ss) = s # map (\<lambda>s. CHR 0x0A # s) rest @ [[CHR 0x0A]]"
      using that split_statements [of rest] by (simp add: Cons split_on_append)
    moreover have "map (trim_space \<circ> (\<lambda>s. CHR 0x0A # s)) rest = rest" "filter (\<lambda>s. s \<noteq> []) rest = rest"
      using that by (auto simp: Cons trim_newline filter_id_conv intro: map_idI)
    ultimately show ?thesis using that by (simp add: Cons trim_newline trim_Nil)
  qed
  with ok have "filter (\<lambda>s. s \<noteq> []) (map trim_space (split_on (CHR '';'') (?text ?ss))) = ?ss" by blast
  with st show ?thesis by (simp only:)
qed

section \<open>Running it\<close>

lemma run_script_prefix:
  "run_script ex n ss w = (w', r) \<Longrightarrow>
     \<exists>k\<le>length ss. w' = foldl (\<lambda>w s. fst (ex w s)) w (take k ss) \<and> (\<forall>m. r = Inr m \<longrightarrow> k = length ss \<and> m = n + k)"
proof (induction ss arbitrary: n w)
  case (Cons s ss)
  show ?case
  proof (cases "snd (ex w s)")
    case None
    then have "run_script ex (n + 1) ss (fst (ex w s)) = (w', r)" using Cons.prems by (auto split: prod.splits)
    from Cons.IH [OF this] show ?thesis by (metis (no_types) Suc_le_mono add.assoc foldl_Cons length_Cons plus_1_eq_Suc take_Suc_Cons)
  next
    case (Some e)
    then show ?thesis using Cons.prems by (intro exI [of _ 1]) (auto split: prod.splits)
  qed
qed auto

text \<open>Only the statements of the script are executed, in order, and against a local host unless that is overridden.\<close>

lemma seed_run_local:
  assumes "seed_run io sd path file pings w = Some (w', r)"
  shows "w' = w \<or>
    (\<exists>cfg raw k. load_config io path = Inr cfg \<and> io_read io file = Inr raw \<and>
       (env_str (io_env io) ''GQLGATE_SEED_ALLOW_ANY_HOST'' = ''1'' \<or> db_host (cfg_database cfg) \<in> set local_hosts) \<and>
       w' = foldl (\<lambda>w s. fst (sd_exec sd w s)) w (take k (seed_statements raw)) \<and>
       (\<forall>m. r = Inr m \<longrightarrow> m = length (seed_statements raw) \<and> k = m))"
proof (cases "w' = w")
  case False
  with assms obtain cfg raw where c: "load_config io path = Inr cfg" "io_read io file = Inr raw"
    "env_str (io_env io) ''GQLGATE_SEED_ALLOW_ANY_HOST'' = ''1'' \<or> db_host (cfg_database cfg) \<in> set local_hosts"
    "run_script (sd_exec sd) 0 (seed_statements raw) w = (w', r)"
    by (auto simp: seed_run_def Let_def split: sum.split_asm option.split_asm if_split_asm)
  obtain k where "w' = foldl (\<lambda>w s. fst (sd_exec sd w s)) w (take k (seed_statements raw))"
    "\<forall>m. r = Inr m \<longrightarrow> k = length (seed_statements raw) \<and> m = 0 + k"
    using run_script_prefix [OF c(4)] by blast
  then have "w' = foldl (\<lambda>w s. fst (sd_exec sd w s)) w (take k (seed_statements raw)) \<and>
      (\<forall>m. r = Inr m \<longrightarrow> m = length (seed_statements raw) \<and> k = m)" by auto
  with c(1-3) show ?thesis by blast
qed simp

lemma seed_wait_ends: "list_ex (\<lambda>(e, late). e = None \<or> late) ps \<Longrightarrow> seed_wait ps \<noteq> None"
  by (induction ps rule: seed_wait.induct) auto

end
