(* ===== verification/Spec2Isabelle.thy ===== *)
theory Spec2Isabelle
  imports Introspect Naming Config Rbac Scalars SqlGen Queries Mutations DataLoader Depth Auth Connection Analytics Schema_Build
    Schema_Valid Schema_Offered Relations Resolvers Write_Resolvers Hook_Wiring Server Gate Accounts Command Seed
begin

text \<open>
  A model of the gateway \<open>gqlgate\<close>: a Go server that introspects one TiDB or MySQL schema, generates a
  GraphQL schema per role from a YAML configuration, and serves queries and mutations under the
  grants of the caller's role.

  \<^bold>\<open>How the program works.\<close> At start-up \<open>Open\<close> (\<open>gqlgate.go\<close>) reads a validated configuration
  (\<open>config/config.go\<close>), wires the registered hooks (\<open>register/register.go\<close>, \<open>options.go\<close>), introspects the
  catalog (\<open>introspect/introspect.go\<close>), resolves each role's rules against it (\<open>rbac/rbac.go\<close>) and builds the
  role's schema (\<open>schema/builder.go\<close>). A request (\<open>server/server.go\<close>) is authenticated (\<open>auth/\<close>), bounded in size
  and depth (\<open>server/depth.go\<close>) and executed by the GraphQL library, which calls the resolvers: they
  translate arguments into SQL (\<open>schema/sqlgen.go\<close>), page with cursors (\<open>schema/cursor.go\<close>), batch
  relationships (\<open>schema/dataloader.go\<close>), aggregate and search (\<open>schema/aggregate.go\<close>, \<open>schema/vector.go\<close>), or
  write in a transaction with hooks around it (\<open>schema/hooks.go\<close>). A hot reload swaps the whole
  generation at once.

  \<^bold>\<open>The theories.\<close>
  \<^item> \<open>Gate_Base\<close>, \<open>Gate_Values\<close>: the prelude. Results are \<open>gerr + 'a\<close> with one constructor per error of the
    sources; a run-time panic is the error \<open>Go_Panic\<close>. Go maps that are ranged over are association lists
    in the order one run visits them, strings are byte strings, \<open>float64\<close> is its bit pattern, and sums
    that can leave 64 bits are wrapped. Its interfaces: \<open>preserved\<close> (a step relation and its invariant),
    \<open>all_or_nothing\<close> (transactions, reloads) and its extension \<open>granted_op\<close> (mutations), \<open>codec\<close>, \<open>ttl_cache\<close> (the
    cache of roles). \<open>stdlib\<close> collects formatters and parsers of the Go library for floats, times and JSON
    input, which are parameters.
  \<^item> \<open>Sql_Lex\<close>: how the database reads the text of a statement; \<open>closed\<close> fragments, top-level conjuncts,
    and the interface \<open>ident_quoting\<close>, interpreted by both quoting functions of the sources.
  \<^item> \<open>Wire\<close>: the JSON encoder for dynamic values and both base64 alphabets (interface \<open>base64\<close>).
  \<^item> \<open>Introspect\<close>: \<open>introspect.go\<close>; the invariant \<open>catalog_ok\<close> that later theories assume of a catalog.
  \<^item> \<open>Naming\<close>: \<open>naming.go\<close>, \<open>checkNameCollisions\<close>, \<open>relFieldName\<close>.
  \<^item> \<open>Config\<close>: \<open>config.go\<close>; scanning of \<open>${NAME}\<close> is an instance of the interface \<open>ref_syntax\<close>, shared with the
    claim references of row filters.
  \<^item> \<open>Rbac\<close>: \<open>rbac.go\<close>: claims along dotted paths, filters, presets, the resolution of a role.
  \<^item> \<open>Scalars\<close>: \<open>scalars.go\<close>. \<open>SqlGen\<close>, \<open>Queries\<close>: the read half of \<open>sqlgen.go\<close>. \<open>Mutations\<close>: its write half, \<open>hooks.go\<close>
    and the mutation resolvers of \<open>builder.go\<close>, over an abstract transactional database.
  \<^item> \<open>DataLoader\<close>: \<open>dataloader.go\<close>; \<open>loader_reach\<close> is every state that interleaved uses of one loader lead
    to, and the interface \<open>batch_load\<close> says what a batch function must promise. \<open>Relations\<close>: the relationship
    resolvers of \<open>builder.go\<close> with the loaders of a whole request. \<open>Resolvers\<close>, \<open>Write_Resolvers\<close>: every
    resolver of a schema dispatched to the operation it calls, the sources and thunks it leaves for the
    resolvers below it, and whole requests; the executor that picks the next call from the answers so
    far is a parameter, and a request is its first \<open>n\<close> calls, for any \<open>n\<close>.
  \<^item> \<open>Connection\<close>: \<open>cursor.go\<close> and the connection resolver. \<open>Analytics\<close>: \<open>aggregate.go\<close>, \<open>vector.go\<close>.
  \<^item> \<open>Schema_Build\<close>: the generation of a role's schema: every root field, object, filter and input type,
    with the data its resolver captures. \<open>Schema_Valid\<close>: a schema that the start-up check lets through is well
    formed. \<open>Schema_Offered\<close>: what a role was granted is there.
  \<^item> \<open>Auth\<close>: \<open>auth.go\<close>, \<open>rolelookup.go\<close>, \<open>signHelper\<close>. \<open>Depth\<close>: \<open>depth.go\<close>. \<open>Server\<close>: \<open>server.go\<close>.
  \<^item> \<open>Hook_Wiring\<close>: \<open>register.go\<close>, \<open>buildHooks\<close>. \<open>Gate\<close>: \<open>gqlgate.go\<close>; \<open>gate_reach\<close> is the life of a gate.
  \<^item> \<open>Accounts\<close>: the account mutations of \<open>hooks/auth.go\<close> and the development tokens of \<open>cmd/gqlgate/main.go\<close>.
    \<open>Command\<close>: the process around a gate: \<open>Run\<close> with its connection pools, the loop of the watcher, the end of
    serving, the modes of \<open>main\<close>. \<open>Seed\<close>: the seeder of the example, \<open>example/seed/main.go\<close>.

  \<^bold>\<open>What is shown.\<close>
  \<^item> Access control. Every statement the gateway sends is a closed text with one placeholder per bound
    value, so no client value or claim can change its structure; every read, update, delete,
    aggregate and search carries the role's row filter as a conjunct of its top-level \<open>WHERE\<close>; only readable
    columns are selected, filtered or sorted; writes touch only granted columns and presets win; a
    grant exists only by a rule that allows it; and a schema shows nothing beyond the grants, and everything within them.
    Over a whole request, whatever its resolvers and their order, the gateway cannot be told apart from
    one whose database refuses every statement but the role's own reads and writes; the lemmas
    \<open>role_views_wf\<close>, \<open>search_field_ok\<close> and \<open>object_fields_ok\<close> get the hypotheses of these theorems from the schema.
  \<^item> Authentication. Who is identified, under which pinned algorithm and key; how old a cached role can
    be; which requests reach the database at all; under which schema they run after any reloads.
  \<^item> Answers. Cursor pagination visits every row once; batching returns what a query per parent would;
    aggregates come from their own expressions; scalars survive the round trip.
  \<^item> Robustness. Errors roll back; a reload is all or nothing; the depth check is exact on acyclic
    documents and linear on all; retries end; every connection pool is closed; configurations that load are usable.

  \<^bold>\<open>Bounds and fuel.\<close> Recursion is structural or has a measure: the depth check is bounded by the fragments not
    under way, then by the size of the selections. The search for a relation field name may not end as
    written, so it is a \<open>partial_function (option)\<close>, proved to return. \<open>open_with_retry\<close> runs over a list of
    attempts, and the list is shown never to be used up when it is longer than the window allows.
    Following fragments in \<open>Analytics\<close> likewise is partial, since the code relies on the validator to
    have refused cycles.

  \<^bold>\<open>Not modelled.\<close> The GraphQL type system, validation and execution, the JWT, YAML and bcrypt libraries and
    the database are third-party code: parameters of the definitions, with what is used of them as
    hypotheses. Logging, descriptions of fields, timeouts, the settings of the pool and the listener itself are
    I/O. A mutation request is its root fields; relationships below them read a database that changes
    in between, which the loaders of \<open>Relations\<close> do not follow. A relationship resolved outside a request,
    with loaders of its own, is left out, and so is the dispatch to custom fields of the embedding
    program. \<open>http.ServeMux\<close> is modelled on plain paths, without its redirects. The parser of flags, signals
    and messages of the commands are process glue.
\<close>

end
